(* ===== verification/LdapPrelude.thy ===== *)
theory LdapPrelude
  imports
    Main
    "HOL-Library.Word"
    "HOL-Library.Char_ord"
    "HOL-Library.List_Lexorder"
    "HOL-Library.Sublist"
begin

text \<open>
  Shared vocabulary of the development: bytes and C++ strings, the character
  classes of \<^verbatim>\<open><cctype>\<close> in the C locale, the \<^verbatim>\<open>std::string\<close> searches the
  sources use, position scans over a text, and \<^verbatim>\<open>std::map<std::string, T>\<close> as an
  association list kept in key order.  A \<^verbatim>\<open>std::string\<close> is a list of 8-bit
  characters, a \<^verbatim>\<open>std::vector<uint8_t>\<close> a list of \<^verbatim>\<open>8 word\<close>.
\<close>

unbundle bit_operations_syntax

named_theorems string_simps \<open>case folding, character classes, byte and string conversion\<close>
named_theorems smap_simps \<open>lookup and key order in ordered maps\<close>

type_synonym byte = "8 word"
type_synonym bytes = "8 word list"
type_synonym int32 = "32 word"
type_synonym int64 = "64 word"

section \<open>Bytes and characters\<close>

definition byte_of_char :: "char \<Rightarrow> byte" where
  "byte_of_char c = of_nat (of_char c)"

definition char_of_byte :: "byte \<Rightarrow> char" where
  "char_of_byte b = char_of (unat b)"

definition bytes_of :: "string \<Rightarrow> bytes" where
  "bytes_of s = map byte_of_char s"

definition string_of :: "bytes \<Rightarrow> string" where
  "string_of bs = map char_of_byte bs"

lemma char_of_byte_of_char [string_simps, simp]: "char_of_byte (byte_of_char c) = c"
  by (simp add: char_of_byte_def byte_of_char_def unat_of_nat)

lemma byte_of_char_of_byte [string_simps, simp]: "byte_of_char (char_of_byte b) = b"
proof -
  have "unat b < 256" using unsigned_less [of b, where ?'a = nat] by simp
  then show ?thesis by (simp add: char_of_byte_def byte_of_char_def)
qed

lemma string_of_bytes_of [string_simps, simp]: "string_of (bytes_of s) = s"
  by (simp add: string_of_def bytes_of_def map_idI)

lemma bytes_of_string_of [string_simps, simp]: "bytes_of (string_of bs) = bs"
  by (simp add: string_of_def bytes_of_def map_idI)

lemma length_bytes_of [string_simps, simp]: "length (bytes_of s) = length s"
  by (simp add: bytes_of_def)

lemma length_string_of [string_simps, simp]: "length (string_of bs) = length bs"
  by (simp add: string_of_def)

lemma bytes_of_append [string_simps]: "bytes_of (s @ t) = bytes_of s @ bytes_of t"
  by (simp add: bytes_of_def)

lemma bytes_of_Nil [string_simps, simp]: "bytes_of [] = []"
  by (simp add: bytes_of_def)

lemma bytes_of_eq_Nil [string_simps, simp]: "bytes_of s = [] \<longleftrightarrow> s = []"
  by (simp add: bytes_of_def)

lemma string_of_eq_Nil [string_simps, simp]: "string_of bs = [] \<longleftrightarrow> bs = []"
  by (simp add: string_of_def)

lemma ucast_ucast_byte [simp]: "ucast (ucast (b :: byte) :: int32) = b"
  by (rule bit_word_eqI) (auto simp: bit_simps)

text \<open>\<^verbatim>\<open>std::isspace\<close>, \<^verbatim>\<open>std::isdigit\<close>, \<^verbatim>\<open>std::isalnum\<close>, \<^verbatim>\<open>std::tolower\<close> and
  \<^verbatim>\<open>std::toupper\<close> in the C locale, on unsigned characters.\<close>

abbreviation char_code :: "char \<Rightarrow> nat" where
  "char_code c \<equiv> of_char c"

definition isspace :: "char \<Rightarrow> bool" where
  "isspace c \<longleftrightarrow> char_code c = 32 \<or> (9 \<le> char_code c \<and> char_code c \<le> 13)"

definition isdigit :: "char \<Rightarrow> bool" where
  "isdigit c \<longleftrightarrow> 48 \<le> char_code c \<and> char_code c \<le> 57"

definition isupper :: "char \<Rightarrow> bool" where
  "isupper c \<longleftrightarrow> 65 \<le> char_code c \<and> char_code c \<le> 90"

definition islower :: "char \<Rightarrow> bool" where
  "islower c \<longleftrightarrow> 97 \<le> char_code c \<and> char_code c \<le> 122"

definition isalnum :: "char \<Rightarrow> bool" where
  "isalnum c \<longleftrightarrow> isdigit c \<or> isupper c \<or> islower c"

definition tolower :: "char \<Rightarrow> char" where
  "tolower c = (if isupper c then char_of (char_code c + 32) else c)"

definition toupper :: "char \<Rightarrow> char" where
  "toupper c = (if islower c then char_of (char_code c - 32) else c)"

lemma char_code_tolower: "char_code (tolower c) = (if isupper c then char_code c + 32 else char_code c)"
  by (simp add: tolower_def isupper_def)

lemma tolower_idem [string_simps, simp]: "tolower (tolower c) = tolower c"
proof -
  have "\<not> isupper (tolower c)" by (auto simp: isupper_def char_code_tolower)
  then show ?thesis by (simp add: tolower_def [of "tolower c"])
qed

lemma tolower_eq_other:
  assumes "\<not> isupper d" "\<not> islower d"
  shows "tolower c = d \<longleftrightarrow> c = d"
proof (cases "isupper c")
  case True
  then have "char_code (tolower c) = char_code c + 32" and "islower (tolower c)"
    by (auto simp: char_code_tolower isupper_def islower_def)
  with True assms show ?thesis by auto
qed (simp add: tolower_def)

section \<open>Scanning a text from a position\<close>

text \<open>The loop \<^verbatim>\<open>while (pos < text.size() && p(text[pos])) ++pos;\<close>\<close>

function scan_while :: "(char \<Rightarrow> bool) \<Rightarrow> string \<Rightarrow> nat \<Rightarrow> nat" where
  "scan_while p t pos =
     (if pos < length t \<and> p (t ! pos) then scan_while p t (Suc pos) else pos)"
  by pat_completeness auto
termination
  by (relation "measure (\<lambda>(p, t, pos). length t - pos)") auto

declare scan_while.simps [simp del]

lemma scan_while_ge: "pos \<le> scan_while p t pos"
proof (induction p t pos rule: scan_while.induct)
  case (1 p t pos)
  then show ?case by (subst scan_while.simps) (auto dest: Suc_leD)
qed

lemma scan_while_le: "pos \<le> length t \<Longrightarrow> scan_while p t pos \<le> length t"
proof (induction p t pos rule: scan_while.induct)
  case (1 p t pos)
  then show ?case by (subst scan_while.simps) auto
qed

lemma scan_while_stop:
  "scan_while p t pos < length t \<Longrightarrow> \<not> p (t ! scan_while p t pos)"
proof (induction p t pos rule: scan_while.induct)
  case (1 p t pos)
  show ?case
  proof (cases "pos < length t \<and> p (t ! pos)")
    case True
    with 1 show ?thesis by (simp add: scan_while.simps [of p t pos])
  next
    case False
    with 1 show ?thesis by (auto simp: scan_while.simps [of p t pos])
  qed
qed

lemma scan_while_skipped:
  "pos \<le> i \<Longrightarrow> i < scan_while p t pos \<Longrightarrow> i < length t \<and> p (t ! i)"
proof (induction p t pos rule: scan_while.induct)
  case (1 p t pos)
  show ?case
  proof (cases "pos < length t \<and> p (t ! pos)")
    case True
    with 1 show ?thesis
      by (cases "i = pos") (auto simp: scan_while.simps [of p t pos])
  next
    case False
    with 1 show ?thesis by (auto simp: scan_while.simps [of p t pos])
  qed
qed

text \<open>The form in which the parser proofs use a scan: the text is split at the current
  position, a run that satisfies \<open>p\<close> follows, and then something that does not.\<close>

lemma scan_while_append:
  assumes "list_all p run" and "rest = [] \<or> \<not> p (hd rest)"
  shows "scan_while p (pre @ run @ rest) (length pre) = length pre + length run"
  using assms
proof (induction run arbitrary: pre)
  case Nil
  then show ?case
    by (cases rest) (simp_all add: scan_while.simps nth_append)
next
  case (Cons x run)
  from Cons.prems Cons.IH [of "pre @ [x]"] show ?case
    by (subst scan_while.simps) (simp add: nth_append)
qed

corollary scan_while_stay:
  assumes "rest = [] \<or> \<not> p (hd rest)"
  shows "scan_while p (pre @ rest) (length pre) = length pre"
  using scan_while_append [of p "[]" rest pre] assms by simp

section \<open>Searching strings\<close>

text \<open>\<^verbatim>\<open>s.find(c, pos)\<close>, \<^verbatim>\<open>s.find(c)\<close> and \<^verbatim>\<open>s.rfind(c)\<close>; \<^verbatim>\<open>npos\<close> is \<open>None\<close>.\<close>

definition find_from :: "char \<Rightarrow> string \<Rightarrow> nat \<Rightarrow> nat option" where
  "find_from c s pos =
     (let i = scan_while (\<lambda>x. x \<noteq> c) s pos in if i < length s then Some i else None)"

abbreviation find_char :: "char \<Rightarrow> string \<Rightarrow> nat option" where
  "find_char c s \<equiv> find_from c s 0"

definition rfind_char :: "char \<Rightarrow> string \<Rightarrow> nat option" where
  "rfind_char c s =
     (case find_char c (rev s) of None \<Rightarrow> None | Some i \<Rightarrow> Some (length s - 1 - i))"

text \<open>\<^verbatim>\<open>hay.find(needle, pos)\<close> for a string needle: the first position at or after
  \<open>pos\<close> where the needle occurs.\<close>

function find_str :: "string \<Rightarrow> string \<Rightarrow> nat \<Rightarrow> nat option" where
  "find_str needle hay pos =
     (if length hay < pos + length needle then None
      else if take (length needle) (drop pos hay) = needle then Some pos
      else find_str needle hay (Suc pos))"
  by pat_completeness auto
termination
  by (relation "measure (\<lambda>(needle, hay, pos). Suc (length hay) - pos)") auto

declare find_str.simps [simp del]

lemma find_from_append:
  assumes "c \<notin> set run"
  shows "find_from c (pre @ run @ c # rest) (length pre) = Some (length pre + length run)"
proof -
  have "list_all (\<lambda>x. x \<noteq> c) run"
    using assms by (auto simp: list_all_iff)
  then have "scan_while (\<lambda>x. x \<noteq> c) (pre @ run @ c # rest) (length pre) = length pre + length run"
    by (rule scan_while_append) simp
  then show ?thesis by (simp add: find_from_def)
qed

lemma find_char_append: "c \<notin> set run \<Longrightarrow> find_char c (run @ c # rest) = Some (length run)"
  using find_from_append [of c run "[]" rest] by simp

lemma find_char_None [string_simps]: "find_char c s = None \<longleftrightarrow> c \<notin> set s"
proof
  assume "find_char c s = None"
  then have "length s \<le> scan_while (\<lambda>x. x \<noteq> c) s 0"
    by (auto simp: find_from_def Let_def split: if_splits)
  then have "i < length s \<Longrightarrow> s ! i \<noteq> c" for i
    using scan_while_skipped [of 0 i "\<lambda>x. x \<noteq> c" s] by simp
  then show "c \<notin> set s" by (auto simp: in_set_conv_nth)
next
  assume "c \<notin> set s"
  then show "find_char c s = None"
    using scan_while_stop [of "\<lambda>x. x \<noteq> c" s 0] nth_mem [of "scan_while (\<lambda>x. x \<noteq> c) s 0" s]
    by (auto simp: find_from_def Let_def)
qed

lemma find_char_Some:
  assumes "find_char c s = Some i"
  shows "i < length s" and "s ! i = c" and "c \<notin> set (take i s)"
proof -
  let ?i = "scan_while (\<lambda>x. x \<noteq> c) s 0"
  from assms have i: "i = ?i" "?i < length s"
    by (auto simp: find_from_def Let_def split: if_splits)
  then show "i < length s" by simp
  from i scan_while_stop [of "\<lambda>x. x \<noteq> c" s 0] show "s ! i = c" by simp
  show "c \<notin> set (take i s)"
    using scan_while_skipped [of 0 _ "\<lambda>x. x \<noteq> c" s] i by (auto simp: in_set_conv_nth)
qed

lemma find_char_split:
  assumes "find_char c s = Some i"
  shows "s = take i s @ c # drop (Suc i) s"
  using find_char_Some [OF assms] by (metis id_take_nth_drop)

lemma find_str_Some:
  "find_str needle hay pos = Some i \<Longrightarrow>
     pos \<le> i \<and> i + length needle \<le> length hay \<and> take (length needle) (drop i hay) = needle"
proof (induction needle hay pos rule: find_str.induct)
  case (1 needle hay pos)
  then show ?case
    by (auto simp: find_str.simps [of needle hay pos] split: if_splits)
qed

lemma find_str_least:
  "take (length needle) (drop j hay) = needle \<Longrightarrow> pos \<le> j \<Longrightarrow> j + length needle \<le> length hay \<Longrightarrow>
     \<exists>i. find_str needle hay pos = Some i \<and> i \<le> j"
proof (induction needle hay pos rule: find_str.induct)
  case (1 needle hay pos)
  show ?case
  proof (cases "take (length needle) (drop pos hay) = needle")
    case True
    with 1 show ?thesis by (simp add: find_str.simps [of needle hay pos])
  next
    case False
    with 1 have "Suc pos \<le> j" by (cases "pos = j") auto
    with 1 False show ?thesis by (simp add: find_str.simps [of needle hay pos])
  qed
qed

section \<open>Ordered maps\<close>

text \<open>
  \<^verbatim>\<open>std::map<std::string, T>\<close> iterates in the order of its keys, which is byte-wise
  lexicographic; lookups by iteration (the case-insensitive attribute search, the search of
  the in-memory tree) depend on that order.
\<close>

type_synonym 'v smap = "(string \<times> 'v) list"

fun smap_put :: "string \<Rightarrow> 'v \<Rightarrow> 'v smap \<Rightarrow> 'v smap" where
  "smap_put k v [] = [(k, v)]"
| "smap_put k v ((k', v') # m) =
     (if k < k' then (k, v) # (k', v') # m
      else if k = k' then (k, v) # m
      else (k', v') # smap_put k v m)"

fun smap_del :: "string \<Rightarrow> 'v smap \<Rightarrow> 'v smap" where
  "smap_del k [] = []"
| "smap_del k ((k', v') # m) = (if k = k' then m else (k', v') # smap_del k m)"

text \<open>\<^verbatim>\<open>m[k].push_back(x)\<close> for a map of vectors.\<close>

definition smap_push :: "string \<Rightarrow> 'a \<Rightarrow> 'a list smap \<Rightarrow> 'a list smap" where
  "smap_push k x m = smap_put k ((case map_of m k of None \<Rightarrow> [] | Some xs \<Rightarrow> xs) @ [x]) m"

definition smap_ok :: "'v smap \<Rightarrow> bool" where
  "smap_ok m \<longleftrightarrow> sorted_wrt (<) (map fst m)"

lemma smap_ok_Nil [smap_simps, simp]: "smap_ok []"
  by (simp add: smap_ok_def)

lemma smap_ok_Cons [smap_simps]: "smap_ok ((k, v) # m) \<longleftrightarrow> (\<forall>k' \<in> fst ` set m. k < k') \<and> smap_ok m"
  by (simp add: smap_ok_def)

lemma keys_smap_put [smap_simps]: "fst ` set (smap_put k v m) = insert k (fst ` set m)"
proof (induction m)
  case (Cons p m)
  then show ?case by (cases p) (simp add: insert_commute)
qed simp

lemma keys_smap_del: "fst ` set (smap_del k m) \<subseteq> fst ` set m"
proof (induction m)
  case (Cons p m)
  then show ?case by (cases p) (simp add: subset_insertI2 subset_insertI)
qed simp

lemma smap_ok_put [smap_simps, intro]: "smap_ok m \<Longrightarrow> smap_ok (smap_put k v m)"
proof (induction m)
  case (Cons p m)
  then show ?case
    by (cases p) (auto simp: smap_ok_Cons keys_smap_put dest: order.strict_trans)
qed (simp add: smap_ok_def)

lemma smap_ok_del [smap_simps, intro]: "smap_ok m \<Longrightarrow> smap_ok (smap_del k m)"
proof (induction m)
  case (Cons p m)
  then show ?case
    using keys_smap_del [of k m] by (cases p) (fastforce simp: smap_ok_Cons)
qed simp

lemma smap_ok_push [smap_simps, intro]: "smap_ok m \<Longrightarrow> smap_ok (smap_push k x m)"
  by (simp add: smap_push_def smap_ok_put)

lemma distinct_smap_keys: "smap_ok m \<Longrightarrow> distinct (map fst m)"
  by (simp add: smap_ok_def strict_sorted_iff)

lemma map_of_smap_put [smap_simps]: "map_of (smap_put k v m) = (map_of m)(k \<mapsto> v)"
  by (induction m) (auto simp: fun_eq_iff)

lemma map_of_smap_del [smap_simps]:
  "smap_ok m \<Longrightarrow> map_of (smap_del k m) = (map_of m)(k := None)"
proof (induction m)
  case (Cons p m)
  then have "map_of m (fst p) = None" 
    by (cases p) (auto simp: smap_ok_Cons map_of_eq_None_iff)
  with Cons show ?case
    by (cases p) (auto simp: smap_ok_Cons fun_eq_iff)
qed simp

lemma smap_del_filter: "smap_ok m \<Longrightarrow> smap_del k m = filter (\<lambda>p. fst p \<noteq> k) m"
proof (induction m)
  case (Cons p m)
  obtain k' v' where p: "p = (k', v')" by (cases p)
  from Cons.prems p have less: "\<forall>q \<in> set m. k' < fst q" and ok: "smap_ok m"
    by (auto simp: smap_ok_Cons)
  from less have "k = k' \<Longrightarrow> filter (\<lambda>q. fst q \<noteq> k) m = m"
    by (intro filter_True) auto
  with Cons.IH [OF ok] p show ?case by auto
qed simp

lemma set_smap_put: "smap_ok m \<Longrightarrow> set (smap_put k v m) = insert (k, v) {p \<in> set m. fst p \<noteq> k}"
proof (induction m)
  case (Cons p m)
  then show ?case by (cases p) (auto simp: smap_ok_Cons)
qed simp

lemma smap_put_new_mset:
  "k \<notin> fst ` set m \<Longrightarrow> \<exists>a b. m = a @ b \<and> smap_put k v m = a @ (k, v) # b"
proof (induction m)
  case (Cons p m)
  obtain k' v' where p: "p = (k', v')" by (cases p)
  show ?case
  proof (cases "k < k'")
    case True
    with p show ?thesis by (intro exI [of _ "[]"] exI [of _ "p # m"]) simp
  next
    case False
    from Cons p obtain a b where "m = a @ b" "smap_put k v m = a @ (k, v) # b" by auto
    with False p Cons.prems show ?thesis
      by (intro exI [of _ "p # a"] exI [of _ b]) auto
  qed
qed simp

end
