(* ===== verification/Dn.thy ===== *)
theory Dn
  imports LdapPrelude
begin

text \<open>
  Distinguished names and attribute names, \<^verbatim>\<open>src/simple-ldapd/utils/dn.cpp\<close>.  Names are
  compared after ASCII case folding; a DN is split at its first comma.  The lemmas show that
  the comparison is an equivalence, that the suffix test is the ancestor-or-self relation of
  the comma-separated hierarchy (a preorder), that a one-level child is an entry whose parent
  is the base, and that splitting and composing are inverse to each other.
\<close>

named_theorems dn_simps \<open>case-insensitive comparison of names\<close>

definition toLowerAscii :: "string \<Rightarrow> string" where
  "toLowerAscii value = map tolower value"

definition iequals :: "string \<Rightarrow> string \<Rightarrow> bool" where
  "iequals left right \<longleftrightarrow> toLowerAscii left = toLowerAscii right"

definition dnEquals :: "string \<Rightarrow> string \<Rightarrow> bool" where
  "dnEquals left right \<longleftrightarrow> iequals left right"

definition dnEndsWith :: "string \<Rightarrow> string \<Rightarrow> bool" where
  "dnEndsWith dn base =
     (if base = [] then True
      else let hay = toLowerAscii dn; needle = toLowerAscii base in
        if hay = needle then True
        else length hay > length needle \<and>
          take (length needle) (drop (length hay - length needle) hay) = needle \<and>
          hay ! (length hay - length needle - 1) = CHR '','')"

definition dnIsOneLevelChild :: "string \<Rightarrow> string \<Rightarrow> bool" where
  "dnIsOneLevelChild dn base =
     (if base = [] then find_char (CHR '','') dn = None \<and> dn \<noteq> []
      else if \<not> dnEndsWith dn base \<or> dnEquals dn base then False
      else let hay = toLowerAscii dn; needle = toLowerAscii base;
               rdn = take (length hay - length needle - 1) hay in
        find_char (CHR '','') rdn = None)"

definition dnParent :: "string \<Rightarrow> string" where
  "dnParent dn =
     (case find_char (CHR '','') dn of None \<Rightarrow> [] | Some comma \<Rightarrow> drop (Suc comma) dn)"

definition dnRdn :: "string \<Rightarrow> string" where
  "dnRdn dn =
     (case find_char (CHR '','') dn of None \<Rightarrow> dn | Some comma \<Rightarrow> take comma dn)"

definition composeDn :: "string \<Rightarrow> string \<Rightarrow> string" where
  "composeDn rdn parent =
     (if parent = [] then rdn
      else if rdn = [] then parent
      else rdn @ '','' @ parent)"

text \<open>\<^verbatim>\<open>parseRdn\<close> returns its two strings through reference parameters: \<open>None\<close> is the
  result \<^verbatim>\<open>false\<close>, after which no caller reads them.\<close>

definition parseRdn :: "string \<Rightarrow> (string \<times> string) option" where
  "parseRdn rdn =
     (case find_char (CHR ''='') rdn of
        None \<Rightarrow> None
      | Some eq \<Rightarrow>
          if eq = 0 \<or> eq + 1 \<ge> length rdn then None
          else let type = take eq rdn; value = drop (eq + 1) rdn in
            if type \<noteq> [] \<and> value \<noteq> [] then Some (type, value) else None)"

section \<open>Case-insensitive comparison\<close>

lemma toLowerAscii_Nil [dn_simps, simp]: "toLowerAscii [] = []"
  by (simp add: toLowerAscii_def)

lemma toLowerAscii_eq_Nil [dn_simps, simp]: "toLowerAscii s = [] \<longleftrightarrow> s = []"
  by (simp add: toLowerAscii_def)

lemma length_toLowerAscii [dn_simps, simp]: "length (toLowerAscii s) = length s"
  by (simp add: toLowerAscii_def)

lemma toLowerAscii_append [dn_simps]: "toLowerAscii (s @ t) = toLowerAscii s @ toLowerAscii t"
  by (simp add: toLowerAscii_def)

lemma toLowerAscii_idem [dn_simps, simp]: "toLowerAscii (toLowerAscii s) = toLowerAscii s"
  by (simp add: toLowerAscii_def)

lemma iequals_refl [dn_simps, simp]: "iequals s s"
  by (simp add: iequals_def)

lemma dnEquals_refl [dn_simps, simp]: "dnEquals s s"
  by (simp add: dnEquals_def)

lemma dnEquals_iff: "dnEquals a b \<longleftrightarrow> toLowerAscii a = toLowerAscii b"
  by (simp add: dnEquals_def iequals_def)

lemma dnEquals_sym: "dnEquals a b \<Longrightarrow> dnEquals b a"
  by (simp add: dnEquals_iff)

lemma dnEquals_trans: "dnEquals a b \<Longrightarrow> dnEquals b c \<Longrightarrow> dnEquals a c"
  by (simp add: dnEquals_iff)

lemma dnEquals_Nil [dn_simps, simp]: "dnEquals s [] \<longleftrightarrow> s = []" "dnEquals [] s \<longleftrightarrow> s = []"
  by (auto simp: dnEquals_iff eq_commute [of "[]"])

lemma iequals_equivp: "equivp iequals"
  by (rule equivpI) (auto intro!: reflpI sympI transpI simp: iequals_def)

lemma comma_toLowerAscii [dn_simps]: "CHR '','' \<in> set (toLowerAscii s) \<longleftrightarrow> CHR '','' \<in> set s"
proof -
  have "tolower c = CHR '','' \<longleftrightarrow> c = CHR '',''" for c
    by (rule tolower_eq_other) (simp_all add: isupper_def islower_def)
  then show ?thesis unfolding toLowerAscii_def set_map image_iff by metis
qed

lemma tolower_comma [simp]: "tolower (CHR '','') = CHR '',''"
  by (simp add: tolower_def isupper_def)

section \<open>The hierarchy\<close>

text \<open>The suffix test in closed form: the base itself, or something followed by a comma and
  the base.\<close>

lemma dnEndsWith_iff:
  "dnEndsWith dn base \<longleftrightarrow>
     base = [] \<or> dnEquals dn base \<or> (\<exists>r. toLowerAscii dn = r @ '','' @ toLowerAscii base)"
proof (cases "base = [] \<or> dnEquals dn base")
  case True
  then show ?thesis by (auto simp: dnEndsWith_def Let_def dnEquals_iff)
next
  case False
  let ?hay = "toLowerAscii dn" and ?needle = "toLowerAscii base"
  let ?n = "length ?hay - length ?needle"
  have "(length ?needle < length ?hay \<and> take (length ?needle) (drop ?n ?hay) = ?needle \<and>
          ?hay ! (?n - 1) = CHR '','') \<longleftrightarrow> (\<exists>r. ?hay = r @ '','' @ ?needle)" (is "?L \<longleftrightarrow> ?R")
  proof
    assume ?L
    then have "?hay = take (?n - 1) ?hay @ CHR '','' # drop ?n ?hay"
      using id_take_nth_drop [of "?n - 1" ?hay] False by (auto simp: Suc_diff_Suc)
    moreover from \<open>?L\<close> have "drop ?n ?hay = ?needle" by simp
    ultimately show ?R by auto
  next
    assume ?R
    then obtain r where "?hay = r @ '','' @ ?needle" by blast
    then show ?L by (simp add: nth_append)
  qed
  with False show ?thesis by (simp add: dnEndsWith_def Let_def dnEquals_iff)
qed

lemma dnEndsWith_refl: "dnEndsWith dn dn"
  by (simp add: dnEndsWith_iff)

lemma dnEndsWith_trans:
  assumes "dnEndsWith a b" and "dnEndsWith b c" and "b \<noteq> [] \<or> c = []"
  shows "dnEndsWith a c"
proof -
  consider "c = []" | "b \<noteq> []" "c \<noteq> []" using assms(3) by blast
  then show ?thesis
  proof cases
    case 2
    with assms(1,2) show ?thesis by (auto simp: dnEndsWith_iff dnEquals_iff)
  qed (simp add: dnEndsWith_iff)
qed

lemma dnParent_split: "CHR '','' \<in> set dn \<Longrightarrow> dn = dnRdn dn @ '','' @ dnParent dn"
  using find_char_None [of "CHR '',''" dn] find_char_split [of "CHR '',''" dn]
  by (cases "find_char (CHR '','') dn") (simp_all add: dnRdn_def dnParent_def)

lemma comma_notin_dnRdn: "CHR '','' \<notin> set (dnRdn dn)"
  using find_char_None [of "CHR '',''" dn] find_char_Some(3) [of "CHR '',''" dn]
  by (cases "find_char (CHR '','') dn") (simp_all add: dnRdn_def)

lemma dnParent_no_comma: "CHR '','' \<notin> set dn \<Longrightarrow> dnParent dn = [] \<and> dnRdn dn = dn"
  using find_char_None [of "CHR '',''" dn] by (simp add: dnParent_def dnRdn_def)

lemma dnParent_append: "CHR '','' \<notin> set r \<Longrightarrow> dnParent (r @ '','' @ p) = p"
  by (simp add: dnParent_def find_char_append)

lemma dnRdn_append: "CHR '','' \<notin> set r \<Longrightarrow> dnRdn (r @ '','' @ p) = r"
  by (simp add: dnRdn_def find_char_append)

lemma toLowerAscii_dnParent: "toLowerAscii (dnParent dn) = dnParent (toLowerAscii dn)"
proof (cases "CHR '','' \<in> set dn")
  case True
  then have "toLowerAscii dn = toLowerAscii (dnRdn dn) @ '','' @ toLowerAscii (dnParent dn)"
    by (subst dnParent_split) (simp_all add: toLowerAscii_def)
  then show ?thesis
    by (simp only: dnParent_append comma_toLowerAscii comma_notin_dnRdn not_False_eq_True)
qed (simp add: dnParent_no_comma comma_toLowerAscii)

text \<open>Two DNs that compare equal have parents that compare equal.\<close>

lemma dnEquals_dnParent: "dnEquals a b \<Longrightarrow> dnEquals (dnParent a) (dnParent b)"
  by (simp add: dnEquals_iff toLowerAscii_dnParent)

text \<open>A one-level child of a base is exactly an entry whose parent is that base.\<close>

lemma dnIsOneLevelChild_iff:
  "dnIsOneLevelChild dn base \<longleftrightarrow>
     (if base = [] then dn \<noteq> [] \<and> CHR '','' \<notin> set dn else dnEquals (dnParent dn) base)"
proof (cases "base = []")
  case True
  then show ?thesis by (auto simp: dnIsOneLevelChild_def find_char_None)
next
  case False
  let ?hay = "toLowerAscii dn" and ?needle = "toLowerAscii base"
  have ne: "?needle \<noteq> []" using False by simp
  have "dnIsOneLevelChild dn base \<longleftrightarrow> (\<exists>r. ?hay = r @ '','' @ ?needle \<and> CHR '','' \<notin> set r)"
  proof
    assume "dnIsOneLevelChild dn base"
    with False have "\<exists>r. ?hay = r @ '','' @ ?needle"
      and "CHR '','' \<notin> set (take (length ?hay - length ?needle - 1) ?hay)"
      unfolding dnIsOneLevelChild_def dnEndsWith_iff Let_def find_char_None [symmetric]
      by (auto split: if_splits)
    then obtain r where r: "?hay = r @ '','' @ ?needle"
      and "CHR '','' \<notin> set (take (length ?hay - length ?needle - 1) ?hay)" by blast
    moreover from r have "length ?hay - length ?needle - 1 = length r" by simp
    ultimately show "\<exists>r. ?hay = r @ '','' @ ?needle \<and> CHR '','' \<notin> set r" by auto
  next
    assume "\<exists>r. ?hay = r @ '','' @ ?needle \<and> CHR '','' \<notin> set r"
    then obtain r where r: "?hay = r @ '','' @ ?needle" "CHR '','' \<notin> set r" by blast
    then have "?hay \<noteq> ?needle" by auto
    moreover from r have "take (length ?hay - length ?needle - 1) ?hay = r" by simp
    ultimately show "dnIsOneLevelChild dn base"
      using r False find_char_None [of "CHR '',''" r]
      by (simp add: dnIsOneLevelChild_def dnEndsWith_iff dnEquals_iff Let_def)
  qed
  also have "\<dots> \<longleftrightarrow> dnParent ?hay = ?needle"
    using ne comma_notin_dnRdn [of ?hay] dnParent_split [of ?hay] dnParent_no_comma [of ?hay]
    by (metis dnParent_append)
  finally show ?thesis
    using False by (simp add: dnEquals_iff toLowerAscii_dnParent)
qed

lemma dnEquals_dnIsOneLevelChild:
  assumes "dnEquals a a'" and "dnEquals b b'"
  shows "dnIsOneLevelChild a b = dnIsOneLevelChild a' b'"
proof -
  from assms have "b = [] \<longleftrightarrow> b' = []" "a = [] \<longleftrightarrow> a' = []"
    by (metis dnEquals_iff toLowerAscii_eq_Nil)+
  moreover from assms have "CHR '','' \<in> set a \<longleftrightarrow> CHR '','' \<in> set a'"
    by (metis dnEquals_iff comma_toLowerAscii)
  moreover from assms have "dnEquals (dnParent a) b \<longleftrightarrow> dnEquals (dnParent a') b'"
    using dnEquals_dnParent [OF assms(1)] by (simp add: dnEquals_iff)
  ultimately show ?thesis by (simp add: dnIsOneLevelChild_iff)
qed

section \<open>Splitting and composing\<close>

lemma composeDn_split:
  "dnRdn dn \<noteq> [] \<Longrightarrow> dnParent dn \<noteq> [] \<or> CHR '','' \<notin> set dn \<Longrightarrow>
     composeDn (dnRdn dn) (dnParent dn) = dn"
  by (cases "CHR '','' \<in> set dn")
     (simp_all add: composeDn_def dnParent_no_comma dnParent_split [symmetric, simplified])

lemma split_composeDn:
  assumes "CHR '','' \<notin> set rdn" and "rdn \<noteq> []"
  shows "dnRdn (composeDn rdn parent) = rdn" and "dnParent (composeDn rdn parent) = parent"
  using assms dnRdn_append [of rdn parent] dnParent_append [of rdn parent] dnParent_no_comma [of rdn]
  by (auto simp: composeDn_def)

lemma parseRdn_Some:
  "parseRdn rdn = Some (t, v) \<longleftrightarrow> rdn = t @ ''='' @ v \<and> t \<noteq> [] \<and> v \<noteq> [] \<and> CHR ''='' \<notin> set t"
proof
  assume "parseRdn rdn = Some (t, v)"
  then obtain e where e: "find_char (CHR ''='') rdn = Some e"
    and tv: "t = take e rdn" "v = drop (Suc e) rdn" "t \<noteq> []" "v \<noteq> []"
    by (auto simp: parseRdn_def Let_def split: option.splits if_splits)
  have "rdn = t @ ''='' @ v" using find_char_split [OF e] tv(1,2) by simp
  with find_char_Some(3) [OF e] tv
  show "rdn = t @ ''='' @ v \<and> t \<noteq> [] \<and> v \<noteq> [] \<and> CHR ''='' \<notin> set t" by blast
next
  assume a: "rdn = t @ ''='' @ v \<and> t \<noteq> [] \<and> v \<noteq> [] \<and> CHR ''='' \<notin> set t"
  then have "find_char (CHR ''='') rdn = Some (length t)"
    by (simp add: find_char_append)
  with a show "parseRdn rdn = Some (t, v)" by (simp add: parseRdn_def)
qed

section \<open>Maps whose keys are compared without case\<close>

text \<open>
  The attributes of an entry and the entries of the in-memory directory are ordered maps whose
  keys are always compared with \<^const>\<open>iequals\<close>.  As long as no two keys agree up to case,
  such a map represents a partial function on folded names.
\<close>

named_theorems ci_simps \<open>case-insensitive view of ordered maps\<close>

definition ci_ok :: "'v smap \<Rightarrow> bool" where
  "ci_ok m \<longleftrightarrow> smap_ok m \<and> distinct (map (toLowerAscii \<circ> fst) m)"

definition ci_map :: "'v smap \<Rightarrow> string \<rightharpoonup> 'v" where
  "ci_map m = map_of (map (\<lambda>(k, v). (toLowerAscii k, v)) m)"

text \<open>A key under which a value may be stored: either it is in the map, or no key of the map
  equals it up to case.\<close>

definition ci_key :: "string \<Rightarrow> 'v smap \<Rightarrow> bool" where
  "ci_key k m \<longleftrightarrow> (\<forall>k' \<in> fst ` set m. iequals k' k \<longrightarrow> k' = k)"

lemma ci_ok_Nil [simp]: "ci_ok []"
  by (simp add: ci_ok_def)

lemma ci_ok_Cons:
  "ci_ok ((k, v) # m) \<longleftrightarrow>
     (\<forall>k' \<in> fst ` set m. k < k' \<and> toLowerAscii k' \<noteq> toLowerAscii k) \<and> ci_ok m"
  by (auto simp: ci_ok_def smap_ok_Cons image_iff)

lemma ci_key_found: "find (\<lambda>p. iequals (fst p) k) m = Some (k', v) \<Longrightarrow> (k', v) \<in> set m \<and> iequals k' k"
  by (induction m) (auto split: if_splits)

lemma ci_key_in: "ci_ok m \<Longrightarrow> (k, v) \<in> set m \<Longrightarrow> ci_key k m"
proof (induction m)
  case (Cons p m)
  then show ?case by (cases p) (force simp: ci_ok_Cons ci_key_def iequals_def)
qed simp

lemma ci_key_new: "find (\<lambda>p. iequals (fst p) k) m = None \<Longrightarrow> ci_key k m"
  by (auto simp: find_None_iff ci_key_def)

lemma ci_find [ci_simps]:
  "map_option snd (find (\<lambda>p. iequals (fst p) k) m) = ci_map m (toLowerAscii k)"
  by (induction m) (auto simp: ci_map_def iequals_def)

lemma ci_find_None: "find (\<lambda>p. iequals (fst p) k) m = None \<longleftrightarrow> ci_map m (toLowerAscii k) = None"
  using ci_find [of k m] by (metis option.map_disc_iff)

lemma ci_find_Some:
  "find (\<lambda>p. iequals (fst p) k) m = Some (k', v) \<Longrightarrow> ci_map m (toLowerAscii k) = Some v"
  using ci_find [of k m] by simp

lemma ci_map_put [ci_simps]:
  "ci_key k m \<Longrightarrow> ci_map (smap_put k v m) = (ci_map m)(toLowerAscii k \<mapsto> v)"
proof (induction m)
  case (Cons p m)
  then show ?case
    by (cases p) (auto simp: ci_map_def ci_key_def iequals_def fun_upd_twist)
qed (simp add: ci_map_def)

lemma ci_ok_put:
  assumes "ci_ok m" and "ci_key k m"
  shows "ci_ok (smap_put k v m)"
  using assms
proof (induction m)
  case (Cons p m)
  obtain k' v' where p: "p = (k', v')" by (cases p)
  from Cons.prems p have "ci_ok (smap_put k v m)"
    by (intro Cons.IH) (auto simp: ci_ok_Cons ci_key_def)
  with Cons.prems p show ?case
    by (auto simp: ci_ok_Cons ci_key_def iequals_def keys_smap_put dest: order.strict_trans)
qed (simp add: ci_ok_def smap_ok_Cons)

lemma ci_ok_filter: "ci_ok m \<Longrightarrow> ci_ok (filter P m)"
  by (induction m) (auto simp: ci_ok_Cons)

lemma ci_ok_del: "ci_ok m \<Longrightarrow> ci_ok (smap_del k m)"
  by (simp add: smap_del_filter ci_ok_filter ci_ok_def [of m])

lemma ci_map_del [ci_simps]:
  "ci_ok m \<Longrightarrow> ci_key k m \<Longrightarrow> ci_map (smap_del k m) = (ci_map m)(toLowerAscii k := None)"
proof (induction m)
  case (Cons p m)
  obtain k' v' where p: "p = (k', v')" by (cases p)
  from Cons.prems p have "ci_map m (toLowerAscii k') = None"
    by (auto simp: ci_ok_Cons ci_map_def map_of_eq_None_iff)
  moreover from Cons.prems p
  have "ci_map (smap_del k m) = (ci_map m)(toLowerAscii k := None)"
    by (intro Cons.IH) (auto simp: ci_ok_Cons ci_key_def)
  ultimately show ?case
    using p Cons.prems by (auto simp: ci_map_def ci_key_def iequals_def fun_upd_idem fun_upd_twist)
qed (simp add: ci_map_def)

lemma ci_map_in: "ci_ok m \<Longrightarrow> (k, v) \<in> set m \<Longrightarrow> ci_map m (toLowerAscii k) = Some v"
proof (induction m)
  case (Cons p m)
  then show ?case by (cases p) (auto simp: ci_ok_Cons ci_map_def)
qed simp

lemma ci_map_set: "ci_map m n = Some v \<Longrightarrow> \<exists>k. (k, v) \<in> set m \<and> toLowerAscii k = n"
  by (induction m) (auto simp: ci_map_def split: if_splits)

end
