(* ===== verification/Entry.thy ===== *)
theory Entry
  imports Dn "HOL-Library.Multiset"
begin

text \<open>
  The data of the directory, \<^verbatim>\<open>include/simple-ldapd/protocol/result_codes.hpp\<close> and
  \<^verbatim>\<open>include/simple-ldapd/backend/backend.hpp\<close>, and the attribute modifications of
  \<^verbatim>\<open>src/simple-ldapd/backend/modify.cpp\<close>.  An enumeration is a datatype with the source's
  enumerators and one constructor for the remaining values of the underlying type, which a
  \<^verbatim>\<open>static_cast\<close> of a number received from the network can produce.  The lemmas show that an
  entry never gets two spellings of one attribute, and that the modifications refine a map from
  folded attribute names to values.
\<close>

section \<open>Result codes\<close>

datatype ResultCode =
    Success | OperationsError | ProtocolError | TimeLimitExceeded | SizeLimitExceeded
  | CompareFalse | CompareTrue | AuthMethodNotSupported | StrongerAuthRequired | Referral
  | AdminLimitExceeded | UnavailableCriticalExtension | ConfidentialityRequired
  | SaslBindInProgress | NoSuchAttribute | UndefinedAttributeType | InappropriateMatching
  | ConstraintViolation | AttributeOrValueExists | InvalidAttributeSyntax | NoSuchObject
  | AliasProblem | InvalidDnSyntax | AliasDereferencingProblem | InappropriateAuthentication
  | InvalidCredentials | InsufficientAccessRights | Busy | Unavailable | UnwillingToPerform
  | LoopDetect | NamingViolation | ObjectClassViolation | NotAllowedOnNonLeaf | NotAllowedOnRdn
  | EntryAlreadyExists | ObjectClassModsProhibited | AffectsMultipleDsas | Other
  | UnnamedCode byte

text \<open>The table of the enumerators and their values.\<close>

definition resultCodes :: "(ResultCode \<times> byte) list" where
  "resultCodes =
    [(Success, 0), (OperationsError, 1), (ProtocolError, 2), (TimeLimitExceeded, 3),
     (SizeLimitExceeded, 4), (CompareFalse, 5), (CompareTrue, 6), (AuthMethodNotSupported, 7),
     (StrongerAuthRequired, 8), (Referral, 10), (AdminLimitExceeded, 11),
     (UnavailableCriticalExtension, 12), (ConfidentialityRequired, 13), (SaslBindInProgress, 14),
     (NoSuchAttribute, 16), (UndefinedAttributeType, 17), (InappropriateMatching, 18),
     (ConstraintViolation, 19), (AttributeOrValueExists, 20), (InvalidAttributeSyntax, 21),
     (NoSuchObject, 32), (AliasProblem, 33), (InvalidDnSyntax, 34),
     (AliasDereferencingProblem, 36), (InappropriateAuthentication, 48),
     (InvalidCredentials, 49), (InsufficientAccessRights, 50), (Busy, 51), (Unavailable, 52),
     (UnwillingToPerform, 53), (LoopDetect, 54), (NamingViolation, 64),
     (ObjectClassViolation, 65), (NotAllowedOnNonLeaf, 66), (NotAllowedOnRdn, 67),
     (EntryAlreadyExists, 68), (ObjectClassModsProhibited, 69), (AffectsMultipleDsas, 71),
     (Other, 80)]"

text \<open>\<^verbatim>\<open>static_cast<int>(result)\<close> and \<^verbatim>\<open>static_cast<ResultCode>(code)\<close>; the underlying type is
  \<^verbatim>\<open>uint8_t\<close>.\<close>

definition resultCodeByte :: "ResultCode \<Rightarrow> byte" where
  "resultCodeByte c =
     (case c of UnnamedCode b \<Rightarrow> b | _ \<Rightarrow> (case map_of resultCodes c of Some b \<Rightarrow> b | None \<Rightarrow> 0))"

definition resultCodeOf :: "int32 \<Rightarrow> ResultCode" where
  "resultCodeOf n =
     (case find (\<lambda>p. snd p = ucast n) resultCodes of Some p \<Rightarrow> fst p | None \<Rightarrow> UnnamedCode (ucast n))"

text \<open>A value of the enumeration: an unnamed value is none of the named ones.\<close>

definition resultCode_ok :: "ResultCode \<Rightarrow> bool" where
  "resultCode_ok c =
     (case c of UnnamedCode b \<Rightarrow> b \<notin> snd ` set resultCodes | _ \<Rightarrow> True)"

definition toString :: "ResultCode \<Rightarrow> string" where
  "toString code = (case code of
     Success \<Rightarrow> ''success''
   | OperationsError \<Rightarrow> ''operationsError''
   | ProtocolError \<Rightarrow> ''protocolError''
   | TimeLimitExceeded \<Rightarrow> ''timeLimitExceeded''
   | SizeLimitExceeded \<Rightarrow> ''sizeLimitExceeded''
   | CompareFalse \<Rightarrow> ''compareFalse''
   | CompareTrue \<Rightarrow> ''compareTrue''
   | UnavailableCriticalExtension \<Rightarrow> ''unavailableCriticalExtension''
   | Busy \<Rightarrow> ''busy''
   | Unavailable \<Rightarrow> ''unavailable''
   | UnwillingToPerform \<Rightarrow> ''unwillingToPerform''
   | InvalidCredentials \<Rightarrow> ''invalidCredentials''
   | NoSuchObject \<Rightarrow> ''noSuchObject''
   | AuthMethodNotSupported \<Rightarrow> ''authMethodNotSupported''
   | SaslBindInProgress \<Rightarrow> ''saslBindInProgress''
   | NoSuchAttribute \<Rightarrow> ''noSuchAttribute''
   | InvalidDnSyntax \<Rightarrow> ''invalidDNSyntax''
   | InsufficientAccessRights \<Rightarrow> ''insufficientAccessRights''
   | EntryAlreadyExists \<Rightarrow> ''entryAlreadyExists''
   | NamingViolation \<Rightarrow> ''namingViolation''
   | NotAllowedOnNonLeaf \<Rightarrow> ''notAllowedOnNonLeaf''
   | AttributeOrValueExists \<Rightarrow> ''attributeOrValueExists''
   | ConfidentialityRequired \<Rightarrow> ''confidentialityRequired''
   | UndefinedAttributeType \<Rightarrow> ''undefinedAttributeType''
   | ConstraintViolation \<Rightarrow> ''constraintViolation''
   | InvalidAttributeSyntax \<Rightarrow> ''invalidAttributeSyntax''
   | ObjectClassViolation \<Rightarrow> ''objectClassViolation''
   | _ \<Rightarrow> ''other'')"

lemma resultCodeOf_byte: "resultCode_ok c \<Longrightarrow> resultCodeOf (ucast (resultCodeByte c)) = c"
proof (cases c)
  case (UnnamedCode b)
  moreover assume "resultCode_ok c"
  ultimately have "b \<notin> snd ` set resultCodes" by (simp add: resultCode_ok_def)
  then have "find (\<lambda>p. snd p = b) resultCodes = None" by (force simp: find_None_iff)
  with UnnamedCode show ?thesis by (simp add: resultCodeOf_def resultCodeByte_def)
qed (simp_all add: resultCodeOf_def resultCodeByte_def resultCodes_def)

section \<open>Entries\<close>

record DirectoryEntry =
  de_dn :: string
  de_attributes :: "string list smap"

datatype SearchScope = Base | OneLevel | Subtree | UnnamedScope int32

datatype ModifyOp = Add | Delete | Replace | UnnamedOp int32

record AttributeModification =
  am_op :: ModifyOp
  am_type :: string
  am_values :: "string list"

definition scopeInt :: "SearchScope \<Rightarrow> int32" where
  "scopeInt s = (case s of Base \<Rightarrow> 0 | OneLevel \<Rightarrow> 1 | Subtree \<Rightarrow> 2 | UnnamedScope n \<Rightarrow> n)"

definition scopeOf :: "int32 \<Rightarrow> SearchScope" where
  "scopeOf n = (if n = 0 then Base else if n = 1 then OneLevel else if n = 2 then Subtree
                else UnnamedScope n)"

definition modifyOpInt :: "ModifyOp \<Rightarrow> int32" where
  "modifyOpInt m = (case m of Add \<Rightarrow> 0 | Delete \<Rightarrow> 1 | Replace \<Rightarrow> 2 | UnnamedOp n \<Rightarrow> n)"

definition modifyOpOf :: "int32 \<Rightarrow> ModifyOp" where
  "modifyOpOf n = (if n = 0 then Add else if n = 1 then Delete else if n = 2 then Replace
                   else UnnamedOp n)"

section \<open>Attribute modifications\<close>

text \<open>The first pair, in key order, whose name equals \<open>name\<close> up to case; the iterator is
  represented by the pair it points at.\<close>

definition findAttribute :: "string list smap \<Rightarrow> string \<Rightarrow> (string \<times> string list) option" where
  "findAttribute attrs name = find (\<lambda>pair. iequals (fst pair) name) attrs"

definition hasValue :: "string list \<Rightarrow> string \<Rightarrow> bool" where
  "hasValue values wanted \<longleftrightarrow> (\<exists>value \<in> set values. iequals value wanted)"

text \<open>The value loops of the \<^verbatim>\<open>Add\<close> and \<^verbatim>\<open>Delete\<close> cases: the flag tells whether the loop ran
  to its end, the list is the value vector when it stopped.\<close>

fun addValues :: "string list \<Rightarrow> string list \<Rightarrow> bool \<times> string list" where
  "addValues [] values = (True, values)"
| "addValues (v # vs) values =
     (if hasValue values v then (False, values) else addValues vs (values @ [v]))"

fun eraseValue :: "string \<Rightarrow> string list \<Rightarrow> string list" where
  "eraseValue v [] = []"
| "eraseValue v (x # xs) = (if iequals x v then xs else x # eraseValue v xs)"

fun deleteValues :: "string list \<Rightarrow> string list \<Rightarrow> bool \<times> string list" where
  "deleteValues [] values = (True, values)"
| "deleteValues (v # vs) values =
     (if hasValue values v then deleteValues vs (eraseValue v values) else (False, values))"

text \<open>One round of the loop over the changes; \<^const>\<open>Success\<close> continues it.\<close>

definition applyChange ::
    "AttributeModification \<Rightarrow> string list smap \<Rightarrow> ResultCode \<times> string list smap" where
  "applyChange change attrs =
     (if am_type change = [] then (InvalidAttributeSyntax, attrs)
      else let it = findAttribute attrs (am_type change) in
        case am_op change of
          Add \<Rightarrow>
            (case it of
               None \<Rightarrow> (Success, smap_put (am_type change) (am_values change) attrs)
             | Some (k, values) \<Rightarrow>
                 let (ok, values') = addValues (am_values change) values
                 in (if ok then Success else AttributeOrValueExists, smap_put k values' attrs))
        | Delete \<Rightarrow>
            (case it of
               None \<Rightarrow> (NoSuchAttribute, attrs)
             | Some (k, values) \<Rightarrow>
                 if am_values change = [] then (Success, smap_del k attrs)
                 else let (ok, values') = deleteValues (am_values change) values
                   in if \<not> ok then (NoSuchAttribute, smap_put k values' attrs)
                      else if values' = [] then (Success, smap_del k attrs)
                      else (Success, smap_put k values' attrs))
        | Replace \<Rightarrow>
            (if am_values change = [] then
               (case it of None \<Rightarrow> (Success, attrs) | Some (k, _) \<Rightarrow> (Success, smap_del k attrs))
             else
               (case it of
                  None \<Rightarrow> (Success, smap_put (am_type change) (am_values change) attrs)
                | Some (k, _) \<Rightarrow> (Success, smap_put k (am_values change) attrs)))
        | UnnamedOp _ \<Rightarrow> (Success, attrs))"

fun applyChanges ::
    "AttributeModification list \<Rightarrow> string list smap \<Rightarrow> ResultCode \<times> string list smap" where
  "applyChanges [] attrs = (Success, attrs)"
| "applyChanges (change # changes) attrs =
     (let (code, attrs') = applyChange change attrs
      in if code = Success then applyChanges changes attrs' else (code, attrs'))"

definition applyModifications ::
    "DirectoryEntry \<Rightarrow> AttributeModification list \<Rightarrow> ResultCode \<times> DirectoryEntry" where
  "applyModifications entry changes =
     (let (code, attrs) = applyChanges changes (de_attributes entry)
      in (code, entry\<lparr>de_attributes := attrs\<rparr>))"

section \<open>The modifications as operations on a map\<close>

lemma hasValue_iff: "hasValue xs v \<longleftrightarrow> toLowerAscii v \<in> toLowerAscii ` set xs"
  by (auto simp: hasValue_def iequals_def image_iff) metis+

lemma addValues_ok:
  "fst (addValues vs xs) \<longleftrightarrow>
     distinct (map toLowerAscii vs) \<and> toLowerAscii ` set vs \<inter> toLowerAscii ` set xs = {}"
  by (induction vs arbitrary: xs) (auto simp: hasValue_iff)

lemma addValues_values: "fst (addValues vs xs) \<Longrightarrow> snd (addValues vs xs) = xs @ vs"
  by (induction vs arbitrary: xs) (auto split: if_splits)

lemma mset_eraseValue:
  "hasValue xs v \<Longrightarrow>
     mset (map toLowerAscii (eraseValue v xs)) = mset (map toLowerAscii xs) - {#toLowerAscii v#}"
  by (induction xs) (auto simp: hasValue_def iequals_def)

lemma deleteValues_ok:
  "fst (deleteValues vs xs) \<longleftrightarrow>
     mset (map toLowerAscii vs) \<subseteq># mset (map toLowerAscii xs)"
proof (induction vs arbitrary: xs)
  case (Cons v vs)
  have "toLowerAscii v \<in># mset (map toLowerAscii xs) \<longleftrightarrow> hasValue xs v"
    by (simp add: hasValue_iff)
  then show ?case
    using Cons.IH [of "eraseValue v xs"] mset_eraseValue [of xs v]
    by (simp add: insert_subset_eq_iff)
qed simp

lemma deleteValues_values:
  "fst (deleteValues vs xs) \<Longrightarrow> snd (deleteValues vs xs) = fold eraseValue vs xs"
  by (induction vs arbitrary: xs) (auto split: if_splits)

text \<open>The specification: a partial map from folded names to value lists; a change is an error
  or a new map.\<close>

definition modifySpec ::
    "AttributeModification \<Rightarrow> (string \<rightharpoonup> string list) \<Rightarrow> ResultCode + (string \<rightharpoonup> string list)" where
  "modifySpec change m =
     (let n = toLowerAscii (am_type change); vs = am_values change in
      if am_type change = [] then Inl InvalidAttributeSyntax
      else case am_op change of
        Add \<Rightarrow>
          (case m n of
             None \<Rightarrow> Inr (m(n \<mapsto> vs))
           | Some old \<Rightarrow>
               if distinct (map toLowerAscii vs) \<and>
                  toLowerAscii ` set vs \<inter> toLowerAscii ` set old = {}
               then Inr (m(n \<mapsto> old @ vs)) else Inl AttributeOrValueExists)
      | Delete \<Rightarrow>
          (case m n of
             None \<Rightarrow> Inl NoSuchAttribute
           | Some old \<Rightarrow>
               if vs = [] then Inr (m(n := None))
               else if mset (map toLowerAscii vs) \<subseteq># mset (map toLowerAscii old)
               then Inr (m(n := if fold eraseValue vs old = [] then None
                                else Some (fold eraseValue vs old)))
               else Inl NoSuchAttribute)
      | Replace \<Rightarrow> Inr (m(n := if vs = [] then None else Some vs))
      | UnnamedOp _ \<Rightarrow> Inr m)"

fun modifySpecs ::
    "AttributeModification list \<Rightarrow> (string \<rightharpoonup> string list) \<Rightarrow> ResultCode + (string \<rightharpoonup> string list)"
  where
  "modifySpecs [] m = Inr m"
| "modifySpecs (c # cs) m = (case modifySpec c m of Inl e \<Rightarrow> Inl e | Inr m' \<Rightarrow> modifySpecs cs m')"

text \<open>What a result of the code says of a result of the specification.\<close>

definition implements ::
    "ResultCode \<times> string list smap \<Rightarrow> ResultCode + (string \<rightharpoonup> string list) \<Rightarrow> bool" where
  "implements res spec \<longleftrightarrow> ci_ok (snd res) \<and>
     (case spec of Inl e \<Rightarrow> fst res = e \<and> e \<noteq> Success
      | Inr m \<Rightarrow> fst res = Success \<and> ci_map (snd res) = m)"

lemma implementsI:
  "ci_ok attrs \<Longrightarrow> code \<noteq> Success \<Longrightarrow> implements (code, attrs) (Inl code)"
  "ci_ok attrs \<Longrightarrow> implements (Success, attrs) (Inr (ci_map attrs))"
  by (simp_all add: implements_def)

lemma implements_found:
  assumes "ci_ok attrs" and "findAttribute attrs n = Some (k, old)"
  shows "implements (Success, smap_put k vs attrs) (Inr ((ci_map attrs)(toLowerAscii n \<mapsto> vs)))"
    and "implements (Success, smap_del k attrs) (Inr ((ci_map attrs)(toLowerAscii n := None)))"
    and "code \<noteq> Success \<Longrightarrow> implements (code, smap_put k vs attrs) (Inl code)"
    and "ci_map attrs (toLowerAscii n) = Some old"
proof -
  from assms(2) have k: "(k, old) \<in> set attrs" "toLowerAscii k = toLowerAscii n"
    using ci_key_found [of n attrs k old] by (simp_all add: findAttribute_def iequals_def)
  with assms(1) have "ci_key k attrs" by (auto intro: ci_key_in)
  with assms(1) k show
    "implements (Success, smap_put k vs attrs) (Inr ((ci_map attrs)(toLowerAscii n \<mapsto> vs)))"
    "implements (Success, smap_del k attrs) (Inr ((ci_map attrs)(toLowerAscii n := None)))"
    "code \<noteq> Success \<Longrightarrow> implements (code, smap_put k vs attrs) (Inl code)"
    by (simp_all add: implements_def ci_simps ci_ok_put ci_ok_del)
  show "ci_map attrs (toLowerAscii n) = Some old"
    using ci_find_Some assms(2) by (simp add: findAttribute_def)
qed

lemma implements_new:
  assumes "ci_ok attrs" and "findAttribute attrs n = None"
  shows "implements (Success, smap_put n vs attrs) (Inr ((ci_map attrs)(toLowerAscii n \<mapsto> vs)))"
    and "ci_map attrs (toLowerAscii n) = None"
proof -
  from assms(2) have "ci_key n attrs" unfolding findAttribute_def by (rule ci_key_new)
  with assms(1) show "implements (Success, smap_put n vs attrs)
      (Inr ((ci_map attrs)(toLowerAscii n \<mapsto> vs)))"
    by (simp add: implements_def ci_simps ci_ok_put)
  show "ci_map attrs (toLowerAscii n) = None"
    using assms(2) by (simp add: findAttribute_def ci_find_None)
qed

lemma applyChange_implements:
  assumes ok: "ci_ok attrs"
  shows "implements (applyChange change attrs) (modifySpec change (ci_map attrs))"
proof (cases "am_type change = []")
  case True
  with ok show ?thesis by (simp add: applyChange_def modifySpec_def implements_def)
next
  case False
  let ?n = "am_type change"
  show ?thesis
  proof (cases "findAttribute attrs ?n")
    case None
    with False ok implements_new [OF ok None] show ?thesis
      by (auto simp: applyChange_def modifySpec_def Let_def implements_def split: ModifyOp.splits)
  next
    case (Some p)
    obtain k old where p: "p = (k, old)" by (cases p)
    note found = implements_found [OF ok Some [unfolded p]]
    note vs = addValues_ok [of "am_values change" old] addValues_values [of "am_values change" old]
      deleteValues_ok [of "am_values change" old] deleteValues_values [of "am_values change" old]
    show ?thesis
    proof (cases "am_op change")
      case Add
      with False ok Some p found vs(1,2) show ?thesis
        by (simp add: applyChange_def modifySpec_def Let_def split_beta)
    next
      case Delete
      with False ok Some p found vs(3,4) show ?thesis
        by (simp add: applyChange_def modifySpec_def Let_def split_beta)
    next
      case Replace
      with False ok Some p found show ?thesis
        by (simp add: applyChange_def modifySpec_def Let_def)
    next
      case (UnnamedOp n)
      with False ok show ?thesis
        by (simp add: applyChange_def modifySpec_def Let_def implementsI)
    qed
  qed
qed

lemma applyChanges_implements:
  "ci_ok attrs \<Longrightarrow> implements (applyChanges changes attrs) (modifySpecs changes (ci_map attrs))"
proof (induction changes arbitrary: attrs)
  case (Cons c cs)
  obtain code attrs' where a: "applyChange c attrs = (code, attrs')" by (cases "applyChange c attrs")
  from applyChange_implements [OF Cons.prems, of c] a Cons.IH [of attrs']
  show ?case by (auto simp: implements_def split: sum.splits)
qed (simp add: implements_def)

text \<open>
  The refinement, for any entry without two spellings of one attribute name: the result code is
  that of the specification, after \<^const>\<open>Success\<close> the attributes are those it gives, the name
  is kept, and no second spelling appears even when the changes stop half way.
\<close>

lemma applyModifications_refines:
  assumes "ci_ok (de_attributes entry)"
  shows "implements (map_prod id de_attributes (applyModifications entry changes))
           (modifySpecs changes (ci_map (de_attributes entry)))"
    and "de_dn (snd (applyModifications entry changes)) = de_dn entry"
  using applyChanges_implements [OF assms, of changes]
  by (simp_all add: applyModifications_def split_beta)

section \<open>Properties\<close>

text \<open>C21: The attribute modifications refine the map specification.  For an entry that does not
  hold two spellings of one attribute name, the code answers the error of the first change
  the specification refuses, or succeeds with exactly the attributes the specification computes
  (read through folded names).\<close>

theorem applyModifications_spec:
  assumes "ci_ok (de_attributes entry)"
  shows "case modifySpecs changes (ci_map (de_attributes entry)) of
      Inl e \<Rightarrow> fst (applyModifications entry changes) = e \<and> e \<noteq> Success
    | Inr m \<Rightarrow> fst (applyModifications entry changes) = Success \<and>
        ci_map (de_attributes (snd (applyModifications entry changes))) = m"
  using applyModifications_refines(1) [OF assms, of changes]
  by (auto simp: implements_def map_prod_def split_beta split: sum.splits)

theorem applyModifications_spec_witness:
  "fst (applyModifications \<lparr>de_dn = ''cn=a'', de_attributes = [(''CN'', [''a'']), (''mail'', [''x''])]\<rparr>
      [\<lparr>am_op = Add, am_type = ''MAIL'', am_values = [''y'']\<rparr>]) = Success"
proof -
  let ?e = "\<lparr>de_dn = ''cn=a'', de_attributes = [(''CN'', [''a'']), (''mail'', [''x''])]\<rparr>"
  let ?c = "[\<lparr>am_op = Add, am_type = ''MAIL'', am_values = [''y'']\<rparr>]"
  have ok: "ci_ok (de_attributes ?e)" by code_simp
  have "isl (modifySpecs ?c (ci_map (de_attributes ?e))) = False" by code_simp
  then have "\<exists>m. modifySpecs ?c (ci_map (de_attributes ?e)) = Inr m"
    by (cases "modifySpecs ?c (ci_map (de_attributes ?e))") simp_all
  with applyModifications_spec [OF ok, of ?c] show ?thesis by auto
qed

text \<open>Modifications keep an entry well formed, whether they succeed or stop at an error: no
  two attribute names that are equal up to case, attributes in key order, and the name of the
  entry untouched.\<close>

lemma applyModifications_invariant:
  assumes "ci_ok (de_attributes entry)"
  shows "ci_ok (de_attributes (snd (applyModifications entry changes))) \<and>
    de_dn (snd (applyModifications entry changes)) = de_dn entry"
  using applyModifications_refines [OF assms, of changes]
  by (simp add: implements_def)

text \<open>A modification whose operation number is none of add, delete and replace (3, the
  increment of RFC 4525, for instance) is skipped and the whole request still reports
  success.\<close>

lemma applyModifications_unnamed_op:
  assumes "t \<noteq> []"
  shows "applyModifications entry (\<lparr>am_op = UnnamedOp n, am_type = t, am_values = vs\<rparr> # changes) =
    applyModifications entry changes"
  using assms by (simp add: applyModifications_def applyChange_def)

end
