(* ===== verification/Ber.thy ===== *)
theory Ber
  imports LdapPrelude
begin

text \<open>
  The BER reader and writer, \<^verbatim>\<open>src/simple-ldapd/protocol/ber.cpp\<close>.  A writer is the byte
  vector it has accumulated and every \<^verbatim>\<open>write\<close> operation appends to it.  A reader is its data,
  its offset and its \<^verbatim>\<open>ok_\<close> flag; every \<^verbatim>\<open>read\<close> operation returns its value (\<open>None\<close> when the
  code returns \<^verbatim>\<open>false\<close>) together with the reader after the call.  \<^verbatim>\<open>size_t\<close> values are
  naturals: a decoded length is below \<open>2\<^sup>3\<^sup>2\<close> (lemma \<open>readLength_bound\<close>), so no sum of an
  offset and a length leaves 64 bits.  The lemmas give a calculus of byte encodings
  (\<open>parses\<close>: a reader standing before an encoding returns the value and stops behind it), the
  round trip of every primitive, and that every read keeps the offset inside the data.
\<close>

named_theorems parses_intros \<open>a reader run on an encoding returns the encoded value\<close>
named_theorems write_simps \<open>what a write operation appends\<close>

section \<open>Tags\<close>

abbreviation kBerSequence :: byte where
  "kBerSequence \<equiv> 0x30"

abbreviation kBerSet :: byte where
  "kBerSet \<equiv> 0x31"

abbreviation kBerBoolean :: byte where
  "kBerBoolean \<equiv> 0x01"

abbreviation kBerInteger :: byte where
  "kBerInteger \<equiv> 0x02"

abbreviation kBerOctetString :: byte where
  "kBerOctetString \<equiv> 0x04"

abbreviation kBerEnumerated :: byte where
  "kBerEnumerated \<equiv> 0x0a"

abbreviation kBerNull :: byte where
  "kBerNull \<equiv> 0x05"

abbreviation kBerBindRequest :: byte where
  "kBerBindRequest \<equiv> 0x60"

abbreviation kBerBindResponse :: byte where
  "kBerBindResponse \<equiv> 0x61"

abbreviation kBerUnbindRequest :: byte where
  "kBerUnbindRequest \<equiv> 0x42"

abbreviation kBerSearchRequest :: byte where
  "kBerSearchRequest \<equiv> 0x63"

abbreviation kBerSearchResultEntry :: byte where
  "kBerSearchResultEntry \<equiv> 0x64"

abbreviation kBerSearchResultDone :: byte where
  "kBerSearchResultDone \<equiv> 0x65"

abbreviation kBerModifyRequest :: byte where
  "kBerModifyRequest \<equiv> 0x66"

abbreviation kBerModifyResponse :: byte where
  "kBerModifyResponse \<equiv> 0x67"

abbreviation kBerAddRequest :: byte where
  "kBerAddRequest \<equiv> 0x68"

abbreviation kBerAddResponse :: byte where
  "kBerAddResponse \<equiv> 0x69"

abbreviation kBerDelRequest :: byte where
  "kBerDelRequest \<equiv> 0x4a"

abbreviation kBerDelResponse :: byte where
  "kBerDelResponse \<equiv> 0x6b"

abbreviation kBerModifyDNRequest :: byte where
  "kBerModifyDNRequest \<equiv> 0x6c"

abbreviation kBerModifyDNResponse :: byte where
  "kBerModifyDNResponse \<equiv> 0x6d"

abbreviation kBerCompareRequest :: byte where
  "kBerCompareRequest \<equiv> 0x6e"

abbreviation kBerCompareResponse :: byte where
  "kBerCompareResponse \<equiv> 0x6f"

abbreviation kBerExtendedRequest :: byte where
  "kBerExtendedRequest \<equiv> 0x77"

abbreviation kBerExtendedResponse :: byte where
  "kBerExtendedResponse \<equiv> 0x78"

abbreviation kBerSimpleAuth :: byte where
  "kBerSimpleAuth \<equiv> 0x80"

abbreviation kBerContext1 :: byte where
  "kBerContext1 \<equiv> 0x81"

abbreviation kBerContext2 :: byte where
  "kBerContext2 \<equiv> 0x82"

abbreviation kBerContext10 :: byte where
  "kBerContext10 \<equiv> 0x8a"

abbreviation kBerContext11 :: byte where
  "kBerContext11 \<equiv> 0x8b"

abbreviation kBerControls :: byte where
  "kBerControls \<equiv> 0xa0"

abbreviation kBerServerSaslCreds :: byte where
  "kBerServerSaslCreds \<equiv> 0x87"

abbreviation kBerSaslAuth :: byte where
  "kBerSaslAuth \<equiv> 0xa3"

abbreviation kBerFilterAnd :: byte where
  "kBerFilterAnd \<equiv> 0xa0"

abbreviation kBerFilterOr :: byte where
  "kBerFilterOr \<equiv> 0xa1"

abbreviation kBerFilterNot :: byte where
  "kBerFilterNot \<equiv> 0xa2"

abbreviation kBerFilterEquality :: byte where
  "kBerFilterEquality \<equiv> 0xa3"

abbreviation kBerFilterSubstrings :: byte where
  "kBerFilterSubstrings \<equiv> 0xa4"

abbreviation kBerFilterPresent :: byte where
  "kBerFilterPresent \<equiv> 0x87"

abbreviation kBerSubstringInitial :: byte where
  "kBerSubstringInitial \<equiv> 0x80"

abbreviation kBerSubstringAny :: byte where
  "kBerSubstringAny \<equiv> 0x81"

abbreviation kBerSubstringFinal :: byte where
  "kBerSubstringFinal \<equiv> 0x82"

section \<open>The writer\<close>

type_synonym BerWriter = bytes

definition writeByte :: "BerWriter \<Rightarrow> byte \<Rightarrow> BerWriter" where
  "writeByte w value = w @ [value]"

definition writeBytes :: "BerWriter \<Rightarrow> bytes \<Rightarrow> BerWriter" where
  "writeBytes w data = w @ data"

text \<open>The loop \<^verbatim>\<open>while (value > 0) { raw.push_back(value & 0xff); value >>= 8; }\<close>\<close>

fun rawLength :: "nat \<Rightarrow> bytes" where
  "rawLength value =
     (if value > 0 then of_nat (value mod 256) # rawLength (value div 256) else [])"

declare rawLength.simps [simp del]

definition encodeLength :: "nat \<Rightarrow> bytes" where
  "encodeLength len =
     (if len < 128 then [of_nat len]
      else let raw = rawLength len in (0x80 OR of_nat (length raw)) # rev raw)"

definition writeTagLength :: "BerWriter \<Rightarrow> byte \<Rightarrow> nat \<Rightarrow> BerWriter" where
  "writeTagLength w tag len = writeBytes (writeByte w tag) (encodeLength len)"

text \<open>The loop that skips redundant sign bytes: the first index it stops at.\<close>

function signStart :: "bytes \<Rightarrow> nat \<Rightarrow> nat" where
  "signStart raw start =
     (if start + 1 < length raw then
        let sign_extend_zero = (raw ! start = 0x00 \<and> (raw ! (start + 1) AND 0x80) = 0);
            sign_extend_ones = (raw ! start = 0xff \<and> (raw ! (start + 1) AND 0x80) \<noteq> 0)
        in if \<not> sign_extend_zero \<and> \<not> sign_extend_ones then start else signStart raw (start + 1)
      else start)"
  by pat_completeness auto
termination
  by (relation "measure (\<lambda>(raw, start). length raw - start)") auto

declare signStart.simps [simp del]

definition encodeInteger :: "int64 \<Rightarrow> bytes" where
  "encodeInteger value =
     (let raw = map (\<lambda>i. ucast (drop_bit (56 - i * 8) value AND 0xff)) [0..<8]
      in drop (signStart raw 0) raw)"

definition writeInteger :: "BerWriter \<Rightarrow> int64 \<Rightarrow> BerWriter" where
  "writeInteger w value =
     (let encoded = encodeInteger value
      in writeBytes (writeTagLength w kBerInteger (length encoded)) encoded)"

text \<open>The parameter is an \<^verbatim>\<open>int\<close>; the call of \<^verbatim>\<open>encodeInteger\<close> widens it with its sign.\<close>

definition writeEnumerated :: "BerWriter \<Rightarrow> int32 \<Rightarrow> BerWriter" where
  "writeEnumerated w value =
     (let encoded = encodeInteger (scast value)
      in writeBytes (writeTagLength w kBerEnumerated (length encoded)) encoded)"

definition writeBoolean :: "BerWriter \<Rightarrow> bool \<Rightarrow> BerWriter" where
  "writeBoolean w value = writeByte (writeTagLength w kBerBoolean 1) (if value then 0xff else 0x00)"

definition writeOctetStringTag :: "BerWriter \<Rightarrow> byte \<Rightarrow> string \<Rightarrow> BerWriter" where
  "writeOctetStringTag w tag value =
     (let w = writeTagLength w tag (length value)
      in if value \<noteq> [] then writeBytes w (bytes_of value) else w)"

definition writeOctetString :: "BerWriter \<Rightarrow> string \<Rightarrow> BerWriter" where
  "writeOctetString w value = writeOctetStringTag w kBerOctetString value"

definition writeNull :: "BerWriter \<Rightarrow> byte \<Rightarrow> BerWriter" where
  "writeNull w tag = writeTagLength w tag 0"

definition writeConstructed :: "BerWriter \<Rightarrow> byte \<Rightarrow> bytes \<Rightarrow> BerWriter" where
  "writeConstructed w tag inner =
     (let w = writeTagLength w tag (length inner)
      in if inner \<noteq> [] then writeBytes w inner else w)"

section \<open>The reader\<close>

record BerReader =
  rd_data :: bytes
  rd_offset :: nat
  rd_ok :: bool

type_synonym 'a reading = "'a option \<times> BerReader"

definition mkReader :: "bytes \<Rightarrow> BerReader" where
  "mkReader data = \<lparr>rd_data = data, rd_offset = 0, rd_ok = True\<rparr>"

definition rfail :: "BerReader \<Rightarrow> 'a reading" where
  "rfail r = (None, r\<lparr>rd_ok := False\<rparr>)"

definition rbind :: "'a reading \<Rightarrow> ('a \<Rightarrow> BerReader \<Rightarrow> 'b reading) \<Rightarrow> 'b reading" where
  "rbind m f = (case m of (None, r) \<Rightarrow> (None, r) | (Some a, r) \<Rightarrow> f a r)"

definition atEnd :: "BerReader \<Rightarrow> bool" where
  "atEnd r \<longleftrightarrow> \<not> rd_ok r \<or> rd_offset r \<ge> length (rd_data r)"

definition peekTag :: "BerReader \<Rightarrow> byte" where
  "peekTag r =
     (if \<not> rd_ok r \<or> rd_offset r \<ge> length (rd_data r) then 0 else rd_data r ! rd_offset r)"

text \<open>\<^verbatim>\<open>consume(n, ptr)\<close>: the value is the \<open>n\<close> bytes from \<^verbatim>\<open>ptr\<close> on.\<close>

definition consume :: "nat \<Rightarrow> BerReader \<Rightarrow> bytes reading" where
  "consume n r =
     (if \<not> rd_ok r \<or> rd_offset r + n > length (rd_data r) then rfail r
      else (Some (take n (drop (rd_offset r) (rd_data r))), r\<lparr>rd_offset := rd_offset r + n\<rparr>))"

definition readLength :: "BerReader \<Rightarrow> nat reading" where
  "readLength r =
     rbind (consume 1 r) (\<lambda>ptr r.
       let first = ptr ! 0 in
       if (first AND 0x80) = 0 then (Some (unat first), r)
       else let count = unat (first AND 0x7f) in
         if count = 0 \<or> count > 4 then rfail r
         else rbind (consume count r) (\<lambda>ptr r.
           (Some (foldl (\<lambda>len b. push_bit 8 len OR unat b) 0 ptr), r)))"

definition readTagLength :: "BerReader \<Rightarrow> (byte \<times> nat) reading" where
  "readTagLength r =
     rbind (consume 1 r) (\<lambda>ptr r.
       rbind (readLength r) (\<lambda>len r. (Some (ptr ! 0, len), r)))"

definition readConstructed :: "byte \<Rightarrow> BerReader \<Rightarrow> BerReader reading" where
  "readConstructed tag r =
     rbind (readTagLength r) (\<lambda>(actual, len) r.
       if actual \<noteq> tag then rfail r
       else if rd_offset r + len > length (rd_data r) then rfail r
       else (Some (mkReader (take len (drop (rd_offset r) (rd_data r)))),
             r\<lparr>rd_offset := rd_offset r + len\<rparr>))"

definition readInteger :: "BerReader \<Rightarrow> int64 reading" where
  "readInteger r =
     rbind (readTagLength r) (\<lambda>(tag, len) r.
       if tag \<noteq> kBerInteger \<or> len = 0 \<or> len > 8 then rfail r
       else rbind (consume len r) (\<lambda>ptr r.
         let negative = ((ptr ! 0 AND 0x80) \<noteq> 0);
             bits = (if negative then NOT 0 else 0 :: int64)
         in (Some (foldl (\<lambda>bits b. push_bit 8 bits OR ucast b) bits ptr), r)))"

text \<open>\<^verbatim>\<open>parsed\<close> is an \<^verbatim>\<open>int64_t\<close>, converted to \<^verbatim>\<open>int\<close> at the end; unlike
  \<^verbatim>\<open>readInteger\<close> it is not sign extended.  The value that is shifted has at most seven bytes, so it is not
  negative and the shift stays in the unsigned range: C++ defines it as the conversion to \<^verbatim>\<open>int64_t\<close>, which
  wraps around.\<close>

definition readEnumerated :: "BerReader \<Rightarrow> int32 reading" where
  "readEnumerated r =
     rbind (readTagLength r) (\<lambda>(tag, len) r.
       if tag \<noteq> kBerEnumerated \<or> len = 0 \<or> len > 8 then rfail r
       else rbind (consume len r) (\<lambda>ptr r.
         (Some (ucast (foldl (\<lambda>parsed b. push_bit 8 parsed OR ucast b) (0 :: int64) ptr)), r)))"

definition readBoolean :: "BerReader \<Rightarrow> bool reading" where
  "readBoolean r =
     rbind (readTagLength r) (\<lambda>(tag, len) r.
       if tag \<noteq> kBerBoolean \<or> len \<noteq> 1 then rfail r
       else rbind (consume len r) (\<lambda>ptr r. (Some (ptr ! 0 \<noteq> 0), r)))"

definition readOctetStringTag :: "byte \<Rightarrow> BerReader \<Rightarrow> string reading" where
  "readOctetStringTag tag r =
     rbind (readTagLength r) (\<lambda>(actual, len) r.
       if actual \<noteq> tag then rfail r
       else if len = 0 then (Some [], r)
       else rbind (consume len r) (\<lambda>ptr r. (Some (string_of ptr), r)))"

definition readOctetString :: "BerReader \<Rightarrow> string reading" where
  "readOctetString r = readOctetStringTag kBerOctetString r"

definition skip :: "BerReader \<Rightarrow> unit reading" where
  "skip r =
     rbind (readTagLength r) (\<lambda>(tag, len) r.
       rbind (consume len r) (\<lambda>ptr r. (Some (), r)))"

section \<open>Reader invariant and progress\<close>

definition rd_wf :: "BerReader \<Rightarrow> bool" where
  "rd_wf r \<longleftrightarrow> rd_ok r \<and> rd_offset r \<le> length (rd_data r)"

definition rest :: "BerReader \<Rightarrow> bytes" where
  "rest r = drop (rd_offset r) (rd_data r)"

lemma rbind_simps [simp]:
  "rbind (None, r) f = (None, r)"
  "rbind (Some a, r) f = f a r"
  "rbind (rfail r) f = rfail r"
  by (simp_all add: rbind_def rfail_def)

lemma rbind_cong [fundef_cong]:
  assumes "m = m'" and "\<And>a r. m' = (Some a, r) \<Longrightarrow> f a r = g a r"
  shows "rbind m f = rbind m' g"
  using assms by (cases m' rule: prod.exhaust) (auto simp: rbind_def split: option.splits)

lemma rbind_eq_Some:
  "rbind m f = (Some b, r') \<longleftrightarrow> (\<exists>a r. m = (Some a, r) \<and> f a r = (Some b, r'))"
  by (auto simp: rbind_def split: prod.splits option.splits)

lemma rfail_neq_Some [simp]: "rfail r \<noteq> (Some b, r')" "(Some b, r') \<noteq> rfail r"
  by (simp_all add: rfail_def)

text \<open>\<open>advances n p\<close>: when \<open>p\<close> succeeds it has consumed at least \<open>n\<close> bytes of the same data
  and the reader is still inside it.\<close>

definition advances :: "nat \<Rightarrow> (BerReader \<Rightarrow> 'a reading) \<Rightarrow> bool" where
  "advances n p \<longleftrightarrow>
     (\<forall>r v r'. rd_wf r \<longrightarrow> p r = (Some v, r') \<longrightarrow>
        rd_wf r' \<and> rd_data r' = rd_data r \<and> rd_offset r + n \<le> rd_offset r')"

named_theorems advances_intros \<open>progress of the read operations\<close>

lemma advancesI:
  "(\<And>r v r'. rd_wf r \<Longrightarrow> p r = (Some v, r') \<Longrightarrow>
      rd_wf r' \<and> rd_data r' = rd_data r \<and> rd_offset r + n \<le> rd_offset r') \<Longrightarrow> advances n p"
  unfolding advances_def by blast

lemma advancesD:
  assumes "advances n p" and "rd_wf r" and "p r = (Some v, r')"
  shows "rd_wf r'" and "rd_data r' = rd_data r" and "rd_offset r + n \<le> rd_offset r'"
  using assms unfolding advances_def by blast+

lemma advances_mono: "advances n p \<Longrightarrow> m \<le> n \<Longrightarrow> advances m p"
  unfolding advances_def by (meson add_le_mono1 add_left_mono le_trans)

lemma advances_return [advances_intros]: "advances 0 (\<lambda>r. (Some v, r))"
  by (simp add: advances_def)

lemma advances_rfail [advances_intros]: "advances n rfail"
  by (simp add: advances_def)

lemma advances_if [advances_intros]:
  "advances n p \<Longrightarrow> advances n q \<Longrightarrow> advances n (\<lambda>r. if c r then p r else q r)"
  by (rule advancesI, rename_tac r v r', case_tac "c r") (auto dest: advancesD)

lemma advances_bind:
  assumes "advances m p" and "\<And>v. advances n (f v)"
  shows "advances (m + n) (\<lambda>r. rbind (p r) f)"
  unfolding advances_def
proof (intro allI impI)
  fix r v r' assume "rd_wf r" and "rbind (p r) f = (Some v, r')"
  then obtain a s where "p r = (Some a, s)" and "f a s = (Some v, r')"
    by (auto simp: rbind_eq_Some)
  with assms \<open>rd_wf r\<close> have "rd_wf s \<and> rd_data s = rd_data r \<and> rd_offset r + m \<le> rd_offset s"
    and "rd_wf s \<Longrightarrow> rd_wf r' \<and> rd_data r' = rd_data s \<and> rd_offset s + n \<le> rd_offset r'"
    unfolding advances_def by blast+
  then show "rd_wf r' \<and> rd_data r' = rd_data r \<and> rd_offset r + (m + n) \<le> rd_offset r'" by auto
qed

lemma advances_bind0 [advances_intros]:
  "advances n p \<Longrightarrow> (\<And>v. advances 0 (f v)) \<Longrightarrow> advances n (\<lambda>r. rbind (p r) f)"
  using advances_bind [of n p 0 f] by simp

lemma advances_consume [advances_intros]: "advances n (consume n)"
  by (auto simp: advances_def consume_def rd_wf_def split: if_splits)

lemma advances_readLength [advances_intros]: "advances 1 readLength"
proof -
  have "advances 0 (\<lambda>r. let first = ptr ! 0 in
       if (first AND 0x80) = 0 then (Some (unat first), r)
       else let count = unat (first AND 0x7f) in
         if count = 0 \<or> count > 4 then rfail r
         else rbind (consume count r) (\<lambda>ptr r.
           (Some (foldl (\<lambda>len b. push_bit 8 len OR unat b) 0 ptr), r)))" for ptr :: bytes
    unfolding Let_def
    by (intro advances_intros advances_mono [OF advances_consume]) simp_all
  then show ?thesis
    unfolding readLength_def [abs_def] by (intro advances_bind0 advances_consume)
qed

lemma advances_readTagLength [advances_intros]: "advances 2 readTagLength"
proof -
  have "advances (1 + 1) readTagLength"
    unfolding readTagLength_def [abs_def]
    by (intro advances_bind advances_bind0 advances_consume advances_readLength advances_return)
  then show ?thesis by (simp add: numeral_2_eq_2)
qed


lemma advances_case_prod [advances_intros]:
  "(\<And>a b. advances n (f a b)) \<Longrightarrow> advances n (case x of (a, b) \<Rightarrow> f a b)"
  by (cases x) simp

lemma advances_consume0 [advances_intros]: "advances 0 (consume n)"
  by (rule advances_mono [OF advances_consume]) simp

text \<open>Every read operation starts with a tag and a length, so it consumes two bytes at
  least.\<close>

lemma advances_readOctetStringTag [advances_intros]: "advances 2 (readOctetStringTag tag)"
  unfolding readOctetStringTag_def [abs_def]
  by (intro advances_bind0 [OF advances_readTagLength] advances_case_prod advances_if
      advances_rfail advances_return advances_bind0 [OF advances_consume0])

lemma advances_readOctetString [advances_intros]: "advances 2 readOctetString"
  unfolding readOctetString_def [abs_def] by (rule advances_readOctetStringTag)

lemma advances_readInteger [advances_intros]: "advances 2 readInteger"
  unfolding readInteger_def [abs_def] Let_def
  by (intro advances_bind0 [OF advances_readTagLength] advances_case_prod advances_if
      advances_rfail advances_return advances_bind0 [OF advances_consume0])

lemma advances_readEnumerated [advances_intros]: "advances 2 readEnumerated"
  unfolding readEnumerated_def [abs_def]
  by (intro advances_bind0 [OF advances_readTagLength] advances_case_prod advances_if
      advances_rfail advances_return advances_bind0 [OF advances_consume0])

lemma advances_readBoolean [advances_intros]: "advances 2 readBoolean"
  unfolding readBoolean_def [abs_def]
  by (intro advances_bind0 [OF advances_readTagLength] advances_case_prod advances_if
      advances_rfail advances_return advances_bind0 [OF advances_consume0])

lemma advances_skip [advances_intros]: "advances 2 skip"
  unfolding skip_def [abs_def]
  by (intro advances_bind0 [OF advances_readTagLength] advances_case_prod
      advances_return advances_bind0 [OF advances_consume0])

lemma advances_readConstructed [advances_intros]: "advances 2 (readConstructed tag)"
  unfolding readConstructed_def [abs_def]
  by (intro advances_bind0 [OF advances_readTagLength] advances_case_prod advancesI)
     (auto simp: rd_wf_def split: if_splits)

text \<open>The reader over a constructed value covers exactly its contents, which are shorter than
  what the outer reader still had.\<close>

lemma readConstructed_inner:
  assumes "readConstructed tag r = (Some inner, r')" and "rd_wf r"
  shows "rd_wf inner" and "rd_offset inner = 0"
    and "length (rd_data inner) + 2 \<le> length (rd_data r) - rd_offset r"
proof -
  from assms(1) obtain len s where s: "readTagLength r = (Some (tag, len), s)"
    and "\<not> rd_offset s + len > length (rd_data s)"
    and inner: "inner = mkReader (take len (drop (rd_offset s) (rd_data s)))"
    by (auto simp: readConstructed_def rbind_eq_Some split: if_splits)
  then show "rd_wf inner" "rd_offset inner = 0" by (simp_all add: mkReader_def rd_wf_def)
  from advancesD [OF advances_readTagLength \<open>rd_wf r\<close> s] inner
  show "length (rd_data inner) + 2 \<le> length (rd_data r) - rd_offset r"
    by (auto simp: mkReader_def rd_wf_def)
qed

lemma push_or_add: "m < 256 \<Longrightarrow> push_bit 8 n OR m = n * 256 + (m :: nat)"
proof -
  assume m: "m < 256"
  have "\<not> bit (push_bit 8 n) i \<or> \<not> bit m i" for i
  proof (cases "i < 8")
    case False
    from m have "take_bit 8 m = m" by (simp add: take_bit_eq_mod)
    with False have "\<not> bit m i" by (metis bit_take_bit_iff)
    then show ?thesis ..
  qed (simp add: bit_push_bit_iff)
  then have "push_bit 8 n + m = push_bit 8 n OR m" by (rule disjunctive_add)
  then show ?thesis by (simp add: push_bit_eq_mult)
qed

lemma unat_byte_less: "unat (b :: byte) < 256"
  using unsigned_less [of b, where ?'a = nat] by simp

lemma foldl_length_bound:
  "foldl (\<lambda>len b. push_bit 8 len OR unat b) a bs < (a + 1) * 256 ^ length (bs :: bytes)"
proof (induction bs arbitrary: a)
  case (Cons b bs)
  have "(push_bit 8 a OR unat b) + 1 \<le> (a + 1) * 256"
    using unat_byte_less [of b] by (simp add: push_or_add)
  then have "((push_bit 8 a OR unat b) + 1) * 256 ^ length bs \<le> (a + 1) * 256 * 256 ^ length bs"
    by (rule mult_right_mono) simp
  with Cons.IH [of "push_bit 8 a OR unat b"] show ?case by (simp add: algebra_simps)
qed simp

text \<open>A length is read from at most four bytes.\<close>

lemma readLength_bound: "readLength r = (Some len, r') \<Longrightarrow> len < 2 ^ 32"
proof -
  assume "readLength r = (Some len, r')"
  then consider (short) b :: byte where "len = unat b"
    | (long) bs :: bytes where "length bs \<le> 4" "len = foldl (\<lambda>len b. push_bit 8 len OR unat b) 0 bs"
    by (auto simp: readLength_def rbind_eq_Some Let_def consume_def split: if_splits)
       (metis length_take min.coboundedI2 linorder_not_less)+
  then show ?thesis
  proof cases
    case short
    then show ?thesis using unat_byte_less [of b] by simp
  next
    case long
    have "(256 :: nat) ^ length bs \<le> 256 ^ 4" using long(1) by (rule power_increasing) simp
    with long(2) foldl_length_bound [of 0 bs] show ?thesis by simp
  qed
qed

section \<open>Encodings and the values they parse to\<close>

text \<open>\<open>parses p bs v\<close>: standing before the bytes \<open>bs\<close>, whatever follows them, the reader
  operation \<open>p\<close> returns \<open>v\<close> and stops right behind them.\<close>

definition parses :: "(BerReader \<Rightarrow> 'a reading) \<Rightarrow> bytes \<Rightarrow> 'a \<Rightarrow> bool" where
  "parses p bs v \<longleftrightarrow>
     (\<forall>r ys. rd_wf r \<longrightarrow> rest r = bs @ ys \<longrightarrow>
        (\<exists>r'. p r = (Some v, r') \<and> rd_wf r' \<and> rest r' = ys))"

text \<open>\<open>decodes p bs v\<close>: the same for an operation that also looks whether the data ends behind
  \<open>bs\<close>.\<close>

definition decodes :: "(BerReader \<Rightarrow> 'a reading) \<Rightarrow> bytes \<Rightarrow> 'a \<Rightarrow> bool" where
  "decodes p bs v \<longleftrightarrow>
     (\<forall>r. rd_wf r \<longrightarrow> rest r = bs \<longrightarrow> (\<exists>r'. p r = (Some v, r') \<and> rd_wf r' \<and> rest r' = []))"

lemma parsesI:
  "(\<And>r ys. rd_wf r \<Longrightarrow> rest r = bs @ ys \<Longrightarrow> \<exists>r'. p r = (Some v, r') \<and> rd_wf r' \<and> rest r' = ys) \<Longrightarrow>
     parses p bs v"
  unfolding parses_def by blast

lemma parsesE:
  assumes "parses p bs v" and "rd_wf r" and "rest r = bs @ ys"
  obtains r' where "p r = (Some v, r')" and "rd_wf r'" and "rest r' = ys"
  using assms unfolding parses_def by blast

lemma decodesI:
  "(\<And>r. rd_wf r \<Longrightarrow> rest r = bs \<Longrightarrow> \<exists>r'. p r = (Some v, r') \<and> rd_wf r' \<and> rest r' = []) \<Longrightarrow>
     decodes p bs v"
  unfolding decodes_def by blast

lemma decodesE:
  assumes "decodes p bs v" and "rd_wf r" and "rest r = bs"
  obtains r' where "p r = (Some v, r')" and "rd_wf r'" and "rest r' = []"
  using assms unfolding decodes_def by blast

lemma parses_decodes: "parses p bs v \<Longrightarrow> decodes p bs v"
  by (auto intro!: decodesI elim!: parsesE)

lemma parses_return [parses_intros]: "parses (\<lambda>r. (Some v, r)) [] v"
  by (simp add: parses_def)

lemma parses_bind [parses_intros]:
  assumes "parses p bs a" and "parses (f a) cs v"
  shows "parses (\<lambda>r. rbind (p r) f) (bs @ cs) v"
proof (rule parsesI)
  fix r ys assume r: "rd_wf r" "rest r = (bs @ cs) @ ys"
  then obtain s where "p r = (Some a, s)" "rd_wf s" "rest s = cs @ ys"
    using parsesE [OF assms(1), of r "cs @ ys"] by auto
  then show "\<exists>r'. rbind (p r) f = (Some v, r') \<and> rd_wf r' \<and> rest r' = ys"
    using assms(2) by (auto elim: parsesE)
qed

lemma parses_bind0:
  assumes "parses p bs a" and "parses (f a) [] v"
  shows "parses (\<lambda>r. rbind (p r) f) bs v"
  using parses_bind [where f = f and cs = "[]", OF assms] by simp

lemma decodes_bind:
  assumes "parses p bs a" and "decodes (f a) cs v"
  shows "decodes (\<lambda>r. rbind (p r) f) (bs @ cs) v"
proof (rule decodesI)
  fix r assume "rd_wf r" "rest r = bs @ cs"
  then obtain s where "p r = (Some a, s)" "rd_wf s" "rest s = cs"
    by (rule parsesE [OF assms(1)])
  then show "\<exists>r'. rbind (p r) f = (Some v, r') \<and> rd_wf r' \<and> rest r' = []"
    using assms(2) by (auto elim: decodesE)
qed

lemma decodes_bind0: "decodes p bs a \<Longrightarrow> (\<And>r. f a r = (Some v, r)) \<Longrightarrow>
   decodes (\<lambda>r. rbind (p r) f) bs v"
  by (auto intro!: decodesI elim!: decodesE)

lemma rest_nonempty: "rd_wf r \<Longrightarrow> rest r = b # bs \<Longrightarrow> \<not> atEnd r \<and> peekTag r = b"
  by (auto simp: rest_def atEnd_def peekTag_def rd_wf_def hd_drop_conv_nth [symmetric])

lemma rest_empty: "rd_wf r \<Longrightarrow> rest r = [] \<Longrightarrow> atEnd r \<and> peekTag r = 0"
  by (simp add: rest_def atEnd_def peekTag_def)

lemma rest_mkReader [simp]: "rest (mkReader bs) = bs" "rd_wf (mkReader bs)"
  by (simp_all add: rest_def mkReader_def rd_wf_def)

lemma parses_consume [parses_intros]: "n = length bs \<Longrightarrow> parses (consume n) bs bs"
proof (rule parsesI)
  fix r ys assume "rd_wf r" and r: "rest r = bs @ ys" and n: "n = length bs"
  from r have "length (rest r) = length bs + length ys" by simp
  with \<open>rd_wf r\<close> have "rd_offset r + length bs \<le> length (rd_data r)"
    by (auto simp: rest_def rd_wf_def)
  moreover from r have "drop (rd_offset r + length bs) (rd_data r) = ys"
    by (metis rest_def drop_drop add.commute append_eq_conv_conj)
  moreover from r have "take (length bs) (drop (rd_offset r) (rd_data r)) = bs"
    by (simp add: rest_def)
  ultimately show "\<exists>r'. consume n r = (Some bs, r') \<and> rd_wf r' \<and> rest r' = ys"
    using \<open>rd_wf r\<close> n by (simp add: consume_def rd_wf_def rest_def)
qed

subsection \<open>Lengths\<close>

lemma length_rawLength: "n < 256 ^ k \<Longrightarrow> length (rawLength n) \<le> k"
proof (induction k arbitrary: n)
  case (Suc k)
  then have "n div 256 < 256 ^ k" by (simp add: less_mult_imp_div_less mult.commute)
  then have "length (rawLength (n div 256)) \<le> k" by (rule Suc.IH)
  then show ?case by (subst rawLength.simps) simp
qed (simp add: rawLength.simps)

lemma foldl_rawLength:
  "foldl (\<lambda>len b. push_bit 8 len OR unat b) 0 (rev (rawLength n)) = n"
proof (induction n rule: rawLength.induct)
  case (1 n)
  show ?case
  proof (cases "n > 0")
    case True
    have "unat (of_nat (n mod 256) :: byte) = n mod 256" by (simp add: unat_of_nat)
    with True 1 show ?thesis
      by (subst rawLength.simps) (simp add: push_or_add)
  qed (simp add: rawLength.simps)
qed

lemma long_form_count:
  assumes "k \<le> 4"
  shows "unat ((0x80 OR of_nat k :: byte) AND 0x7f) = k" and "(0x80 OR of_nat k :: byte) AND 0x80 \<noteq> 0"
proof -
  from assms have "k = 0 \<or> k = 1 \<or> k = 2 \<or> k = 3 \<or> k = 4" by auto
  then show "unat ((0x80 OR of_nat k :: byte) AND 0x7f) = k"
    and "(0x80 OR of_nat k :: byte) AND 0x80 \<noteq> 0" by auto
qed

lemma short_form:
  assumes "n < 128"
  shows "(of_nat n :: byte) AND 0x80 = 0" and "unat (of_nat n :: byte) = n"
proof -
  show u: "unat (of_nat n :: byte) = n" using assms by (simp add: unat_of_nat)
  have "\<not> bit (unat (of_nat n :: byte)) 7"
    using assms by (simp only: u) (simp add: bit_iff_odd)
  then have "\<not> bit (of_nat n :: byte) 7" by (simp only: bit_unsigned_iff) simp
  then show "(of_nat n :: byte) AND 0x80 = 0" 
    using and_exp_eq_0_iff_not_bit [of "of_nat n :: byte" 7] by simp
qed

lemma parses_readLength [parses_intros]:
  assumes "n < 2 ^ 32"
  shows "parses readLength (encodeLength n) n"
proof (cases "n < 128")
  case True
  have "parses readLength ([of_nat n] @ []) n"
    unfolding readLength_def [abs_def]
    by (rule parses_bind [OF parses_consume]) (simp_all add: short_form True parses_return)
  with True show ?thesis by (simp add: encodeLength_def)
next
  case False
  let ?raw = "rawLength n"
  have k4: "length ?raw \<le> 4" using length_rawLength [of n 4] assms by simp
  have "?raw \<noteq> []" using False by (subst rawLength.simps) simp
  then have k0: "length ?raw \<noteq> 0" by simp
  have "parses (\<lambda>r. rbind (consume (length ?raw) r)
          (\<lambda>ptr r. (Some (foldl (\<lambda>len b. push_bit 8 len OR unat b) 0 ptr), r))) (rev ?raw) n"
    by (rule parses_bind0 [OF parses_consume [of _ "rev ?raw"]])
       (simp_all add: foldl_rawLength parses_return)
  then have "parses readLength ([0x80 OR of_nat (length ?raw)] @ rev ?raw) n"
    unfolding readLength_def [abs_def]
    by (intro parses_bind [OF parses_consume])
       (use k0 k4 in \<open>simp_all add: Let_def long_form_count [OF k4]\<close>)
  with False show ?thesis by (simp add: encodeLength_def Let_def)
qed

subsection \<open>Tag, length and contents\<close>

definition tlv :: "byte \<Rightarrow> bytes \<Rightarrow> bytes" where
  "tlv tag content = tag # encodeLength (length content) @ content"

lemma tlv_neq_Nil [simp]: "tlv tag content \<noteq> []"
  by (simp add: tlv_def)

lemma write_tlv [write_simps]:
  "writeOctetStringTag w tag s = w @ tlv tag (bytes_of s)"
  "writeOctetString w s = w @ tlv kBerOctetString (bytes_of s)"
  "writeConstructed w tag inner = w @ tlv tag inner"
  "writeInteger w v = w @ tlv kBerInteger (encodeInteger v)"
  "writeEnumerated w n = w @ tlv kBerEnumerated (encodeInteger (scast n))"
  "writeBoolean w b = w @ tlv kBerBoolean [if b then 0xff else 0]"
  "writeNull w tag = w @ tlv tag []"
  by (simp_all add: tlv_def writeOctetStringTag_def writeOctetString_def writeConstructed_def
      writeInteger_def writeEnumerated_def writeBoolean_def writeNull_def writeTagLength_def
      writeByte_def writeBytes_def Let_def)

lemma length_encodeLength: "n < 2 ^ 32 \<Longrightarrow> length (encodeLength n) \<le> 5"
  using length_rawLength [of n 4] by (simp add: encodeLength_def Let_def)

lemma length_tlv: "length content < 2 ^ 32 \<Longrightarrow> length (tlv tag content) \<le> length content + 6"
  using length_encodeLength [of "length content"] by (simp add: tlv_def)

lemma length_tlv_ge: "length content \<le> length (tlv tag content)"
  by (simp add: tlv_def)

lemma parses_readTagLength [parses_intros]:
  assumes "n < 2 ^ 32"
  shows "parses readTagLength (tag # encodeLength n) (tag, n)"
proof -
  have "parses readTagLength ([tag] @ encodeLength n) (tag, n)"
    unfolding readTagLength_def [abs_def]
    by (rule parses_bind [OF parses_consume])
       (auto intro: parses_bind0 [OF parses_readLength [OF assms]] parses_return)
  then show ?thesis by simp
qed

text \<open>The shape shared by the operations that read a tag, a length and the contents.\<close>

lemma parses_tlv:
  assumes "length content < 2 ^ 32"
    and "parses (f (tag, length content)) content v"
  shows "parses (\<lambda>r. rbind (readTagLength r) f) (tlv tag content) v"
  using parses_bind [OF parses_readTagLength, of "length content" f tag content v] assms
  by (simp add: tlv_def)

lemma parses_readOctetStringTag [parses_intros]:
  assumes "length s < 2 ^ 32"
  shows "parses (readOctetStringTag tag) (tlv tag (bytes_of s)) s"
  unfolding readOctetStringTag_def [abs_def]
proof (rule parses_tlv)
  show "parses ((\<lambda>(actual, len) r. if actual \<noteq> tag then rfail r
       else if len = 0 then (Some [], r)
       else rbind (consume len r) (\<lambda>ptr r. (Some (string_of ptr), r)))
         (tag, length (bytes_of s))) (bytes_of s) s"
  proof (cases "s = []")
    case False
    then show ?thesis
      by (auto intro!: parses_bind0 [OF parses_consume] parses_return)
  qed (simp add: parses_return)
qed (use assms in simp)

lemma parses_readOctetString [parses_intros]:
  "length s < 2 ^ 32 \<Longrightarrow> parses readOctetString (tlv kBerOctetString (bytes_of s)) s"
  unfolding readOctetString_def [abs_def] by (rule parses_readOctetStringTag)

lemma parses_readBoolean [parses_intros]:
  "parses readBoolean (tlv kBerBoolean [if b then 0xff else 0]) b"
  unfolding readBoolean_def [abs_def]
  by (rule parses_tlv) (auto intro!: parses_bind0 [OF parses_consume] parses_return)

lemma parses_skip [parses_intros]:
  "length content < 2 ^ 32 \<Longrightarrow> parses skip (tlv tag content) ()"
  unfolding skip_def [abs_def]
  by (rule parses_tlv) (auto intro!: parses_bind0 [OF parses_consume] parses_return)

lemma parses_readConstructed [parses_intros]:
  assumes "length inner < 2 ^ 32"
  shows "parses (readConstructed tag) (tlv tag inner) (mkReader inner)"
  unfolding readConstructed_def [abs_def]
proof (rule parses_tlv [OF assms], rule parsesI)
  fix r ys assume "rd_wf r" "rest r = inner @ ys"
  with parses_consume [OF refl, of inner]
  obtain r' where "consume (length inner) r = (Some inner, r')" "rd_wf r'" "rest r' = ys"
    by (rule parsesE)
  then show "\<exists>r'. (\<lambda>(actual, len) r. if actual \<noteq> tag then rfail r
         else if length (rd_data r) < rd_offset r + len then rfail r
         else (Some (mkReader (take len (drop (rd_offset r) (rd_data r)))),
           r\<lparr>rd_offset := rd_offset r + len\<rparr>)) (tag, length inner) r =
       (Some (mkReader inner), r') \<and> rd_wf r' \<and> rest r' = ys"
    by (auto simp: consume_def split: if_splits)
qed

subsection \<open>Integers\<close>

abbreviation be_fold :: "int64 \<Rightarrow> bytes \<Rightarrow> int64" where
  "be_fold \<equiv> foldl (\<lambda>bits b. push_bit 8 bits OR ucast b)"

definition decodeInteger :: "bytes \<Rightarrow> int64" where
  "decodeInteger bs = be_fold (if (bs ! 0 AND 0x80) \<noteq> 0 then NOT 0 else 0) bs"

definition int64_bytes :: "int64 \<Rightarrow> bytes" where
  "int64_bytes v = map (\<lambda>i. ucast (drop_bit (56 - i * 8) v AND 0xff)) [0..<8]"

lemma be_fold_prefix:
  "k \<le> 8 \<Longrightarrow> be_fold a (map (\<lambda>i. ucast (drop_bit (56 - i * 8) v AND 0xff)) [0..<k]) =
     push_bit (8 * k) a OR drop_bit (64 - 8 * k) v"
proof (induction k)
  case (Suc k)
  have "push_bit 8 (push_bit (8 * k) a OR drop_bit (64 - 8 * k) v) OR
      ucast (ucast (drop_bit (56 - k * 8) v AND 0xff) :: byte) =
    push_bit (8 * Suc k) a OR drop_bit (64 - 8 * Suc k) v" (is "?l = ?r")
  proof (rule bit_word_eqI)
    fix n assume n: "n < LENGTH(64)"
    have ff: "bit (0xff :: int64) m \<longleftrightarrow> m < 8" if "m < 64" for m
      using bit_mask_iff [of 8 m, where ?'a = int64] that by (simp add: mask_eq_exp_minus_1)
    show "bit ?l n = bit ?r n"
    proof (cases "n < 8")
      case True
      then have "bit (0xff :: int64) n" by (intro ff [THEN iffD2]) simp_all
      with True n Suc.prems show ?thesis
        by (auto simp: bit_simps algebra_simps)
    next
      case False
      with n Suc.prems show ?thesis
        by (auto simp: bit_simps ff algebra_simps)
    qed
  qed
  with Suc show ?case by simp
qed simp

lemma be_fold_int64_bytes: "be_fold a (int64_bytes v) = v"
  using be_fold_prefix [of 8 a v] by (simp add: int64_bytes_def)


lemma signStart_inv:
  assumes "s < length raw"
  shows "s \<le> signStart raw s \<and> signStart raw s < length raw \<and>
     decodeInteger (drop (signStart raw s) raw) = decodeInteger (drop s raw) \<and>
     (raw ! signStart raw s AND 0x80 = 0 \<longleftrightarrow> raw ! s AND 0x80 = 0)"
  using assms
proof (induction raw s rule: signStart.induct)
  case (1 raw s)
  show ?case
  proof (cases "signStart raw s = s")
    case True
    with 1 show ?thesis by simp
  next
    case False
    then have s: "s + 1 < length raw" and nx: "signStart raw s = signStart raw (s + 1)"
      and red: "(raw ! s = 0 \<and> raw ! (s + 1) AND 0x80 = 0) \<or>
                (raw ! s = 0xff \<and> raw ! (s + 1) AND 0x80 \<noteq> 0)"
      by (auto simp: signStart.simps [of raw s] Let_def split: if_splits)
    have split: "drop s raw = raw ! s # drop (s + 1) raw" using s by (simp add: Cons_nth_drop_Suc)
    have "(push_bit 8 (NOT 0) OR ucast (0xff :: byte) :: int64) = NOT 0" by code_simp
    with red s have "decodeInteger (drop s raw) = decodeInteger (drop (s + 1) raw)"
      by (auto simp: decodeInteger_def split)
    with 1(1) [OF s refl refl] s nx red show ?thesis by (auto simp: Let_def)
  qed
qed

lemma encodeInteger_signStart: "encodeInteger v = drop (signStart (int64_bytes v) 0) (int64_bytes v)"
  by (simp add: encodeInteger_def int64_bytes_def Let_def)

lemma length_int64_bytes [simp]: "length (int64_bytes v) = 8"
  by (simp add: int64_bytes_def)

lemma length_encodeInteger: "0 < length (encodeInteger v)" "length (encodeInteger v) \<le> 8"
  using signStart_inv [of 0 "int64_bytes v"] by (simp_all add: encodeInteger_signStart)

lemma encodeInteger_neq_Nil [simp]: "encodeInteger v \<noteq> []"
  using length_encodeInteger(1) [of v] by simp

lemma decodeInteger_encodeInteger: "decodeInteger (encodeInteger v) = v"
  using signStart_inv [of 0 "int64_bytes v"]
  by (simp add: encodeInteger_signStart) (simp add: decodeInteger_def be_fold_int64_bytes)

lemma parses_readInteger [parses_intros]:
  "parses readInteger (tlv kBerInteger (encodeInteger v)) v"
  unfolding readInteger_def [abs_def]
proof (rule parses_tlv)
  show "length (encodeInteger v) < 2 ^ 32" using length_encodeInteger [of v] by simp
  have "parses (\<lambda>r. rbind (consume (length (encodeInteger v)) r)
      (\<lambda>ptr r. (Some (decodeInteger ptr), r))) (encodeInteger v) v"
    by (rule parses_bind0 [OF parses_consume])
       (simp_all add: decodeInteger_encodeInteger parses_return)
  then show "parses ((\<lambda>(tag, len) r. if tag \<noteq> kBerInteger \<or> len = 0 \<or> len > 8 then rfail r
       else rbind (consume len r) (\<lambda>ptr r.
         let negative = ((ptr ! 0 AND 0x80) \<noteq> 0);
             bits = (if negative then NOT 0 else 0 :: int64)
         in (Some (foldl (\<lambda>bits b. push_bit 8 bits OR ucast b) bits ptr), r)))
       (kBerInteger, length (encodeInteger v))) (encodeInteger v) v"
    using length_encodeInteger [of v] by (simp add: decodeInteger_def Let_def)
qed

text \<open>The enumerated reader does not extend the sign, so only non-negative values come
  back.\<close>

lemma encodeInteger_sign: "(encodeInteger v ! 0 AND 0x80 = 0) \<longleftrightarrow> \<not> bit v 63"
proof -
  have "int64_bytes v ! 0 AND 0x80 = 0 \<longleftrightarrow> \<not> bit (int64_bytes v ! 0) 7"
    using and_exp_eq_0_iff_not_bit [of "int64_bytes v ! 0" 7] by simp
  also have "\<dots> \<longleftrightarrow> \<not> bit v 63" by (simp add: int64_bytes_def bit_simps)
  finally show ?thesis
    using signStart_inv [of 0 "int64_bytes v"] by (simp add: encodeInteger_signStart)
qed

lemma parses_readEnumerated [parses_intros]:
  fixes n :: int32
  assumes "\<not> bit n 31"
  shows "parses readEnumerated (tlv kBerEnumerated (encodeInteger (scast n))) n"
  unfolding readEnumerated_def [abs_def]
proof (rule parses_tlv)
  let ?e = "encodeInteger (scast n)"
  have "\<not> bit (scast n :: int64) 63" using assms by (simp add: bit_simps)
  then have "be_fold 0 ?e = scast n"
    using decodeInteger_encodeInteger [of "scast n"] encodeInteger_sign [of "scast n"]
    by (simp add: decodeInteger_def)
  moreover have "ucast (scast n :: int64) = n"
    by (rule bit_word_eqI) (auto simp: bit_simps)
  ultimately have "parses (\<lambda>r. rbind (consume (length ?e) r)
      (\<lambda>ptr r. (Some (ucast (be_fold 0 ptr)), r))) ?e n"
    by (intro parses_bind0 [OF parses_consume]) (simp_all add: parses_return)
  then show "parses ((\<lambda>(tag, len) r. if tag \<noteq> kBerEnumerated \<or> len = 0 \<or> len > 8 then rfail r
       else rbind (consume len r) (\<lambda>ptr r. (Some (ucast (be_fold 0 ptr)), r)))
       (kBerEnumerated, length ?e)) ?e n"
    using length_encodeInteger [of "scast n"] by simp
qed (use length_encodeInteger(2) [of "scast n"] in simp)


section \<open>Reading items until the end\<close>

lemma not_atEnd_wf: "\<not> atEnd r \<Longrightarrow> rd_wf r"
  by (simp add: atEnd_def rd_wf_def)

text \<open>What the remaining bytes of a reader measure, for the termination of the loops.\<close>

definition remaining :: "BerReader \<Rightarrow> nat" where
  "remaining r = length (rd_data r) - rd_offset r"

lemma advances_remaining:
  assumes "advances n p" and "0 < n" and "\<not> atEnd r" and "p r = (Some v, r')"
  shows "remaining r' < remaining r"
  using advancesD [OF assms(1) not_atEnd_wf [OF assms(3)] assms(4)] assms(2,3)
  by (auto simp: remaining_def atEnd_def)

text \<open>
  The loops \<^verbatim>\<open>while (!reader.atEnd()) { ... out.push_back(x); }\<close> over an item reader.  A loop
  that satisfies the unfolding equation reads back any concatenation of item encodings.
\<close>

locale item_loop =
  fixes item :: "BerReader \<Rightarrow> 'a reading"
    and loop :: "'a list \<Rightarrow> BerReader \<Rightarrow> 'a list reading"
  assumes item_progress: "advances 1 item"
    and loop_unfold: "loop acc r =
      (if atEnd r then if rd_ok r then (Some acc, r) else (None, r)
       else rbind (item r) (\<lambda>x r. loop (acc @ [x]) r))"
begin

lemma loop_decodes:
  assumes "\<And>x. x \<in> set xs \<Longrightarrow> parses item (enc x) x"
    and "\<And>x. x \<in> set xs \<Longrightarrow> enc x \<noteq> []"
  shows "decodes (loop acc) (concat (map enc xs)) (acc @ xs)"
  using assms
proof (induction xs arbitrary: acc)
  case Nil
  show ?case
  proof (rule decodesI)
    fix r assume r: "rd_wf r" "rest r = concat (map enc [])"
    then have "atEnd r" "rd_ok r" using rest_empty [of r] by (simp_all add: rd_wf_def)
    with r show "\<exists>r'. loop acc r = (Some (acc @ []), r') \<and> rd_wf r' \<and> rest r' = []"
      by (simp add: loop_unfold [of acc r])
  qed
next
  case (Cons x xs)
  show ?case
  proof (rule decodesI)
    fix r assume r: "rd_wf r" "rest r = concat (map enc (x # xs))"
    from Cons.prems(2) [of x] r have "\<not> atEnd r"
      by (cases "enc x") (auto dest: rest_nonempty)
    obtain s where s: "item r = (Some x, s)" "rd_wf s" "rest s = concat (map enc xs)"
      using parsesE [OF Cons.prems(1) [of x], of r] r by auto
    with Cons show "\<exists>r'. loop acc r = (Some (acc @ x # xs), r') \<and> rd_wf r' \<and> rest r' = []"
      using decodesE [OF Cons.IH [of "acc @ [x]"] s(2,3)] \<open>\<not> atEnd r\<close> s(1)
      by (simp add: loop_unfold [of acc r]) metis
  qed
qed

lemma loop_total_or_fails:
  assumes "rd_wf r" and "loop acc r = (Some ys, r')"
  shows "rest r' = [] \<and> rd_data r' = rd_data r \<and> (\<exists>xs. ys = acc @ xs)"
  using assms
proof (induction "remaining r" arbitrary: r acc rule: less_induct)
  case less
  show ?case
  proof (cases "atEnd r")
    case True
    with less.prems show ?thesis
      by (auto simp: loop_unfold [of acc r] atEnd_def rest_def split: if_splits)
  next
    case False
    with less.prems obtain x s where x: "item r = (Some x, s)" "loop (acc @ [x]) s = (Some ys, r')"
      by (auto simp: loop_unfold [of acc r] rbind_eq_Some)
    from less.hyps [OF advances_remaining [OF item_progress _ False x(1)] _ x(2)]
      advancesD [OF item_progress less.prems(1) x(1)]
    show ?thesis by auto
  qed
qed

end

lemma decodes_run: "decodes p bs v \<Longrightarrow> fst (p (mkReader bs)) = Some v"
  by (erule decodesE [of p bs v "mkReader bs"]) simp_all

lemma parses_run: "parses p bs v \<Longrightarrow> fst (p (mkReader bs)) = Some v"
  by (rule decodes_run) (rule parses_decodes)

section \<open>Properties\<close>

text \<open>Every 64-bit integer is read back from its minimal two's-complement encoding, whatever
  bytes follow it.\<close>

lemma integer_roundtrip:
  "fst (readInteger (mkReader (writeInteger [] v @ ys))) = Some v"
proof -
  have "rd_wf (mkReader (writeInteger [] v @ ys))"
    "rest (mkReader (writeInteger [] v @ ys)) = tlv kBerInteger (encodeInteger v) @ ys"
    by (simp_all add: write_simps)
  with parses_readInteger [of v]
  obtain r' where "readInteger (mkReader (writeInteger [] v @ ys)) = (Some v, r')" by (rule parsesE)
  then show ?thesis by simp
qed

text \<open>A reader never leaves its data: a tag and length that are read successfully lie inside
  the buffer, the length is below \<open>2\<^sup>3\<^sup>2\<close>, and a constructed value hands out exactly the bytes its
  length announces, all of them inside the buffer.\<close>

lemma reader_in_bounds:
  assumes "rd_ok r" and "rd_offset r \<le> length (rd_data r)" and "readConstructed tag r = (Some inner, r')"
  shows "rd_data r' = rd_data r \<and> rd_offset r < rd_offset r' \<and> rd_offset r' \<le> length (rd_data r) \<and>
    length (rd_data inner) < 2 ^ 32 \<and>
    rd_data inner = take (length (rd_data inner))
      (drop (rd_offset r' - length (rd_data inner)) (rd_data r))"
proof -
  have wf: "rd_wf r" using assms by (simp add: rd_wf_def)
  from assms(3) obtain len s where s: "readTagLength r = (Some (tag, len), s)"
    and le: "rd_offset s + len \<le> length (rd_data s)"
    and inner: "inner = mkReader (take len (drop (rd_offset s) (rd_data s)))"
    and r': "r' = s\<lparr>rd_offset := rd_offset s + len\<rparr>"
    by (auto simp: readConstructed_def rbind_eq_Some split: if_splits)
  from s have "len < 2 ^ 32"
    by (auto simp: readTagLength_def rbind_eq_Some dest: readLength_bound)
  moreover from le inner have "length (rd_data inner) = len" by (simp add: mkReader_def)
  moreover note advancesD [OF advances_readTagLength wf s]
  ultimately show ?thesis using le inner r' by (simp add: mkReader_def)
qed

text \<open>An enumerated value below zero is not read back: the reader does not extend the sign
  that the writer puts into a single byte.\<close>

lemma enumerated_sign_lost:
  "fst (readEnumerated (mkReader (writeEnumerated [] (- 1)))) = Some 255"
  by code_simp

end
