(* ===== verification/SearchFilters.thy ===== *)
theory SearchFilters
  imports Entry Ber
begin

text \<open>
  Search filters, \<^verbatim>\<open>src/simple-ldapd/protocol/filter.cpp\<close>: the text parser, the match of a
  filter against an entry, and the BER encoding and decoding of filter trees.  The parser works
  on a text and a position, as the code does; \<open>None\<close> is its result \<^verbatim>\<open>false\<close>, after which
  neither the position nor the tree is read.  The two parsers are mutually recursive and total:
  every round moves the position, or takes bytes from the reader.
\<close>

section \<open>Filter trees\<close>

datatype FilterType = And | Or | NotF | Equality | Present | Substring | TrueF | FalseF

datatype FilterNode = FilterNode
  (fn_type: FilterType)
  (fn_attribute: string)
  (fn_value: string)
  (fn_children: "FilterNode list")
  (fn_initial: string)
  (fn_any: "string list")
  (fn_final: string)

text \<open>A node with the default member values, and the nodes of one kind that the code builds.\<close>

definition defaultNode :: FilterNode where
  "defaultNode = FilterNode TrueF [] [] [] [] [] []"

definition listNode :: "FilterType \<Rightarrow> FilterNode list \<Rightarrow> FilterNode" where
  "listNode ty children = FilterNode ty [] [] children [] [] []"

definition presentNode :: "string \<Rightarrow> FilterNode" where
  "presentNode attr = FilterNode Present attr [] [] [] [] []"

definition equalityNode :: "string \<Rightarrow> string \<Rightarrow> FilterNode" where
  "equalityNode attr val = FilterNode Equality attr val [] [] [] []"

definition substringNode :: "string \<Rightarrow> string \<Rightarrow> string list \<Rightarrow> string \<Rightarrow> FilterNode" where
  "substringNode attr initial any final = FilterNode Substring attr [] [] initial any final"

record SearchFilter =
  sf_text :: string
  sf_valid :: bool
  sf_root :: FilterNode

section \<open>The text parser\<close>

definition skipSpace :: "string \<Rightarrow> nat \<Rightarrow> nat" where
  "skipSpace text pos = scan_while isspace text pos"

definition popSpaces :: "string \<Rightarrow> string" where
  "popSpaces s = rev (dropWhile isspace (rev s))"

text \<open>The loop that cuts a value at its unescaped stars; an escaped character is kept together
  with its backslash.\<close>

fun splitStars :: "string \<Rightarrow> string \<Rightarrow> string list" where
  "splitStars [] current = [current]"
| "splitStars (c # cs) current =
     (if c = CHR 0x5C \<and> cs \<noteq> [] then splitStars (tl cs) (current @ [c, hd cs])
      else if c = CHR ''*'' then current # splitStars cs []
      else splitStars cs (current @ [c]))"

definition parseItem :: "string \<Rightarrow> nat \<Rightarrow> (FilterNode \<times> nat) option" where
  "parseItem text start =
     (let pos = scan_while (\<lambda>c. c \<noteq> CHR ''='' \<and> c \<noteq> CHR '')'' \<and> c \<noteq> CHR ''('') text start in
      if pos \<ge> length text \<or> text ! pos \<noteq> CHR ''='' then None
      else let attribute = take (pos - start) (drop start text);
               value_start = Suc pos;
               pos = scan_while (\<lambda>c. c \<noteq> CHR '')'') text value_start;
               value = take (pos - value_start) (drop value_start text);
               attribute = popSpaces attribute in
        if attribute = [] then None
        else if value = ''*'' then Some (presentNode attribute, pos)
        else let parts = splitStars value [] in
          if length parts = 1 then Some (equalityNode attribute value, pos)
          else Some (substringNode attribute (hd parts)
                       (filter (\<lambda>p. p \<noteq> []) (butlast (tl parts))) (last parts), pos))"

function parseFilter :: "string \<Rightarrow> nat \<Rightarrow> (FilterNode \<times> nat) option"
  and parseList :: "string \<Rightarrow> nat \<Rightarrow> FilterNode list \<Rightarrow> (FilterNode list \<times> nat) option" where
  "parseFilter text pos =
     (let pos = skipSpace text pos in
      if pos \<ge> length text \<or> text ! pos \<noteq> CHR ''('' then None
      else let pos = skipSpace text (Suc pos) in
        if pos \<ge> length text then None
        else case
          (if text ! pos = CHR ''&'' then
             map_option (\<lambda>(cs, pos). (listNode And cs, pos)) (parseList text (Suc pos) [])
           else if text ! pos = CHR ''|'' then
             map_option (\<lambda>(cs, pos). (listNode Or cs, pos)) (parseList text (Suc pos) [])
           else if text ! pos = CHR ''!'' then
             map_option (\<lambda>(c, pos). (listNode NotF [c], pos)) (parseFilter text (Suc pos))
           else parseItem text pos)
          of None \<Rightarrow> None
          | Some (node, pos) \<Rightarrow>
              let pos = skipSpace text pos in
              if pos \<ge> length text \<or> text ! pos \<noteq> CHR '')'' then None
              else Some (node, Suc pos))"
| "parseList text pos children =
     (if pos < length text \<and> text ! pos = CHR ''('' then
        (case parseFilter text pos of
           None \<Rightarrow> None
         | Some (child, pos) \<Rightarrow> parseList text pos (children @ [child]))
      else if children \<noteq> [] then Some (children, pos) else None)"
  by pat_completeness auto

text \<open>A successful parse moves the position; this is what makes the loop over a list end.\<close>

lemma parseItem_ge: "parseItem t start = Some (n, pos) \<Longrightarrow> start \<le> pos"
  by (auto simp: parseItem_def Let_def scan_while_ge le_SucI split: if_splits
      intro!: order.trans [OF _ scan_while_ge])

lemma skipSpace_ge: "pos \<le> skipSpace t pos"
  by (simp add: skipSpace_def scan_while_ge)

lemma parse_progress:
  "parseFilter_parseList_dom (Inl (t, p)) \<Longrightarrow>
     \<forall>n p'. parseFilter t p = Some (n, p') \<longrightarrow> p < p'"
  "parseFilter_parseList_dom (Inr (t, p, cs)) \<Longrightarrow>
     \<forall>cs' p'. parseList t p cs = Some (cs', p') \<longrightarrow> p \<le> p'"
proof (induction rule: parseFilter_parseList.pinduct)
  case (1 t pos)
  let ?q = "skipSpace t (Suc (skipSpace t pos))"
  show ?case
  proof (intro allI impI)
    fix n p' assume res: "parseFilter t pos = Some (n, p')"
    let ?body = "if t ! ?q = CHR ''&'' then
             map_option (\<lambda>(cs, pos). (listNode And cs, pos)) (parseList t (Suc ?q) [])
           else if t ! ?q = CHR ''|'' then
             map_option (\<lambda>(cs, pos). (listNode Or cs, pos)) (parseList t (Suc ?q) [])
           else if t ! ?q = CHR ''!'' then
             map_option (\<lambda>(c, pos). (listNode NotF [c], pos)) (parseFilter t (Suc ?q))
           else parseItem t ?q"
    from res obtain node p3 where guards: "\<not> (length t \<le> skipSpace t pos \<or> t ! skipSpace t pos \<noteq> CHR ''('')"
        "\<not> length t \<le> ?q"
      and body: "?body = Some (node, p3)" and p': "p' = Suc (skipSpace t p3)"
      by (subst (asm) parseFilter.psimps [OF 1(1)], unfold Let_def)
         (auto split: if_split_asm option.split_asm)
    have "?q \<le> p3"
      using body 1(2-4) [OF refl guards(1) refl guards(2)] parseItem_ge [of t ?q]
      by (fastforce split: if_split_asm)
    with p' skipSpace_ge [of p3 t] skipSpace_ge [of "Suc (skipSpace t pos)" t] skipSpace_ge [of pos t]
    show "pos < p'" by linarith
  qed
next
  case (2 t pos children)
  show ?case
  proof (cases "pos < length t \<and> t ! pos = CHR ''(''")
    case True
    show ?thesis
    proof (cases "parseFilter t pos")
      case None
      with True show ?thesis by (simp add: parseList.psimps [OF 2(1)])
    next
      case (Some np)
      obtain n q where np: "np = (n, q)" by (cases np)
      with 2(2) True Some have "pos < q" by auto
      with True Some np 2(3) [OF True Some np [symmetric]] show ?thesis
        by (auto simp: parseList.psimps [OF 2(1)])
    qed
  qed (auto simp: parseList.psimps [OF 2(1)])
qed

termination parseFilter
proof (relation "measure (\<lambda>x. case x of
      Inl (t, p) \<Rightarrow> 2 * (length t - p) | Inr (t, p, cs) \<Rightarrow> 2 * (length t - p) + 1)", goal_cases)
  case (2 t pos x xa)
  then show ?case using skipSpace_ge [of pos t] skipSpace_ge [of "Suc (skipSpace t pos)" t] by simp
next
  case (3 t pos x xa)
  then show ?case using skipSpace_ge [of pos t] skipSpace_ge [of "Suc (skipSpace t pos)" t] by simp
next
  case (4 t pos x xa)
  then show ?case using skipSpace_ge [of pos t] skipSpace_ge [of "Suc (skipSpace t pos)" t] by simp
next
  case (6 t pos children x y)
  then show ?case using parse_progress(1) by fastforce
qed auto

declare parseFilter.simps [simp del] parseList.simps [simp del]

section \<open>Matching\<close>

text \<open>\<^verbatim>\<open>findAttribute\<close> of this file returns a pointer to the values, \<^verbatim>\<open>nullptr\<close> being
  \<open>None\<close>.\<close>

definition findValues :: "DirectoryEntry \<Rightarrow> string \<Rightarrow> string list option" where
  "findValues entry name =
     map_option snd (find (\<lambda>pair. iequals (fst pair) name) (de_attributes entry))"

fun anyScan :: "string \<Rightarrow> string list \<Rightarrow> nat \<Rightarrow> nat option" where
  "anyScan hay [] pos = Some pos"
| "anyScan hay (part # parts) pos =
     (let needle = toLowerAscii part in
      case find_str needle hay pos of
        None \<Rightarrow> None
      | Some found \<Rightarrow> anyScan hay parts (found + length needle))"

definition substringMatches :: "string \<Rightarrow> FilterNode \<Rightarrow> bool" where
  "substringMatches haystack node =
     (let hay = toLowerAscii haystack;
          initial = toLowerAscii (fn_initial node);
          final_part = toLowerAscii (fn_final node) in
      if fn_initial node \<noteq> [] \<and>
         (length hay < length initial \<or> take (length initial) hay \<noteq> initial) then False
      else let pos = (if fn_initial node \<noteq> [] then length initial else 0) in
        case anyScan hay (fn_any node) pos of
          None \<Rightarrow> False
        | Some pos \<Rightarrow>
            fn_final node = [] \<or>
            (\<not> length hay < pos + length final_part \<and>
             drop (length hay - length final_part) hay = final_part))"

fun nodeMatches :: "FilterNode \<Rightarrow> DirectoryEntry \<Rightarrow> bool" where
  "nodeMatches (FilterNode ty attribute val children initial any final) entry =
     (case ty of
        TrueF \<Rightarrow> True
      | FalseF \<Rightarrow> False
      | And \<Rightarrow> (\<forall>child \<in> set children. nodeMatches child entry)
      | Or \<Rightarrow> (\<exists>child \<in> set children. nodeMatches child entry)
      | NotF \<Rightarrow> (case children of [child] \<Rightarrow> \<not> nodeMatches child entry | _ \<Rightarrow> False)
      | Present \<Rightarrow> findValues entry attribute \<noteq> None
      | Equality \<Rightarrow>
          (case findValues entry attribute of
             None \<Rightarrow> False
           | Some values \<Rightarrow> \<exists>v \<in> set values. iequals v val)
      | Substring \<Rightarrow>
          (case findValues entry attribute of
             None \<Rightarrow> False
           | Some values \<Rightarrow>
               \<exists>v \<in> set values.
                 substringMatches v (FilterNode ty attribute val children initial any final)))"

section \<open>BER encoding\<close>

text \<open>In the last case the recursive call on the presence node of \<^verbatim>\<open>objectClass\<close> is written
  out.\<close>

fun encodeNode :: "BerWriter \<Rightarrow> FilterNode \<Rightarrow> BerWriter" where
  "encodeNode writer (FilterNode ty attribute val children initial any final) =
     (case ty of
        And \<Rightarrow> writeConstructed writer kBerFilterAnd (foldl encodeNode [] children)
      | Or \<Rightarrow> writeConstructed writer kBerFilterOr (foldl encodeNode [] children)
      | NotF \<Rightarrow>
          writeConstructed writer kBerFilterNot
            (case children of [] \<Rightarrow> [] | child # _ \<Rightarrow> encodeNode [] child)
      | Present \<Rightarrow> writeOctetStringTag writer kBerFilterPresent attribute
      | Equality \<Rightarrow>
          writeConstructed writer kBerFilterEquality
            (writeOctetString (writeOctetString [] attribute) val)
      | Substring \<Rightarrow>
          let parts = (if initial \<noteq> [] then writeOctetStringTag [] kBerSubstringInitial initial else []);
              parts = foldl (\<lambda>w part. writeOctetStringTag w kBerSubstringAny part) parts any;
              parts = (if final \<noteq> [] then writeOctetStringTag parts kBerSubstringFinal final else parts)
          in writeConstructed writer kBerFilterSubstrings
               (writeConstructed (writeOctetString [] attribute) kBerSequence parts)
      | TrueF \<Rightarrow> writeOctetStringTag writer kBerFilterPresent ''objectClass''
      | FalseF \<Rightarrow>
          writeConstructed writer kBerFilterNot
            (writeOctetStringTag [] kBerFilterPresent ''objectClass''))"

section \<open>BER decoding\<close>

text \<open>The result of a read from an inner reader, while the outer reader stays at \<open>r\<close>.\<close>

definition within :: "'a reading \<Rightarrow> BerReader \<Rightarrow> 'a reading" where
  "within m r = (fst m, r)"

text \<open>The loop over the components of a substring filter.\<close>

function decodeParts ::
    "string \<times> string list \<times> string \<Rightarrow> BerReader \<Rightarrow> (string \<times> string list \<times> string) reading" where
  "decodeParts out r =
     (if atEnd r then if rd_ok r then (Some out, r) else (None, r)
      else let part_tag = peekTag r; (initial, any, final) = out in
        if part_tag = kBerSubstringInitial then
          rbind (readOctetStringTag kBerSubstringInitial r) (\<lambda>s r. decodeParts (s, any, final) r)
        else if part_tag = kBerSubstringAny then
          rbind (readOctetStringTag kBerSubstringAny r) (\<lambda>s r. decodeParts (initial, any @ [s], final) r)
        else if part_tag = kBerSubstringFinal then
          rbind (readOctetStringTag kBerSubstringFinal r) (\<lambda>s r. decodeParts (initial, any, s) r)
        else rbind (skip r) (\<lambda>_ r. decodeParts out r))"
  by pat_completeness auto
termination
  by (relation "measure (remaining \<circ> snd)")
     (auto intro: advances_remaining [OF advances_readOctetStringTag] advances_remaining [OF advances_skip])

declare decodeParts.simps [simp del]

function decodeNode :: "BerReader \<Rightarrow> FilterNode reading"
  and decodeChildren :: "FilterNode list \<Rightarrow> BerReader \<Rightarrow> FilterNode list reading" where
  "decodeNode r =
     (let tag = peekTag r in
      if tag = kBerFilterAnd \<or> tag = kBerFilterOr then
        rbind (readConstructed tag r) (\<lambda>inner r.
          within (rbind (decodeChildren [] inner)
            (\<lambda>cs s. (Some (listNode (if tag = kBerFilterAnd then And else Or) cs), s))) r)
      else if tag = kBerFilterNot then
        rbind (readConstructed tag r) (\<lambda>inner r.
          within (rbind (decodeNode inner)
            (\<lambda>c s. if rd_ok s then (Some (listNode NotF [c]), s) else (None, s))) r)
      else if tag = kBerFilterPresent then
        rbind (readOctetStringTag kBerFilterPresent r) (\<lambda>attr r. (Some (presentNode attr), r))
      else if tag = kBerFilterEquality then
        rbind (readConstructed tag r) (\<lambda>inner r.
          within (rbind (readOctetString inner) (\<lambda>attr s.
            rbind (readOctetString s) (\<lambda>val s.
              if rd_ok s then (Some (equalityNode attr val), s) else (None, s)))) r)
      else if tag = kBerFilterSubstrings then
        rbind (readConstructed tag r) (\<lambda>inner r.
          within (rbind (readOctetString inner) (\<lambda>attr s.
            rbind (readConstructed kBerSequence s) (\<lambda>parts s.
              rbind (within (decodeParts ([], [], []) parts) s) (\<lambda>(initial, any, final) s.
                if rd_ok s then (Some (substringNode attr initial any final), s)
                else (None, s))))) r)
      else (None, r))"
| "decodeChildren children r =
     (if atEnd r then if rd_ok r then (Some children, r) else (None, r)
      else rbind (decodeNode r) (\<lambda>child r. decodeChildren (children @ [child]) r))"
  by pat_completeness auto

lemma within_eq_Some: "within m r = (Some v, r') \<longleftrightarrow> fst m = Some v \<and> r' = r"
  by (auto simp: within_def)

lemma peekTag_wf: "peekTag r \<noteq> 0 \<Longrightarrow> \<not> atEnd r"
  by (auto simp: peekTag_def atEnd_def split: if_splits)

lemma readConstructed_remaining:
  assumes "readConstructed tag r = (Some inner, r')" and "\<not> atEnd r"
  shows "remaining inner < remaining r"
  using readConstructed_inner [OF assms(1) not_atEnd_wf [OF assms(2)]]
  by (simp add: remaining_def)

text \<open>Whatever the recursive calls return, the outer reader moves past one tag and length.\<close>

lemma decodeNode_progress:
  assumes dom: "decodeNode_decodeChildren_dom (Inl r)"
    and "decodeNode r = (Some n, r')" and "rd_wf r"
  shows "rd_wf r' \<and> rd_data r' = rd_data r \<and> rd_offset r + 2 \<le> rd_offset r'"
proof -
  have "\<exists>tag x. readConstructed tag r = (Some x, r') \<or>
      (\<exists>s. readOctetStringTag tag r = (Some s, r'))"
    using assms(2) by (subst (asm) decodeNode.psimps [OF dom])
      (auto simp: Let_def rbind_eq_Some within_eq_Some split: if_splits)
  then show ?thesis
    using advancesD [OF advances_readConstructed \<open>rd_wf r\<close>]
      advancesD [OF advances_readOctetStringTag \<open>rd_wf r\<close>] by blast
qed

lemma decodeNode_remaining:
  assumes "decodeNode_decodeChildren_dom (Inl r)" and "decodeNode r = (Some n, r')"
    and "\<not> atEnd r"
  shows "remaining r' < remaining r"
  using decodeNode_progress [OF assms(1,2) not_atEnd_wf [OF assms(3)]] assms(3)
  by (auto simp: remaining_def atEnd_def)

termination decodeNode
  by (relation "measure (\<lambda>x. case x of
      Inl r \<Rightarrow> 2 * remaining r | Inr (cs, r) \<Rightarrow> 2 * remaining r + 1)")
     (auto dest!: readConstructed_remaining [OF _ peekTag_wf] dest: decodeNode_remaining)

declare decodeNode.simps [simp del] decodeChildren.simps [simp del]

section \<open>The class\<close>

definition parse :: "string \<Rightarrow> SearchFilter" where
  "parse t =
     (case parseFilter t 0 of
        None \<Rightarrow> \<lparr>sf_text = t, sf_valid = False, sf_root = defaultNode\<rparr>
      | Some (root, pos) \<Rightarrow>
          \<lparr>sf_text = t, sf_valid = (skipSpace t pos = length t), sf_root = root\<rparr>)"

definition present :: "string \<Rightarrow> SearchFilter" where
  "present attribute =
     \<lparr>sf_text = ''('' @ attribute @ ''=*)'', sf_valid = True, sf_root = presentNode attribute\<rparr>"

definition equality :: "string \<Rightarrow> string \<Rightarrow> SearchFilter" where
  "equality attribute val =
     \<lparr>sf_text = ''('' @ attribute @ ''='' @ val @ '')'', sf_valid = True,
      sf_root = equalityNode attribute val\<rparr>"

definition allFilter :: SearchFilter where
  "allFilter = \<lparr>sf_text = ''(objectClass=*)'', sf_valid = True, sf_root = defaultNode\<rparr>"

definition matches :: "SearchFilter \<Rightarrow> DirectoryEntry \<Rightarrow> bool" where
  "matches f entry \<longleftrightarrow> sf_valid f \<and> nodeMatches (sf_root f) entry"

definition encodeBer :: "SearchFilter \<Rightarrow> bytes" where
  "encodeBer f =
     (if sf_valid f then encodeNode [] (sf_root f)
      else encodeNode [] (presentNode ''objectClass''))"

definition decodeBer :: "BerReader \<Rightarrow> SearchFilter reading" where
  "decodeBer r =
     rbind (decodeNode r) (\<lambda>root r.
       if rd_ok r then (Some \<lparr>sf_text = ''(decoded)'', sf_valid = True, sf_root = root\<rparr>, r)
       else (None, r))"

section \<open>Substring matching\<close>

text \<open>The greedy scan decides whether the value splits into the initial part, the inner parts in
  order without overlap, and the final part.\<close>

fun splits_any :: "string list \<Rightarrow> string \<Rightarrow> string \<Rightarrow> bool" where
  "splits_any [] final s \<longleftrightarrow> suffix final s"
| "splits_any (a # as) final s \<longleftrightarrow> (\<exists>u v. s = u @ a @ v \<and> splits_any as final v)"

definition substringSpec :: "string \<Rightarrow> string list \<Rightarrow> string \<Rightarrow> string \<Rightarrow> bool" where
  "substringSpec initial any final s \<longleftrightarrow> (\<exists>s'. s = initial @ s' \<and> splits_any any final s')"

lemma splits_any_mono: "splits_any as final v \<Longrightarrow> splits_any as final (w @ v)"
proof (cases as)
  case (Cons a as')
  moreover assume "splits_any as final v"
  ultimately obtain u v' where "v = u @ a @ v'" "splits_any as' final v'" by auto
  then have "w @ v = (w @ u) @ a @ v' \<and> splits_any as' final v'" by simp
  with Cons show ?thesis by (simp only: splits_any.simps) blast
qed (auto intro: suffix_appendI)

text \<open>Taking the first occurrence is enough.\<close>

lemma drop_add: "drop (m + n) xs = drop n (drop m xs)"
  by (simp add: add.commute)

lemma splits_any_first:
  assumes "pos \<le> length hay"
  shows "splits_any (a # as) final (drop pos hay) \<longleftrightarrow>
    (case find_str a hay pos of None \<Rightarrow> False
     | Some i \<Rightarrow> splits_any as final (drop (i + length a) hay))" (is "?split \<longleftrightarrow> ?scan")
proof
  assume ?split
  then obtain u v where uv: "drop pos hay = u @ a @ v" and v: "splits_any as final v" by auto
  define j where "j = pos + length u"
  from uv have "length (drop pos hay) = length (u @ a @ v)" by simp
  with assms have len: "j + length a \<le> length hay" by (simp add: j_def)
  from uv have j: "drop j hay = a @ v" by (simp add: j_def drop_add)
  obtain i where i: "find_str a hay pos = Some i" "i \<le> j"
    using find_str_least [of a j hay pos] j len by (auto simp: j_def)
  have "v = drop (j + length a) hay" by (simp add: drop_add j)
  also have "j + length a = (i + length a) + (j - i)" using i(2) by simp
  finally have "v = drop (j - i) (drop (i + length a) hay)" by (simp only: drop_add)
  then have "drop (i + length a) hay = take (j - i) (drop (i + length a) hay) @ v"
    by (simp only: append_take_drop_id)
  with splits_any_mono [OF v, of "take (j - i) (drop (i + length a) hay)"] i(1)
  show ?scan by simp
next
  assume ?scan
  then obtain i where i: "find_str a hay pos = Some i"
    and rest: "splits_any as final (drop (i + length a) hay)" by (auto split: option.splits)
  from find_str_Some [OF i] have "pos \<le> i" and a: "take (length a) (drop i hay) = a" by auto
  have "drop pos hay = take (i - pos) (drop pos hay) @ drop (i - pos) (drop pos hay)"
    by (simp only: append_take_drop_id)
  also have "drop (i - pos) (drop pos hay) = drop i hay" using \<open>pos \<le> i\<close> by simp
  also have "drop i hay = a @ drop (i + length a) hay"
    using append_take_drop_id [of "length a" "drop i hay"] by (simp only: a drop_add)
  finally show ?split using rest by auto
qed

lemma anyScan_spec:
  "pos \<le> length hay \<Longrightarrow>
     splits_any (map toLowerAscii as) final (drop pos hay) \<longleftrightarrow>
       (case anyScan hay as pos of None \<Rightarrow> False
        | Some q \<Rightarrow> q \<le> length hay \<and> suffix final (drop q hay))"
proof (induction as arbitrary: pos)
  case (Cons a as)
  show ?case
  proof (cases "find_str (toLowerAscii a) hay pos")
    case None
    with splits_any_first [OF Cons.prems, of "toLowerAscii a"] show ?thesis by simp
  next
    case (Some i)
    with find_str_Some [OF Some] Cons.IH [of "i + length a"]
      splits_any_first [OF Cons.prems, of "toLowerAscii a"]
    show ?thesis by simp
  qed
qed simp

lemma anyScan_le: "anyScan hay as pos = Some q \<Longrightarrow> pos \<le> length hay \<Longrightarrow> q \<le> length hay"
  by (induction as arbitrary: pos) (auto simp: Let_def split: option.splits dest: find_str_Some)

lemma suffix_iff_drop: "suffix t u \<longleftrightarrow> length t \<le> length u \<and> drop (length u - length t) u = t"
  by (metis suffix_length_le append_take_drop_id diff_diff_cancel length_drop suffix_def suffix_take
      append_eq_append_conv)

lemma suffix_drop_iff:
  "q \<le> length s \<Longrightarrow> suffix t (drop q s) \<longleftrightarrow>
     \<not> length s < q + length t \<and> drop (length s - length t) s = t"
  by (auto simp: suffix_iff_drop [of t "drop q s"] le_diff_conv2 not_less add.commute
      diff_diff_left le_add_diff_inverse2)

lemma substringMatches_spec:
  "substringMatches s node \<longleftrightarrow>
     substringSpec (toLowerAscii (fn_initial node)) (map toLowerAscii (fn_any node))
       (toLowerAscii (fn_final node)) (toLowerAscii s)"
proof -
  let ?i = "toLowerAscii (fn_initial node)" and ?h = "toLowerAscii s"
  let ?any = "map toLowerAscii (fn_any node)" and ?f = "toLowerAscii (fn_final node)"
  show ?thesis
  proof (cases "length ?i \<le> length ?h \<and> take (length ?i) ?h = ?i")
    case True
    then have "?h = ?i @ drop (length ?i) ?h" by (metis append_take_drop_id)
    then have "substringSpec ?i ?any ?f ?h \<longleftrightarrow> splits_any ?any ?f (drop (length ?i) ?h)"
      unfolding substringSpec_def by (metis append_eq_conv_conj)
    also have "\<dots> \<longleftrightarrow> substringMatches s node"
      using True anyScan_spec [of "length ?i" ?h "fn_any node" ?f]
        anyScan_le [of ?h "fn_any node" "length ?i"]
      by (auto simp: substringMatches_def Let_def suffix_drop_iff split: option.splits)
    finally show ?thesis by simp
  next
    case False
    then have "\<not> substringSpec ?i ?any ?f ?h" unfolding substringSpec_def by (metis append_eq_conv_conj length_append le_add1)
    moreover from False have "\<not> substringMatches s node"
      by (auto simp: substringMatches_def Let_def)
    ultimately show ?thesis by simp
  qed
qed

section \<open>The BER round trip\<close>

lemma encodeNode_append: "encodeNode w n = w @ encodeNode [] n"
  by (cases n) (simp add: write_simps Let_def split: FilterType.splits)

lemma foldl_encodeNode: "foldl encodeNode w cs = w @ concat (map (encodeNode []) cs)"
proof (induction cs arbitrary: w)
  case (Cons c cs)
  then show ?case by (simp add: encodeNode_append [of w c])
qed simp

lemma foldl_any:
  "foldl (\<lambda>w part. writeOctetStringTag w tag part) w ps =
     w @ concat (map (\<lambda>p. tlv tag (bytes_of p)) ps)"
  by (induction ps arbitrary: w) (simp_all add: write_simps)

text \<open>The trees a decoder produces: only the members of the node's kind are set, a negation has
  one child, and neither of the two constants occurs.\<close>

fun node_normal :: "FilterNode \<Rightarrow> bool" where
  "node_normal (FilterNode ty attribute val children initial any final) =
     (case ty of
        And \<Rightarrow> attribute = [] \<and> val = [] \<and> initial = [] \<and> any = [] \<and> final = [] \<and>
          (\<forall>c \<in> set children. node_normal c)
      | Or \<Rightarrow> attribute = [] \<and> val = [] \<and> initial = [] \<and> any = [] \<and> final = [] \<and>
          (\<forall>c \<in> set children. node_normal c)
      | NotF \<Rightarrow> attribute = [] \<and> val = [] \<and> initial = [] \<and> any = [] \<and> final = [] \<and>
          length children = 1 \<and> (\<forall>c \<in> set children. node_normal c)
      | Present \<Rightarrow> val = [] \<and> children = [] \<and> initial = [] \<and> any = [] \<and> final = []
      | Equality \<Rightarrow> children = [] \<and> initial = [] \<and> any = [] \<and> final = []
      | Substring \<Rightarrow> val = [] \<and> children = []
      | TrueF \<Rightarrow> False
      | FalseF \<Rightarrow> False)"

lemma rest_tlv: "rd_wf r \<Longrightarrow> rest r = tlv tag c @ ys \<Longrightarrow> peekTag r = tag \<and> \<not> atEnd r"
  by (simp add: tlv_def rest_nonempty)

lemma parses_tagged:
  assumes "\<And>r. rd_wf r \<Longrightarrow> \<not> atEnd r \<Longrightarrow> peekTag r = tag \<Longrightarrow> p r = q r" and "parses q (tlv tag c) v"
  shows "parses p (tlv tag c) v"
proof (rule parsesI)
  fix r ys assume r: "rd_wf r" "rest r = tlv tag c @ ys"
  then have "p r = q r" using assms(1) rest_tlv by blast
  with assms(2) r show "\<exists>r'. p r = (Some v, r') \<and> rd_wf r' \<and> rest r' = ys"
    by (auto elim: parsesE)
qed

lemma parses_within:
  assumes "length c < 2 ^ 32" and "decodes q c v"
  shows "parses (\<lambda>r. rbind (readConstructed tag r) (\<lambda>inner r. within (q inner) r)) (tlv tag c) v"
proof (rule parses_bind0 [OF parses_readConstructed [OF assms(1)]])
  obtain s where "q (mkReader c) = (Some v, s)"
    using decodesE [OF assms(2), of "mkReader c"] by auto
  then show "parses (within (q (mkReader c))) [] v"
    by (simp add: within_def [abs_def] parses_return)
qed

lemma decodes_okD: "decodes (\<lambda>r. if rd_ok r then (Some v, r) else (None, r)) [] v"
  by (auto simp: decodes_def rd_wf_def)

lemma decodes_bind_nil:
  "parses p bs a \<Longrightarrow> decodes (f a) [] v \<Longrightarrow> decodes (\<lambda>r. rbind (p r) f) bs v"
  using decodes_bind [where cs = "[]"] by fastforce

lemma advances_decodeNode2: "advances 2 decodeNode"
proof (rule advancesI)
  fix r n r' assume "rd_wf r" and res: "decodeNode r = (Some n, r')"
  have "\<exists>tag x. readConstructed tag r = (Some x, r') \<or>
      (\<exists>s. readOctetStringTag tag r = (Some s, r'))"
    using res by (subst (asm) decodeNode.simps [of r])
      (auto simp: Let_def rbind_eq_Some within_eq_Some split: if_splits)
  then show "rd_wf r' \<and> rd_data r' = rd_data r \<and> rd_offset r + 2 \<le> rd_offset r'"
    using advancesD [OF advances_readConstructed \<open>rd_wf r\<close>]
      advancesD [OF advances_readOctetStringTag \<open>rd_wf r\<close>] by blast
qed

lemma advances_decodeNode [advances_intros]: "advances 1 decodeNode"
  by (rule advances_mono [OF advances_decodeNode2]) simp

interpretation filter_children: item_loop decodeNode decodeChildren
  by unfold_locales (rule advances_decodeNode, rule decodeChildren.simps)

lemma decodes_decodeParts_tail:
  assumes "\<And>p. p \<in> set any \<Longrightarrow> length p < 2 ^ 32" and "length final < 2 ^ 32"
  shows "decodes (decodeParts (i, as, []))
     (concat (map (\<lambda>p. tlv kBerSubstringAny (bytes_of p)) any) @
      (if final \<noteq> [] then tlv kBerSubstringFinal (bytes_of final) else []))
     (i, as @ any, final)"
  using assms(1)
proof (induction any arbitrary: as)
  case Nil
  show ?case
  proof (rule decodesI)
    fix r assume r: "rd_wf r" "rest r = concat (map (\<lambda>p. tlv kBerSubstringAny (bytes_of p)) []) @
      (if final \<noteq> [] then tlv kBerSubstringFinal (bytes_of final) else [])"
    have stop: "\<exists>r'. decodeParts out s = (Some out, r') \<and> rd_wf r' \<and> rest r' = []"
      if "rd_wf s" "rest s = []" for s out
      using that rest_empty [of s] by (simp add: decodeParts.simps rd_wf_def)
    show "\<exists>r'. decodeParts (i, as, []) r = (Some (i, as @ [], final), r') \<and> rd_wf r' \<and> rest r' = []"
    proof (cases "final = []")
      case True
      with r stop show ?thesis by simp
    next
      case False
      with r have rest: "rest r = tlv kBerSubstringFinal (bytes_of final) @ []" by simp
      with parses_readOctetStringTag [OF assms(2), of kBerSubstringFinal] r(1)
      obtain s where s: "readOctetStringTag kBerSubstringFinal r = (Some final, s)" "rd_wf s" "rest s = []"
        by (rule parsesE)
      with rest_tlv [OF r(1) rest] stop [of s "(i, as, final)"] show ?thesis
        by (simp add: decodeParts.simps [of _ r])
    qed
  qed
next
  case (Cons p any)
  show ?case
  proof (rule decodesI)
    fix r assume r: "rd_wf r" "rest r = concat (map (\<lambda>p. tlv kBerSubstringAny (bytes_of p)) (p # any)) @
      (if final \<noteq> [] then tlv kBerSubstringFinal (bytes_of final) else [])" (is "_ = concat (map ?e _) @ ?f")
    then have rest: "rest r = tlv kBerSubstringAny (bytes_of p) @ (concat (map ?e any) @ ?f)" by simp
    have "length p < 2 ^ 32" using Cons.prems by simp
    from parses_readOctetStringTag [OF this, of kBerSubstringAny] r(1) rest
    obtain s where s: "readOctetStringTag kBerSubstringAny r = (Some p, s)" "rd_wf s"
      "rest s = concat (map ?e any) @ ?f" by (rule parsesE)
    with rest_tlv [OF r(1) rest] decodesE [OF Cons.IH [of "as @ [p]"] s(2,3)] Cons.prems
    show "\<exists>r'. decodeParts (i, as, []) r = (Some (i, as @ p # any, final), r') \<and> rd_wf r' \<and> rest r' = []"
      by (simp add: decodeParts.simps [of _ r]) metis
  qed
qed

lemma decodes_decodeParts:
  assumes "\<And>p. p \<in> set any \<Longrightarrow> length p < 2 ^ 32" and "length final < 2 ^ 32" and "length initial < 2 ^ 32"
  shows "decodes (decodeParts ([], [], []))
     ((if initial \<noteq> [] then tlv kBerSubstringInitial (bytes_of initial) else []) @
      concat (map (\<lambda>p. tlv kBerSubstringAny (bytes_of p)) any) @
      (if final \<noteq> [] then tlv kBerSubstringFinal (bytes_of final) else []))
     (initial, any, final)" (is "decodes _ (?i @ ?rest) _")
proof (cases "initial = []")
  case True
  then show ?thesis using decodes_decodeParts_tail [OF assms(1,2), of any "[]" "[]"] by simp
next
  case False
  show ?thesis
  proof (rule decodesI)
    fix r assume r: "rd_wf r" "rest r = ?i @ ?rest"
    with False have rest: "rest r = tlv kBerSubstringInitial (bytes_of initial) @ ?rest" by simp
    from parses_readOctetStringTag [OF assms(3), of kBerSubstringInitial] r(1) this
    obtain s where s: "readOctetStringTag kBerSubstringInitial r = (Some initial, s)" "rd_wf s"
      "rest s = ?rest" by (rule parsesE)
    with rest_tlv [OF r(1) rest]
      decodesE [OF decodes_decodeParts_tail [OF assms(1,2), of any initial "[]"] s(2,3)]
    show "\<exists>r'. decodeParts ([], [], []) r = (Some (initial, any, final), r') \<and> rd_wf r' \<and> rest r' = []"
      by (simp add: decodeParts.simps [of _ r]) metis
  qed
qed

text \<open>The equations of the encoder and of the decoder in front of each tag.\<close>

lemma encode_nodes:
  "encodeNode [] (listNode And cs) = tlv kBerFilterAnd (concat (map (encodeNode []) cs))"
  "encodeNode [] (listNode Or cs) = tlv kBerFilterOr (concat (map (encodeNode []) cs))"
  "encodeNode [] (listNode NotF [c]) = tlv kBerFilterNot (encodeNode [] c)"
  "encodeNode [] (presentNode a) = tlv kBerFilterPresent (bytes_of a)"
  "encodeNode [] (equalityNode a v) = tlv kBerFilterEquality
     (tlv kBerOctetString (bytes_of a) @ tlv kBerOctetString (bytes_of v))"
  "encodeNode [] (substringNode a i as f) = tlv kBerFilterSubstrings
     (tlv kBerOctetString (bytes_of a) @ tlv kBerSequence
       ((if i \<noteq> [] then tlv kBerSubstringInitial (bytes_of i) else []) @
        concat (map (\<lambda>p. tlv kBerSubstringAny (bytes_of p)) as) @
        (if f \<noteq> [] then tlv kBerSubstringFinal (bytes_of f) else [])))"
  by (simp_all add: listNode_def presentNode_def equalityNode_def substringNode_def
      foldl_encodeNode foldl_any write_simps Let_def)

lemma encodeNode_nonempty: "encodeNode [] n \<noteq> []"
  by (cases n) (simp add: write_simps Let_def split: FilterType.splits)

lemma decode_nodes:
  "peekTag r = kBerFilterAnd \<Longrightarrow> decodeNode r =
     rbind (readConstructed kBerFilterAnd r) (\<lambda>inner r.
       within (rbind (decodeChildren [] inner) (\<lambda>cs s. (Some (listNode And cs), s))) r)"
  "peekTag r = kBerFilterOr \<Longrightarrow> decodeNode r =
     rbind (readConstructed kBerFilterOr r) (\<lambda>inner r.
       within (rbind (decodeChildren [] inner) (\<lambda>cs s. (Some (listNode Or cs), s))) r)"
  "peekTag r = kBerFilterNot \<Longrightarrow> decodeNode r =
     rbind (readConstructed kBerFilterNot r) (\<lambda>inner r.
       within (rbind (decodeNode inner)
         (\<lambda>c s. if rd_ok s then (Some (listNode NotF [c]), s) else (None, s))) r)"
  "peekTag r = kBerFilterPresent \<Longrightarrow> decodeNode r =
     rbind (readOctetStringTag kBerFilterPresent r) (\<lambda>attr r. (Some (presentNode attr), r))"
  by (simp_all add: decodeNode.simps [of r] Let_def)

lemma parses_list_node:
  assumes tag: "ty = And \<and> tag = kBerFilterAnd \<or> ty = Or \<and> tag = kBerFilterOr"
    and cs: "\<And>c. c \<in> set cs \<Longrightarrow> parses decodeNode (encodeNode [] c) c"
    and len: "length (concat (map (encodeNode []) cs)) < 2 ^ 32"
  shows "parses decodeNode (tlv tag (concat (map (encodeNode []) cs))) (listNode ty cs)"
proof (rule parses_tagged)
  have "decodes (decodeChildren []) (concat (map (encodeNode []) cs)) ([] @ cs)"
    by (rule filter_children.loop_decodes [OF cs encodeNode_nonempty])
  then have "decodes (\<lambda>r. rbind (decodeChildren [] r) (\<lambda>cs s. (Some (listNode ty cs), s)))
      (concat (map (encodeNode []) cs)) (listNode ty cs)"
    by (intro decodes_bind0) simp_all
  then show "parses (\<lambda>r. rbind (readConstructed tag r) (\<lambda>inner r.
       within (rbind (decodeChildren [] inner) (\<lambda>cs s. (Some (listNode ty cs), s))) r))
       (tlv tag (concat (map (encodeNode []) cs))) (listNode ty cs)"
    by (rule parses_within [OF len])
qed (use tag decode_nodes(1,2) in auto)

lemma parses_equality_node:
  assumes "length a < 2 ^ 32" and "length v < 2 ^ 32"
    and "length (tlv kBerOctetString (bytes_of a) @ tlv kBerOctetString (bytes_of v)) < 2 ^ 32"
  shows "parses decodeNode (encodeNode [] (equalityNode a v)) (equalityNode a v)"
  unfolding encode_nodes
  by (rule parses_tagged, simp add: decodeNode.simps Let_def, rule parses_within [OF assms(3)],
      rule decodes_bind [OF parses_readOctetString [OF assms(1)]],
      rule decodes_bind_nil [OF parses_readOctetString [OF assms(2)]], rule decodes_okD)

lemma length_member_concat:
  "x \<in> set xs \<Longrightarrow> length (f x) \<le> length (concat (map f xs))"
  by (induction xs) auto

lemma parses_substring_node:
  assumes len: "length (encodeNode [] (substringNode a i as f)) < 2 ^ 32"
  shows "parses decodeNode (encodeNode [] (substringNode a i as f)) (substringNode a i as f)"
proof -
  let ?any = "concat (map (\<lambda>p. tlv kBerSubstringAny (bytes_of p)) as)"
  let ?parts = "(if i \<noteq> [] then tlv kBerSubstringInitial (bytes_of i) else []) @ ?any @
      (if f \<noteq> [] then tlv kBerSubstringFinal (bytes_of f) else [])"
  let ?c = "tlv kBerOctetString (bytes_of a) @ tlv kBerSequence ?parts"
  from len have c: "length ?c < 2 ^ 32"
    unfolding encode_nodes using length_tlv_ge [of ?c kBerFilterSubstrings] by (rule order.strict_trans1 [rotated])
  then have parts: "length ?parts < 2 ^ 32"
    using length_tlv_ge [of ?parts kBerSequence] by (simp only: length_append)
  have a: "length a < 2 ^ 32"
    using c length_tlv_ge [of "bytes_of a" kBerOctetString] by simp
  have i: "length i < 2 ^ 32" using parts length_tlv_ge [of "bytes_of i" kBerSubstringInitial]
    by (cases "i = []") simp_all
  have f: "length f < 2 ^ 32" using parts length_tlv_ge [of "bytes_of f" kBerSubstringFinal]
    by (cases "f = []") simp_all
  have as: "length p < 2 ^ 32" if "p \<in> set as" for p
  proof -
    from that have "length (tlv kBerSubstringAny (bytes_of p)) \<le> length ?any"
      by (rule length_member_concat)
    with parts length_tlv_ge [of "bytes_of p" kBerSubstringAny] show ?thesis
      by (simp only: length_append length_bytes_of)
  qed
  have "decodes (\<lambda>r. rbind (readOctetString r) (\<lambda>attr s.
            rbind (readConstructed kBerSequence s) (\<lambda>parts s.
              rbind (within (decodeParts ([], [], []) parts) s) (\<lambda>(initial, any, final) s.
                if rd_ok s then (Some (substringNode attr initial any final), s)
                else (None, s))))) ?c (substringNode a i as f)"
  proof (rule decodes_bind [OF parses_readOctetString [OF a]],
         rule decodes_bind_nil [OF parses_readConstructed [OF parts]])
    obtain s where "decodeParts ([], [], []) (mkReader ?parts) = (Some (i, as, f), s)"
      using decodesE [OF decodes_decodeParts [OF as f i], where r = "mkReader ?parts"] by auto
    then show "decodes (\<lambda>s. rbind (within (decodeParts ([], [], []) (mkReader ?parts)) s)
        (\<lambda>(initial, any, final) s. if rd_ok s then (Some (substringNode a initial any final), s)
           else (None, s))) [] (substringNode a i as f)"
      using decodes_okD by (simp add: within_def)
  qed
  then show ?thesis
    unfolding encode_nodes
    by (intro parses_tagged [OF _ parses_within [OF c]]) (simp_all add: decodeNode.simps Let_def)
qed

lemma parses_decodeNode:
  "node_normal n \<Longrightarrow> length (encodeNode [] n) < 2 ^ 32 \<Longrightarrow> parses decodeNode (encodeNode [] n) n"
proof (induction n)
  case (FilterNode ty attr val cs i as f)
  have child: "parses decodeNode (encodeNode [] c) c"
    if "c \<in> set cs" "\<forall>c \<in> set cs. node_normal c" "length (concat (map (encodeNode []) cs)) < 2 ^ 32" for c
    using FilterNode.IH that length_member_concat [OF that(1), of "encodeNode []"]
    by (meson order.strict_trans1)
  note lens = order.strict_trans1 [OF length_tlv_ge]
  show ?case
  proof (cases ty)
    case And
    with FilterNode.prems have n: "FilterNode ty attr val cs i as f = listNode And cs"
      and "\<forall>c \<in> set cs. node_normal c" by (simp_all add: listNode_def)
    with FilterNode.prems(2) child show ?thesis
      unfolding n encode_nodes by (intro parses_list_node) (auto dest: lens)
  next
    case Or
    with FilterNode.prems have n: "FilterNode ty attr val cs i as f = listNode Or cs"
      and "\<forall>c \<in> set cs. node_normal c" by (simp_all add: listNode_def)
    with FilterNode.prems(2) child show ?thesis
      unfolding n encode_nodes by (intro parses_list_node) (auto dest: lens)
  next
    case NotF
    with FilterNode.prems(1) obtain c where n: "FilterNode ty attr val cs i as f = listNode NotF [c]"
      and cs: "cs = [c]" and c: "node_normal c" by (auto simp: listNode_def length_Suc_conv)
    from FilterNode.prems(2) have len: "length (encodeNode [] c) < 2 ^ 32"
      unfolding n encode_nodes by (rule lens)
    have "parses decodeNode (encodeNode [] c) c" using child [of c] cs c len by simp
    then have "decodes (\<lambda>r. rbind (decodeNode r)
        (\<lambda>c s. if rd_ok s then (Some (listNode NotF [c]), s) else (None, s)))
        (encodeNode [] c) (listNode NotF [c])"
      by (rule decodes_bind_nil) (rule decodes_okD)
    then show ?thesis
      unfolding n encode_nodes by (intro parses_tagged [OF decode_nodes(3) parses_within [OF len]])
  next
    case Present
    with FilterNode.prems(1) have n: "FilterNode ty attr val cs i as f = presentNode attr"
      by (simp add: presentNode_def)
    from FilterNode.prems(2) have "length attr < 2 ^ 32"
      unfolding n encode_nodes using length_tlv_ge [of "bytes_of attr" kBerFilterPresent] by simp
    then show ?thesis
      unfolding n encode_nodes
      by (intro parses_tagged [OF decode_nodes(4)] parses_bind0 [OF parses_readOctetStringTag] parses_return)
  next
    case Equality
    with FilterNode.prems(1) have n: "FilterNode ty attr val cs i as f = equalityNode attr val"
      by (simp add: equalityNode_def)
    from FilterNode.prems(2)
    have len: "length (tlv kBerOctetString (bytes_of attr) @ tlv kBerOctetString (bytes_of val)) < 2 ^ 32"
      unfolding n encode_nodes by (rule lens)
    with length_tlv_ge [of "bytes_of attr" kBerOctetString] length_tlv_ge [of "bytes_of val" kBerOctetString]
    show ?thesis unfolding n by (intro parses_equality_node) simp_all
  next
    case Substring
    with FilterNode.prems(1) have n: "FilterNode ty attr val cs i as f = substringNode attr i as f"
      by (simp add: substringNode_def)
    with FilterNode.prems(2) show ?thesis by (simp only: n parses_substring_node)
  qed (use FilterNode.prems(1) in simp_all)
qed

lemma parses_decodeBer:
  assumes "sf_valid f" and "node_normal (sf_root f)" and "length (encodeBer f) < 2 ^ 32"
  shows "parses decodeBer (encodeBer f) (f\<lparr>sf_text := ''(decoded)''\<rparr>)"
proof -
  have "parses (\<lambda>r. if rd_ok r then (Some \<lparr>sf_text = ''(decoded)'', sf_valid = True, sf_root = n\<rparr>, r)
       else (None, r)) [] \<lparr>sf_text = ''(decoded)'', sf_valid = True, sf_root = n\<rparr>" for n
    by (auto simp: parses_def rd_wf_def)
  with assms show ?thesis
    unfolding decodeBer_def [abs_def] by (cases f) (auto simp: encodeBer_def intro!: parses_bind0 parses_decodeNode)
qed

section \<open>The text round trip\<close>

text \<open>The text of a tree, for names and values that need no escape.\<close>

fun unparse :: "FilterNode \<Rightarrow> string" where
  "unparse (FilterNode ty attribute val children initial any final) =
     (case ty of
        And \<Rightarrow> ''(&'' @ concat (map unparse children) @ '')''
      | Or \<Rightarrow> ''(|'' @ concat (map unparse children) @ '')''
      | NotF \<Rightarrow> ''(!'' @ concat (map unparse children) @ '')''
      | Present \<Rightarrow> ''('' @ attribute @ ''=*)''
      | Equality \<Rightarrow> ''('' @ attribute @ ''='' @ val @ '')''
      | Substring \<Rightarrow>
          ''('' @ attribute @ ''='' @ initial @ concat (map ((#) (CHR ''*'')) any) @ ''*'' @ final @ '')''
      | TrueF \<Rightarrow> ''(objectClass=*)''
      | FalseF \<Rightarrow> ''(!(objectClass=*))'')"

definition plain_name :: "string \<Rightarrow> bool" where
  "plain_name s \<longleftrightarrow> s \<noteq> [] \<and> (\<forall>c \<in> set s. \<not> isspace c \<and> c \<notin> set ''()=&|!'')"

definition plain_value :: "string \<Rightarrow> bool" where
  "plain_value s \<longleftrightarrow> (\<forall>c \<in> set s. c \<noteq> CHR '')'' \<and> c \<noteq> CHR ''*'' \<and> c \<noteq> CHR 0x5C)"

fun node_plain :: "FilterNode \<Rightarrow> bool" where
  "node_plain (FilterNode ty attribute val children initial any final) \<longleftrightarrow>
     (case ty of
        Present \<Rightarrow> plain_name attribute
      | Equality \<Rightarrow> plain_name attribute \<and> plain_value val
      | Substring \<Rightarrow> plain_name attribute \<and> plain_value initial \<and> plain_value final \<and>
          (\<forall>p \<in> set any. p \<noteq> [] \<and> plain_value p) \<and> (initial \<noteq> [] \<or> any \<noteq> [] \<or> final \<noteq> [])
      | TrueF \<Rightarrow> False
      | FalseF \<Rightarrow> False
      | _ \<Rightarrow> children \<noteq> [] \<and> (\<forall>c \<in> set children. node_plain c))"

lemma splitStars_plain:
  "plain_value s \<Longrightarrow> splitStars s cur = [cur @ s]"
  "plain_value s \<Longrightarrow> splitStars (s @ CHR ''*'' # t) cur = (cur @ s) # splitStars t []"
  by (induction s arbitrary: cur) (auto simp: plain_value_def)

lemma splitStars_any:
  assumes "\<forall>p \<in> set any. plain_value p" and "plain_value final"
  shows "splitStars (concat (map (\<lambda>p. p @ ''*'') any) @ final) [] = any @ [final]"
  using assms(1) by (induction any) (simp_all add: splitStars_plain assms(2))

lemma star_shift: "concat (map ((#) (CHR ''*'')) any) @ ''*'' @ s = ''*'' @ concat (map (\<lambda>p. p @ ''*'') any) @ s"
  by (induction any) simp_all

lemma popSpaces_plain: "plain_name s \<Longrightarrow> popSpaces s = s"
  by (cases s rule: rev_cases) (auto simp: popSpaces_def plain_name_def)

text \<open>An item: the name up to the equals sign, the value up to the closing parenthesis.\<close>

lemma parseItem_split:
  assumes "plain_name attr" and "CHR '')'' \<notin> set val"
  shows "parseItem (pre @ attr @ ''='' @ val @ '')'' @ post) (length pre) =
    Some (if val = ''*'' then presentNode attr
          else let parts = splitStars val [] in
            if length parts = 1 then equalityNode attr val
            else substringNode attr (hd parts) (filter (\<lambda>p. p \<noteq> []) (butlast (tl parts))) (last parts),
          length pre + length attr + 1 + length val)"
proof -
  let ?t = "pre @ attr @ ''='' @ val @ '')'' @ post"
  let ?name = "\<lambda>c. c \<noteq> CHR ''='' \<and> c \<noteq> CHR '')'' \<and> c \<noteq> CHR ''(''"
  have "list_all ?name attr" using assms(1) by (auto simp: plain_name_def list_all_iff)
  then have p1: "scan_while ?name ?t (length pre) = length pre + length attr"
    using scan_while_append [of ?name attr "''='' @ val @ '')'' @ post" pre] by simp
  have "list_all (\<lambda>c. c \<noteq> CHR '')'') val" using assms(2) by (auto simp: list_all_iff)
  then have p2: "scan_while (\<lambda>c. c \<noteq> CHR '')'') ?t (Suc (length pre + length attr)) =
      length pre + length attr + 1 + length val"
    using scan_while_append [of "\<lambda>c. c \<noteq> CHR '')''" val "'')'' @ post" "pre @ attr @ ''=''"] by simp
  have "attr \<noteq> []" using assms(1) by (simp add: plain_name_def)
  moreover have "take (length val) (drop (Suc (length pre + length attr)) ?t) = val" by simp
  ultimately show ?thesis
    unfolding parseItem_def Let_def p1 p2
    by (simp add: p2 popSpaces_plain [OF assms(1)] nth_append)
qed

lemma skipSpace_stay:
  "s = [] \<or> \<not> isspace (hd s) \<Longrightarrow> skipSpace (pre @ s) (length pre) = length pre"
  unfolding skipSpace_def by (rule scan_while_stay)

lemma skipSpace_at:
  "p < length t \<Longrightarrow> \<not> isspace (t ! p) \<Longrightarrow> skipSpace t p = p"
  by (simp add: skipSpace_def scan_while.simps)

lemma isspace_punct [simp]:
  "\<not> isspace (CHR ''('')" "\<not> isspace (CHR '')'')" "\<not> isspace (CHR ''&'')"
  "\<not> isspace (CHR ''|'')" "\<not> isspace (CHR ''!'')"
  by (simp_all add: isspace_def)

text \<open>The frame of every filter: an opening parenthesis, a body, a closing one.\<close>

lemma parseFilter_frame:
  assumes "body = c # body'" and "\<not> isspace c"
    and "(if c = CHR ''&'' then
             map_option (\<lambda>(cs, pos). (listNode And cs, pos))
               (parseList (pre @ ''('' @ body @ '')'' @ post) (Suc (Suc (length pre))) [])
           else if c = CHR ''|'' then
             map_option (\<lambda>(cs, pos). (listNode Or cs, pos))
               (parseList (pre @ ''('' @ body @ '')'' @ post) (Suc (Suc (length pre))) [])
           else if c = CHR ''!'' then
             map_option (\<lambda>(c, pos). (listNode NotF [c], pos))
               (parseFilter (pre @ ''('' @ body @ '')'' @ post) (Suc (Suc (length pre))))
           else parseItem (pre @ ''('' @ body @ '')'' @ post) (Suc (length pre))) =
         Some (n, Suc (length pre) + length body)"
  shows "parseFilter (pre @ ''('' @ body @ '')'' @ post) (length pre) =
    Some (n, Suc (Suc (length pre + length body)))"
proof -
  let ?t = "pre @ ''('' @ body @ '')'' @ post"
  have p1: "skipSpace ?t (length pre) = length pre" by (rule skipSpace_at) simp_all
  have p2: "skipSpace ?t (Suc (length pre)) = Suc (length pre)"
    using assms(1,2) by (intro skipSpace_at) (simp_all add: nth_append)
  have c: "?t ! Suc (length pre) = c" using assms(1) by (simp add: nth_append)
  have close: "?t ! (Suc (length pre) + length body) = CHR '')''" by (simp add: nth_append)
  have p3: "skipSpace ?t (Suc (length pre) + length body) = Suc (length pre) + length body"
    by (rule skipSpace_at) (simp, simp only: close isspace_punct not_False_eq_True)
  have first: "?t ! length pre = CHR ''(''" by simp
  have "\<not> length ?t \<le> length pre" "\<not> length ?t \<le> Suc (length pre)"
    "\<not> length ?t \<le> Suc (length pre) + length body" by simp_all
  then show ?thesis
    unfolding parseFilter.simps [of ?t "length pre"] Let_def p1 p2 c assms(3)
    by (simp only: first close p3 option.simps prod.simps simp_thms if_False)
qed

lemma unparse_Cons: "\<exists>rest. unparse n = CHR ''('' # rest"
  by (cases n) (simp split: FilterType.splits)

lemma parseList_unparse:
  assumes "\<And>c pre post. c \<in> set cs \<Longrightarrow>
      parseFilter (pre @ unparse c @ post) (length pre) = Some (c, length pre + length (unparse c))"
    and "acc @ cs \<noteq> []"
  shows "parseList (pre @ concat (map unparse cs) @ '')'' @ post) (length pre) acc =
    Some (acc @ cs, length pre + length (concat (map unparse cs)))"
  using assms
proof (induction cs arbitrary: pre acc)
  case Nil
  then show ?case by (simp add: parseList.simps)
next
  case (Cons c cs)
  let ?t = "pre @ concat (map unparse (c # cs)) @ '')'' @ post"
  obtain rest where c: "unparse c = CHR ''('' # rest" using unparse_Cons by blast
  have "parseFilter ?t (length pre) = Some (c, length pre + length (unparse c))"
    using Cons.prems(1) [of c pre "concat (map unparse cs) @ '')'' @ post"] by simp
  moreover have "length pre < length ?t" "?t ! length pre = CHR ''(''" by (simp_all add: c)
  moreover have "parseList ((pre @ unparse c) @ concat (map unparse cs) @ '')'' @ post)
      (length (pre @ unparse c)) (acc @ [c]) =
      Some ((acc @ [c]) @ cs, length (pre @ unparse c) + length (concat (map unparse cs)))"
    using Cons.prems(1) by (intro Cons.IH) auto
  ultimately show ?case
    by (subst parseList.simps) (simp add: algebra_simps del: length_concat)
qed

lemma plain_name_Cons:
  assumes "plain_name s"
  obtains c s' where "s = c # s'" "\<not> isspace c" "c \<noteq> CHR ''&''" "c \<noteq> CHR ''|''" "c \<noteq> CHR ''!''"
  using assms by (cases s) (auto simp: plain_name_def)

definition itemNode :: "string \<Rightarrow> string \<Rightarrow> FilterNode" where
  "itemNode attr val =
     (if val = ''*'' then presentNode attr
      else let parts = splitStars val [] in
        if length parts = 1 then equalityNode attr val
        else substringNode attr (hd parts) (filter (\<lambda>p. p \<noteq> []) (butlast (tl parts))) (last parts))"

lemma parseFilter_item:
  assumes "plain_name attr" and "CHR '')'' \<notin> set val"
  shows "parseFilter (pre @ ''('' @ (attr @ ''='' @ val) @ '')'' @ post) (length pre) =
    Some (itemNode attr val, Suc (Suc (length pre + length (attr @ ''='' @ val))))"
proof -
  from assms(1) obtain c a' where c: "attr = c # a'" "\<not> isspace c"
    "c \<noteq> CHR ''&''" "c \<noteq> CHR ''|''" "c \<noteq> CHR ''!''"
    by (rule plain_name_Cons)
  from parseItem_split [OF assms, of "pre @ ''(''" post]
  have "parseItem (pre @ ''('' @ (attr @ ''='' @ val) @ '')'' @ post) (Suc (length pre)) =
      Some (itemNode attr val, Suc (length pre) + length (attr @ ''='' @ val))"
    by (simp add: itemNode_def)
  with c show ?thesis
    by (intro parseFilter_frame [of _ c "a' @ ''='' @ val"]) (simp_all only: append_Cons if_False not_False_eq_True)
qed

lemma itemNode_present: "itemNode attr ''*'' = presentNode attr"
  by (simp add: itemNode_def)

lemma itemNode_equality:
  assumes "plain_value val"
  shows "itemNode attr val = equalityNode attr val"
proof -
  have "val \<noteq> ''*''"
  proof
    assume "val = ''*''"
    then have "CHR ''*'' \<in> set val" by simp
    with assms show False unfolding plain_value_def by blast
  qed
  with splitStars_plain(1) [OF assms, of "[]"] show ?thesis by (simp add: itemNode_def)
qed

lemma itemNode_substring:
  assumes v: "plain_value i" "plain_value f" "\<forall>p \<in> set as. p \<noteq> [] \<and> plain_value p"
    and ne: "i \<noteq> [] \<or> as \<noteq> [] \<or> f \<noteq> []"
  shows "itemNode attr (i @ ''*'' @ concat (map (\<lambda>p. p @ ''*'') as) @ f) = substringNode attr i as f"
proof -
  let ?v = "i @ ''*'' @ concat (map (\<lambda>p. p @ ''*'') as) @ f"
  have split: "splitStars ?v [] = i # as @ [f]"
    using splitStars_plain(2) [OF v(1)] splitStars_any [OF _ v(2), of as] v(3) by simp
  have "?v \<noteq> ''*''"
  proof
    assume eq: "?v = ''*''"
    with split have "i # as @ [f] = [[], []]" by simp
    with ne show False by (cases as) simp_all
  qed
  moreover have "filter (\<lambda>p. p \<noteq> []) as = as" using v(3) by (simp add: filter_id_conv)
  ultimately show ?thesis
    using split by (simp only: itemNode_def Let_def if_False) simp
qed

text \<open>A tree that is printed from plain names and values is read back, whatever surrounds
  it.\<close>

lemma parseFilter_unparse:
  "node_normal n \<Longrightarrow> node_plain n \<Longrightarrow>
     parseFilter (pre @ unparse n @ post) (length pre) = Some (n, length pre + length (unparse n))"
proof (induction n arbitrary: pre post)
  case (FilterNode ty attr val cs i as f)
  let ?n = "FilterNode ty attr val cs i as f"
  have list: "parseList ((pre @ ''('' @ [q]) @ concat (map unparse cs) @ '')'' @ post)
       (length (pre @ ''('' @ [q])) [] =
     Some ([] @ cs, length (pre @ ''('' @ [q]) + length (concat (map unparse cs)))"
    if "\<forall>c \<in> set cs. node_normal c" "\<forall>c \<in> set cs. node_plain c" "cs \<noteq> []" for q
    using that FilterNode.IH by (intro parseList_unparse) auto
  show ?case
  proof (cases ty)
    case And
    with FilterNode.prems have n: "?n = listNode And cs"
      and u: "unparse ?n = ''('' @ (CHR ''&'' # concat (map unparse cs)) @ '')''"
      and cs: "\<forall>c \<in> set cs. node_normal c" "\<forall>c \<in> set cs. node_plain c" "cs \<noteq> []"
      by (simp_all add: listNode_def)
    have "parseFilter (pre @ ''('' @ (CHR ''&'' # concat (map unparse cs)) @ '')'' @ post) (length pre) =
      Some (listNode And cs, Suc (Suc (length pre + length (CHR ''&'' # concat (map unparse cs)))))"
      using list [OF cs, of "CHR ''&''"]
      by (intro parseFilter_frame [OF refl]) (simp_all del: length_concat)
    then show ?thesis unfolding n [symmetric] u by simp
  next
    case Or
    with FilterNode.prems have n: "?n = listNode Or cs"
      and u: "unparse ?n = ''('' @ (CHR ''|'' # concat (map unparse cs)) @ '')''"
      and cs: "\<forall>c \<in> set cs. node_normal c" "\<forall>c \<in> set cs. node_plain c" "cs \<noteq> []"
      by (simp_all add: listNode_def)
    have "parseFilter (pre @ ''('' @ (CHR ''|'' # concat (map unparse cs)) @ '')'' @ post) (length pre) =
      Some (listNode Or cs, Suc (Suc (length pre + length (CHR ''|'' # concat (map unparse cs)))))"
      using list [OF cs, of "CHR ''|''"]
      by (intro parseFilter_frame [OF refl]) (simp_all del: length_concat)
    then show ?thesis unfolding n [symmetric] u by simp
  next
    case NotF
    with FilterNode.prems obtain c where n: "?n = listNode NotF [c]" and cs: "cs = [c]"
      and u: "unparse ?n = ''('' @ (CHR ''!'' # unparse c) @ '')''" and c: "node_normal c" "node_plain c"
      by (auto simp: listNode_def length_Suc_conv)
    have "parseFilter (pre @ ''('' @ (CHR ''!'' # unparse c) @ '')'' @ post) (length pre) =
      Some (listNode NotF [c], Suc (Suc (length pre + length (CHR ''!'' # unparse c))))"
      using FilterNode.IH [of c "pre @ ''(!''" "'')'' @ post"] cs c
      by (intro parseFilter_frame [OF refl]) simp_all
    then show ?thesis unfolding n [symmetric] u by simp
  next
    case Present
    with FilterNode.prems have n: "?n = itemNode attr ''*''" and a: "plain_name attr"
      and u: "unparse ?n = ''('' @ (attr @ ''='' @ ''*'') @ '')''"
      by (simp_all add: presentNode_def itemNode_present)
    from parseFilter_item [OF a, of "''*''" pre post] show ?thesis
      unfolding u by (simp add: n)
  next
    case Equality
    with FilterNode.prems have n: "?n = itemNode attr val" and a: "plain_name attr"
      and u: "unparse ?n = ''('' @ (attr @ ''='' @ val) @ '')''" and v: "plain_value val"
      by (simp_all add: equalityNode_def itemNode_equality)
    from v have "CHR '')'' \<notin> set val" by (auto simp: plain_value_def)
    from parseFilter_item [OF a this, of pre post] show ?thesis
      unfolding u by (simp add: n)
  next
    case Substring
    let ?v = "i @ ''*'' @ concat (map (\<lambda>p. p @ ''*'') as) @ f"
    from Substring FilterNode.prems have a: "plain_name attr"
      and v: "plain_value i" "plain_value f" "\<forall>p \<in> set as. p \<noteq> [] \<and> plain_value p"
        "i \<noteq> [] \<or> as \<noteq> [] \<or> f \<noteq> []"
      and n: "?n = substringNode attr i as f"
      by (simp_all add: substringNode_def)
    have u: "unparse ?n = ''('' @ (attr @ ''='' @ ?v) @ '')''"
      using Substring star_shift [of as "f @ '')''"] by simp
    from v have "CHR '')'' \<notin> set ?v" by (auto simp: plain_value_def)
    from parseFilter_item [OF a this, of pre post] show ?thesis
      unfolding u by (simp add: n itemNode_substring [OF v, simplified] del: length_concat)
  qed (use FilterNode.prems in simp_all)
qed

section \<open>Properties\<close>

text \<open>A valid filter that is encoded as BER and decoded again is the same tree, for every
  tree the decoder can produce (a negation has one child, only the members of the node's kind
  are set) and every encoding below four gigabytes.  The decoder returns it, it does not run
  out of anything.\<close>

lemma filter_ber_roundtrip:
  assumes "sf_valid f" and "node_normal (sf_root f)" and "length (encodeBer f) < 2 ^ 32"
  shows "fst (decodeBer (mkReader (encodeBer f))) = Some (f\<lparr>sf_text := ''(decoded)''\<rparr>)"
  by (rule parses_run) (rule parses_decodeBer [OF assms])

text \<open>C33: A substring filter matches an entry exactly when the entry has the attribute and one
  of its values, compared without case, can be cut into the initial part, the inner parts in
  their order without overlap, and the final part.  The code takes the first occurrence of each
  inner part; that never loses a match.\<close>

theorem substring_filter_spec:
  "nodeMatches (substringNode attr initial any final) entry \<longleftrightarrow>
     (\<exists>vs v. findValues entry attr = Some vs \<and> v \<in> set vs \<and>
        substringSpec (toLowerAscii initial) (map toLowerAscii any) (toLowerAscii final)
          (toLowerAscii v))"
  by (auto simp: substringNode_def substringMatches_spec split: option.splits)

text \<open>The text parser reads back the text of every tree over plain attribute names and
  values: the filter is valid and its tree is the one that was printed.\<close>

lemma filter_text_roundtrip:
  assumes "node_normal n" and "node_plain n"
  shows "parse (unparse n) = \<lparr>sf_text = unparse n, sf_valid = True, sf_root = n\<rparr>"
  using parseFilter_unparse [OF assms, of "[]" "[]"] skipSpace_stay [of "[]" "unparse n"]
  by (simp add: parse_def)

text \<open>The text parser keeps backslash escapes as they are written: the value of an equality
  filter is the text between the equals sign and the closing parenthesis, so \<^verbatim>\<open>\2a\<close> stands for
  three characters and not, as in RFC 4515, for a star.\<close>

lemma filter_text_keeps_escapes:
  assumes "plain_name attr" and "CHR '')'' \<notin> set val" and "CHR ''*'' \<notin> set val"
  shows "sf_root (parse (''('' @ attr @ ''='' @ val @ '')'')) = equalityNode attr val"
proof -
  have one: "length (splitStars s cur) = 1" if "CHR ''*'' \<notin> set s" for s cur
    using that
  proof (induction s cur rule: splitStars.induct)
    case (2 c cs cur)
    then show ?case by (cases cs) (auto split: if_splits)
  qed simp
  have "val \<noteq> ''*''" using assms(3) by auto
  then have "itemNode attr val = equalityNode attr val"
    using one [OF assms(3)] by (simp add: itemNode_def)
  with parseFilter_item [OF assms(1,2), of "[]" "[]"] show ?thesis by (simp add: parse_def)
qed

end
