(* ===== verification/CppStd.thy ===== *)
theory CppStd
  imports LdapPrelude
begin

text \<open>
  The text facilities of the C++ library that configuration, LDIF, schema and paging code
  use: trimming with \<^verbatim>\<open>std::isspace\<close>, \<^verbatim>\<open>std::getline\<close>, the extraction operator on a string
  stream, \<^verbatim>\<open>std::strtol\<close>, \<^verbatim>\<open>std::stoi\<close>, \<^verbatim>\<open>std::stoul\<close>, \<^verbatim>\<open>std::stoll\<close> and \<^verbatim>\<open>std::to_string\<close>.  A call that throws is
  \<open>None\<close>.  The lemmas give the round trip of a printed number through \<^verbatim>\<open>strtol\<close>.
\<close>

section \<open>Trimming and lines\<close>

definition trimLeft :: "string \<Rightarrow> string" where
  "trimLeft s = dropWhile isspace s"

definition trimRight :: "string \<Rightarrow> string" where
  "trimRight s = rev (dropWhile isspace (rev s))"

definition trim :: "string \<Rightarrow> string" where
  "trim s = trimRight (trimLeft s)"

text \<open>The lines \<^verbatim>\<open>std::getline\<close> yields until the stream ends: the text is cut at line feeds, and
  nothing is yielded after a final line feed.\<close>

fun getlines :: "string \<Rightarrow> string \<Rightarrow> string list" where
  "getlines [] cur = (if cur = [] then [] else [cur])"
| "getlines (c # cs) cur =
     (if c = CHR 0x0A then cur # getlines cs [] else getlines cs (cur @ [c]))"

definition splitLines :: "string \<Rightarrow> string list" where
  "splitLines t = getlines t []"

text \<open>\<^verbatim>\<open>in >> word\<close>: leading white space is skipped, the word ends at the next white space; no
  word is a failed extraction.\<close>

definition extractWord :: "string \<Rightarrow> (string \<times> string) option" where
  "extractWord s =
     (let s = dropWhile isspace s; w = takeWhile (\<lambda>c. \<not> isspace c) s
      in if w = [] then None else Some (w, dropWhile (\<lambda>c. \<not> isspace c) s))"

text \<open>\<^verbatim>\<open>std::getline(in, rest)\<close> on what is left of the stream.\<close>

definition restOfLine :: "string \<Rightarrow> string" where
  "restOfLine s = takeWhile (\<lambda>c. c \<noteq> CHR 0x0A) s"

section \<open>Numbers\<close>

definition digitVal :: "char \<Rightarrow> nat" where
  "digitVal c = char_code c - 48"

definition digitsVal :: "string \<Rightarrow> int" where
  "digitsVal ds = foldl (\<lambda>n c. n * 10 + int (digitVal c)) 0 ds"

text \<open>The C string of a \<^verbatim>\<open>std::string\<close> ends at its first NUL.\<close>

definition cStr :: "string \<Rightarrow> string" where
  "cStr s = takeWhile (\<lambda>c. c \<noteq> CHR 0x00) s"

text \<open>\<^verbatim>\<open>strtol(s, &end, 10)\<close> on a C string: white space, a sign, decimal digits.  The result is
  the mathematical value and the rest of the text from \<^verbatim>\<open>end\<close> on; without a digit \<^verbatim>\<open>end\<close> is
  the start and \<open>None\<close> is returned.\<close>

definition scanInteger :: "string \<Rightarrow> (int \<times> string) option" where
  "scanInteger s =
     (let t = dropWhile isspace s;
          neg = (t \<noteq> [] \<and> hd t = CHR ''-'');
          t = (if t \<noteq> [] \<and> (hd t = CHR ''-'' \<or> hd t = CHR ''+'') then tl t else t);
          ds = takeWhile isdigit t
      in if ds = [] then None
         else Some ((if neg then - digitsVal ds else digitsVal ds), dropWhile isdigit t))"

definition longMax :: int where
  "longMax = 2 ^ 63 - 1"

definition clampLong :: "int \<Rightarrow> int" where
  "clampLong n = max (- (2 ^ 63)) (min longMax n)"

text \<open>\<^verbatim>\<open>std::stoi\<close> throws when there is no number or it does not fit \<^verbatim>\<open>int\<close>; \<^verbatim>\<open>std::stoul\<close> when
  there is none or its absolute value does not fit \<^verbatim>\<open>unsigned long\<close> (a minus sign negates the
  unsigned value).  Text behind the number is ignored by both.\<close>

definition stoi :: "string \<Rightarrow> int option" where
  "stoi s =
     (case scanInteger (cStr s) of
        None \<Rightarrow> None
      | Some (n, _) \<Rightarrow> if - (2 ^ 31) \<le> n \<and> n < 2 ^ 31 then Some n else None)"

definition stoul :: "string \<Rightarrow> int option" where
  "stoul s =
     (case scanInteger (cStr s) of
        None \<Rightarrow> None
      | Some (n, _) \<Rightarrow> if \<bar>n\<bar> < 2 ^ 64 then Some (n mod 2 ^ 64) else None)"

definition stoll :: "string \<Rightarrow> int option" where
  "stoll s =
     (case scanInteger (cStr s) of
        None \<Rightarrow> None
      | Some (n, _) \<Rightarrow> if - (2 ^ 63) \<le> n \<and> n < 2 ^ 63 then Some n else None)"

fun natDigits :: "nat \<Rightarrow> string" where
  "natDigits n =
     (if n < 10 then [char_of (48 + n)] else natDigits (n div 10) @ [char_of (48 + n mod 10)])"

declare natDigits.simps [simp del]

definition toStringInt :: "int \<Rightarrow> string" where
  "toStringInt n = (if n < 0 then CHR ''-'' # natDigits (nat (- n)) else natDigits (nat n))"

section \<open>Printing and reading numbers\<close>

lemma char_code_digit [simp]: "n < 10 \<Longrightarrow> char_code (char_of (48 + n) :: char) = 48 + n"
  by simp

lemma digitVal_char_of [simp]: "n < 10 \<Longrightarrow> digitVal (char_of (48 + n)) = n"
  by (simp add: digitVal_def)

lemma isdigit_char_of [simp]: "(n :: nat) < 10 \<Longrightarrow> isdigit (char_of (48 + n))"
  by (simp add: isdigit_def)

lemma natDigits_isdigit: "list_all isdigit (natDigits n)"
proof (induction n rule: natDigits.induct)
  case (1 n)
  then show ?case by (subst natDigits.simps) simp
qed

lemma natDigits_neq_Nil [simp]: "natDigits n \<noteq> []"
  by (subst natDigits.simps) simp

lemma digitsVal_snoc: "digitsVal (ds @ [c]) = digitsVal ds * 10 + int (digitVal c)"
  by (simp add: digitsVal_def)

lemma digitsVal_natDigits: "digitsVal (natDigits n) = int n"
proof (induction n rule: natDigits.induct)
  case (1 n)
  show ?case
  proof (cases "n < 10")
    case True
    then show ?thesis by (subst natDigits.simps) (simp add: digitsVal_def)
  next
    case False
    with 1 show ?thesis
      by (subst natDigits.simps) (simp add: digitsVal_snoc zdiv_int zmod_int)
  qed
qed

lemma isdigit_not_space: "isdigit c \<Longrightarrow> \<not> isspace c \<and> c \<noteq> CHR ''-'' \<and> c \<noteq> CHR ''+'' \<and> c \<noteq> CHR 0x00"
  by (auto simp: isdigit_def isspace_def)

lemma natDigits_Cons: "\<exists>c cs. natDigits n = c # cs \<and> isdigit c"
  using natDigits_isdigit [of n] by (cases "natDigits n") (simp_all add: list_all_iff)

lemma scanInteger_natDigits: "scanInteger (natDigits n) = Some (int n, [])"
proof -
  obtain c cs where c: "natDigits n = c # cs" "isdigit c" using natDigits_Cons by blast
  have sp: "dropWhile isspace (natDigits n) = natDigits n"
    using isdigit_not_space [OF c(2)] by (simp add: c(1))
  have ds: "takeWhile isdigit (natDigits n) = natDigits n" "dropWhile isdigit (natDigits n) = []"
    using natDigits_isdigit [of n] by (auto simp: list_all_iff)
  have hd: "hd (natDigits n) \<noteq> CHR ''-''" "hd (natDigits n) \<noteq> CHR ''+''"
    using isdigit_not_space [OF c(2)] by (simp_all add: c(1))
  show ?thesis
    by (simp add: scanInteger_def Let_def digitsVal_natDigits sp ds hd)
qed

lemma cStr_natDigits: "cStr (natDigits n) = natDigits n"
  using natDigits_isdigit [of n] isdigit_not_space by (auto simp: cStr_def list_all_iff)

end
