(* ===== verification/Password.thy ===== *)
theory Password
  imports SearchFilters CppStd
begin

text \<open>
  Stored passwords, \<^verbatim>\<open>src/simple-ldapd/auth/password.cpp\<close>: base64, the salted hash, verification
  of a stored value, hashing of the passwords in an entry or in a modify request, and the
  account-control bit.  OpenSSL is a parameter: a record of what the sources call, where \<open>None\<close>
  is a failed call.  A build without OpenSSL is the record whose functions always fail.  The
  random generator is read by call number, so that two calls may differ; the number is threaded
  through the operations that draw.
\<close>

section \<open>Cryptography\<close>

record Crypto =
  cr_sha1 :: "bytes \<Rightarrow> bytes option"
  cr_md5 :: "bytes \<Rightarrow> bytes option"
  cr_hmacSha256 :: "bytes \<Rightarrow> bytes \<Rightarrow> bytes option"
  cr_rand :: "nat \<Rightarrow> nat \<Rightarrow> bytes option"

type_synonym rng = nat

text \<open>\<^verbatim>\<open>RAND_bytes\<close> fills the buffer it is given.\<close>

definition crypto_ok :: "Crypto \<Rightarrow> bool" where
  "crypto_ok cr \<longleftrightarrow> (\<forall>n len bs. cr_rand cr n len = Some bs \<longrightarrow> length bs = len)"

definition kSha1Length :: nat where
  "kSha1Length = 20"

definition kSshaSaltLength :: nat where
  "kSshaSaltLength = 8"

section \<open>Comparison\<close>

definition constantTimeEqual :: "bytes \<Rightarrow> bytes \<Rightarrow> nat \<Rightarrow> bool" where
  "constantTimeEqual left right n =
     (foldl (\<lambda>acc i. acc OR (left ! i XOR right ! i)) 0 [0..<n] = 0)"

definition byteAt :: "string \<Rightarrow> nat \<Rightarrow> byte" where
  "byteAt s i = (if i < length s then byte_of_char (s ! i) else 0)"

definition passwordsEqual :: "string \<Rightarrow> string \<Rightarrow> bool" where
  "passwordsEqual left right =
     (let n = (if length left > length right then length left else length right);
          acc = ucast ((of_nat (length left) :: int64) XOR of_nat (length right))
      in foldl (\<lambda>acc i. acc OR (byteAt left i XOR byteAt right i)) acc [0..<n] = 0)"

definition schemePrefix :: "string \<Rightarrow> (string \<times> string) option" where
  "schemePrefix val =
     (if length val < 3 \<or> hd val \<noteq> CHR ''{'' then None
      else case find_char (CHR ''}'') val of
        None \<Rightarrow> None
      | Some close \<Rightarrow>
          if close < 2 then None
          else Some (take (close - 1) (drop 1 val), drop (close + 1) val))"

section \<open>Base64\<close>

definition kTable :: string where
  "kTable = ''ABCDEFGHIJKLMNOPQRSTUVWXYZabcdefghijklmnopqrstuvwxyz0123456789+/''"

definition sextet :: "int32 \<Rightarrow> nat \<Rightarrow> char" where
  "sextet n sh = kTable ! unat (drop_bit sh n AND 63)"

definition octet :: "byte \<Rightarrow> nat \<Rightarrow> int32" where
  "octet b sh = push_bit sh (ucast b)"

fun base64Encode :: "bytes \<Rightarrow> string" where
  "base64Encode [] = []"
| "base64Encode [a] =
     (let n = octet a 16 in [sextet n 18, sextet n 12, CHR ''='', CHR ''=''])"
| "base64Encode [a, b] =
     (let n = octet a 16 OR octet b 8 in [sextet n 18, sextet n 12, sextet n 6, CHR ''=''])"
| "base64Encode (a # b # c # others) =
     (let n = octet a 16 OR octet b 8 OR octet c 0
      in sextet n 18 # sextet n 12 # sextet n 6 # sextet n 0 # base64Encode others)"

definition base64Value :: "char \<Rightarrow> int" where
  "base64Value ch =
     (let c = int (char_code ch) in
      if 65 \<le> c \<and> c \<le> 90 then c - 65
      else if 97 \<le> c \<and> c \<le> 122 then c - 97 + 26
      else if 48 \<le> c \<and> c \<le> 57 then c - 48 + 52
      else if ch = CHR ''+'' then 62
      else if ch = CHR ''/'' then 63
      else - 1)"

text \<open>The loop with its accumulator \<^verbatim>\<open>val\<close> (a 32-bit \<^verbatim>\<open>int\<close>, here with wrap-around, which is what
  the compilers do with the shift) and the bit position; \<open>None\<close> is the early return of an empty
  vector.\<close>

fun decodeLoop :: "string \<Rightarrow> int32 \<Rightarrow> int \<Rightarrow> bytes \<Rightarrow> bytes option" where
  "decodeLoop [] val bits out = Some out"
| "decodeLoop (ch # others) val bits out =
     (if ch = CHR ''='' \<or> ch = CHR 0x0A \<or> ch = CHR 0x0D \<or> ch = CHR '' '' then
        decodeLoop others val bits out
      else let digit = base64Value ch in
        if digit < 0 then None
        else let val = push_bit 6 val + of_int digit; bits = bits + 6 in
          if 0 \<le> bits then
            decodeLoop others val (bits - 8) (out @ [ucast (drop_bit (nat bits) val AND 0xff)])
          else decodeLoop others val bits out)"

definition base64Decode :: "string \<Rightarrow> bytes" where
  "base64Decode t = (case decodeLoop t 0 (- 8) [] of None \<Rightarrow> [] | Some out \<Rightarrow> out)"

section \<open>Hashing and verification\<close>

definition sha1 :: "Crypto \<Rightarrow> bytes \<Rightarrow> bytes option" where
  "sha1 cr dat =
     (case cr_sha1 cr dat of
        None \<Rightarrow> None
      | Some digest \<Rightarrow> if length digest = kSha1Length then Some digest else None)"

text \<open>The empty string is the failure value of \<^verbatim>\<open>hashSsha\<close>.\<close>

definition hashSsha :: "Crypto \<Rightarrow> string \<Rightarrow> rng \<Rightarrow> string \<times> rng" where
  "hashSsha cr password r =
     (case cr_rand cr r kSshaSaltLength of
        None \<Rightarrow> ([], Suc r)
      | Some salt \<Rightarrow>
          (case sha1 cr (bytes_of password @ salt) of
             None \<Rightarrow> ([], Suc r)
           | Some digest \<Rightarrow> (''{SSHA}'' @ base64Encode (digest @ salt), Suc r)))"

definition verifySha :: "Crypto \<Rightarrow> string \<Rightarrow> string \<Rightarrow> bool" where
  "verifySha cr payload password =
     (let decoded = base64Decode payload in
      if length decoded \<noteq> kSha1Length then False
      else case sha1 cr (bytes_of password) of
        None \<Rightarrow> False
      | Some digest \<Rightarrow> constantTimeEqual decoded digest kSha1Length)"

definition verifySsha :: "Crypto \<Rightarrow> string \<Rightarrow> string \<Rightarrow> bool" where
  "verifySsha cr payload password =
     (let decoded = base64Decode payload in
      if length decoded \<le> kSha1Length then False
      else case sha1 cr (bytes_of password @ drop kSha1Length decoded) of
        None \<Rightarrow> False
      | Some digest \<Rightarrow> constantTimeEqual decoded digest kSha1Length)"

definition verifyUserPassword :: "Crypto \<Rightarrow> string \<Rightarrow> string \<Rightarrow> bool" where
  "verifyUserPassword cr stored provided =
     (case schemePrefix stored of
        None \<Rightarrow> passwordsEqual provided stored
      | Some (scheme, others) \<Rightarrow>
          if iequals scheme ''CLEARTEXT'' then passwordsEqual provided others
          else if iequals scheme ''SSHA'' then verifySsha cr others provided
          else if iequals scheme ''SHA'' then verifySha cr others provided
          else False)"

definition encodeUserPassword :: "Crypto \<Rightarrow> string \<Rightarrow> rng \<Rightarrow> string \<times> rng" where
  "encodeUserPassword cr val r =
     (if schemePrefix val \<noteq> None then (val, r)
      else if val = [] then (val, r)
      else case hashSsha cr val r of (hashed, r) \<Rightarrow> (if hashed = [] then val else hashed, r))"

definition recoverablePassword :: "string \<Rightarrow> string option" where
  "recoverablePassword stored =
     (case schemePrefix stored of
        None \<Rightarrow> Some stored
      | Some (scheme, others) \<Rightarrow> if iequals scheme ''CLEARTEXT'' then Some others else None)"

text \<open>\<^verbatim>\<open>strtol\<close> clamps to \<^verbatim>\<open>long\<close>; a value with anything but a number, or a negative one, is skipped.\<close>

definition accountDisabled :: "DirectoryEntry \<Rightarrow> bool" where
  "accountDisabled entry =
     (case findValues entry ''userAccountControl'' of
        None \<Rightarrow> False
      | Some values \<Rightarrow>
          list_ex (\<lambda>val. case scanInteger (cStr val) of
                      None \<Rightarrow> False
                    | Some (n, others) \<Rightarrow>
                        let parsed = clampLong n
                        in others = [] \<and> \<not> parsed < 0 \<and> (word_of_int parsed :: int64) AND 2 \<noteq> 0) values)"

fun encodeAll :: "Crypto \<Rightarrow> string list \<Rightarrow> rng \<Rightarrow> string list \<times> rng" where
  "encodeAll cr [] r = ([], r)"
| "encodeAll cr (v # vs) r =
     (case encodeUserPassword cr v r of (v', r) \<Rightarrow>
        case encodeAll cr vs r of (vs', r) \<Rightarrow> (v' # vs', r))"

fun encodePasswordAttributes :: "Crypto \<Rightarrow> string list smap \<Rightarrow> rng \<Rightarrow> string list smap \<times> rng" where
  "encodePasswordAttributes cr [] r = ([], r)"
| "encodePasswordAttributes cr ((k, vs) # m) r =
     (case (if iequals k ''userPassword'' then encodeAll cr vs r else (vs, r)) of (vs', r) \<Rightarrow>
        case encodePasswordAttributes cr m r of (m', r) \<Rightarrow> ((k, vs') # m', r))"

definition encodeUserPasswords :: "Crypto \<Rightarrow> DirectoryEntry \<Rightarrow> rng \<Rightarrow> DirectoryEntry \<times> rng" where
  "encodeUserPasswords cr entry r =
     (case encodePasswordAttributes cr (de_attributes entry) r of (m, r) \<Rightarrow> (entry\<lparr>de_attributes := m\<rparr>, r))"

fun encodeUserPasswordChanges ::
  "Crypto \<Rightarrow> AttributeModification list \<Rightarrow> rng \<Rightarrow> AttributeModification list \<times> rng" where
  "encodeUserPasswordChanges cr [] r = ([], r)"
| "encodeUserPasswordChanges cr (change # changes) r =
     (case (if am_op change = Delete \<or> \<not> iequals (am_type change) ''userPassword'' then (change, r)
            else case encodeAll cr (am_values change) r of
              (vs, r) \<Rightarrow> (change\<lparr>am_values := vs\<rparr>, r)) of (change', r) \<Rightarrow>
        case encodeUserPasswordChanges cr changes r of (changes', r) \<Rightarrow> (change' # changes', r))"


section \<open>Comparison lemmas\<close>

lemma foldl_OR_zero:
  "foldl (\<lambda>acc i. acc OR f i) a xs = (0 :: 'w :: len word) \<longleftrightarrow> a = 0 \<and> (\<forall>i \<in> set xs. f i = 0)"
  by (induction xs arbitrary: a) (auto simp: or_eq_0_iff)

lemma word_xor_zero [simp]: "x XOR y = 0 \<longleftrightarrow> x = (y :: 'w :: len word)"
  by (metis xor.assoc xor.right_neutral xor.left_neutral xor_self_eq)

lemma constantTimeEqual_iff:
  assumes "n \<le> length left" "n \<le> length right"
  shows "constantTimeEqual left right n \<longleftrightarrow> take n left = take n right"
  using assms by (auto simp: constantTimeEqual_def foldl_OR_zero list_eq_iff_nth_eq)

lemma byte_of_char_inj [simp]: "byte_of_char c = byte_of_char d \<longleftrightarrow> c = d"
  by (metis char_of_byte_of_char)

lemma byte_of_char_0: "byte_of_char c = 0 \<longleftrightarrow> c = CHR 0x00"
proof -
  have "byte_of_char (CHR 0x00) = 0" by (simp add: byte_of_char_def)
  then show ?thesis by (metis byte_of_char_inj)
qed

lemma xor_lengths:
  "ucast ((of_nat m :: int64) XOR of_nat n) = (0 :: byte) \<longleftrightarrow> m mod 256 = n mod 256"
proof -
  have "ucast ((of_nat m :: int64) XOR of_nat n) = (of_nat m XOR of_nat n :: byte)"
    by (rule bit_word_eqI) (simp add: bit_simps)
  then show ?thesis
    by (simp only: word_xor_zero) (simp add: word_unat_eq_iff unat_of_nat)
qed

lemma passwordsEqual_iff:
  "passwordsEqual l r \<longleftrightarrow> length l mod 256 = length r mod 256 \<and>
     (\<forall>i < max (length l) (length r). byteAt l i = byteAt r i)"
  unfolding passwordsEqual_def Let_def foldl_OR_zero xor_lengths
  by (auto simp: max_def)

lemma passwordsEqual_sym: "passwordsEqual l r = passwordsEqual r l"
  by (auto simp: passwordsEqual_iff max.commute)

lemma padded_iff:
  assumes "length l \<le> length r"
  shows "(\<forall>i < length r. byteAt l i = byteAt r i) \<longleftrightarrow>
    r = l @ replicate (length r - length l) (CHR 0x00)"
proof
  assume *: "\<forall>i < length r. byteAt l i = byteAt r i"
  show "r = l @ replicate (length r - length l) (CHR 0x00)"
  proof (rule nth_equalityI)
    fix i assume i: "i < length r"
    with * have "byteAt l i = byteAt r i" by simp
    with i show "r ! i = (l @ replicate (length r - length l) (CHR 0x00)) ! i"
      by (cases "i < length l") (auto simp: byteAt_def nth_append byte_of_char_0 eq_commute [of 0])
  qed (use assms in simp)
next
  assume r: "r = l @ replicate (length r - length l) (CHR 0x00)"
  have "byteAt (l @ replicate n (CHR 0x00)) i = byteAt l i" for n i
    by (simp add: byteAt_def nth_append byte_of_char_0)
  with r show "\<forall>i < length r. byteAt l i = byteAt r i" by metis
qed

lemma passwordsEqual_le:
  assumes "length l \<le> length r"
  shows "passwordsEqual l r \<longleftrightarrow> (\<exists>k. r = l @ replicate (256 * k) (CHR 0x00))"
proof
  assume "passwordsEqual l r"
  then have "length l mod 256 = length r mod 256" "r = l @ replicate (length r - length l) (CHR 0x00)"
    using assms padded_iff [OF assms] by (simp_all add: passwordsEqual_iff max_def)
  moreover from this(1) assms obtain k where "length r - length l = 256 * k"
    using mod_eq_dvd_iff_nat [OF assms, of 256] by (auto elim: dvdE)
  ultimately show "\<exists>k. r = l @ replicate (256 * k) (CHR 0x00)" by auto
next
  assume "\<exists>k. r = l @ replicate (256 * k) (CHR 0x00)"
  then obtain k where r: "r = l @ replicate (256 * k) (CHR 0x00)" by blast
  then have "r = l @ replicate (length r - length l) (CHR 0x00)" by simp
  then have "\<forall>i < length r. byteAt l i = byteAt r i" using padded_iff [OF assms] by blast
  moreover have "length l mod 256 = length r mod 256" by (simp add: r)
  ultimately show "passwordsEqual l r" using assms by (simp add: passwordsEqual_iff max_def)
qed

lemma passwordsEqual_refl [simp]: "passwordsEqual p p"
  by (simp add: passwordsEqual_iff)

section \<open>Base64 lemmas\<close>

lemma base64Value_kTable: "map base64Value kTable = map int [0..<64]"
  by (simp add: kTable_def base64Value_def upt_rec)

lemma length_kTable: "length kTable = 64"
  by (simp add: kTable_def)

lemma kTable_plain: "set kTable \<inter> {CHR ''='', CHR 0x0A, CHR 0x0D, CHR '' ''} = {}"
  by (simp add: kTable_def)

lemma kTable_value: "n < 64 \<Longrightarrow> base64Value (kTable ! n) = int n"
  using arg_cong [OF base64Value_kTable, of "\<lambda>xs. xs ! n"] by (simp add: length_kTable)

lemma kTable_char: "n < 64 \<Longrightarrow> kTable ! n \<notin> {CHR ''='', CHR 0x0A, CHR 0x0D, CHR '' ''}"
  by (metis kTable_plain disjoint_iff length_kTable nth_mem)

definition sextetBits :: "int32 \<Rightarrow> nat \<Rightarrow> int32" where
  "sextetBits n sh = drop_bit sh n AND 63"

lemma sextetBits_take: "sextetBits n sh = take_bit 6 (drop_bit sh n)"
  by (simp add: sextetBits_def take_bit_eq_mask mask_eq_exp_minus_1)

lemma bit_sextetBits [simp]: "bit (sextetBits n sh) i \<longleftrightarrow> i < 6 \<and> bit n (sh + i)"
  by (auto simp: sextetBits_take bit_simps)

lemma sextetBits_less: "unat (sextetBits n sh) < 64"
  using take_bit_nat_less_exp [of 6 "unat (drop_bit sh n)"]
  by (simp add: sextetBits_take unsigned_take_bit_eq)

definition octetAt :: "nat \<Rightarrow> int32 \<Rightarrow> byte" where
  "octetAt b val = ucast (drop_bit b val AND 0xff)"

lemma decodeLoop_sextet:
  "decodeLoop (sextet n sh # cs) val bits out =
     (let val = push_bit 6 val OR sextetBits n sh; bits = bits + 6 in
      if 0 \<le> bits then decodeLoop cs val (bits - 8) (out @ [octetAt (nat bits) val])
      else decodeLoop cs val bits out)"
proof -
  let ?d = "sextetBits n sh"
  have "push_bit 6 val AND ?d = 0" by (rule bit_word_eqI) (auto simp: bit_simps)
  then have *: "push_bit 6 val + ?d = push_bit 6 val OR ?d" by (rule disjunctive_add_eq_or)
  have v: "base64Value (sextet n sh) = int (unat ?d)"
    using kTable_value [OF sextetBits_less] by (simp add: sextet_def sextetBits_def)
  have c: "sextet n sh \<notin> {CHR ''='', CHR 0x0A, CHR 0x0D, CHR '' ''}"
    using kTable_char [OF sextetBits_less] by (simp add: sextet_def sextetBits_def)
  show ?thesis
    using c by (simp add: v * [symmetric] Let_def octetAt_def)
qed

lemma octetAt_eqI:
  assumes "\<And>i. i < 8 \<Longrightarrow> bit val (b + i) = bit x i"
  shows "octetAt b val = x"
proof (rule bit_word_eqI)
  fix i :: nat assume "i < LENGTH(8)"
  then have i: "i < 8" by simp
  have "drop_bit b val AND 0xff = take_bit 8 (drop_bit b val)"
    by (simp add: take_bit_eq_mask mask_eq_exp_minus_1)
  with i assms show "bit (octetAt b val) i = bit x i"
    by (simp add: octetAt_def bit_simps)
qed

lemma bit_octet [simp]: "bit (octet b sh) i \<longleftrightarrow> i < 32 \<and> sh \<le> i \<and> bit b (i - sh)"
  by (auto simp: octet_def bit_simps)

lemma bit_byte_ge: "8 \<le> i \<Longrightarrow> \<not> bit (b :: byte) i"
  using bit_imp_le_length [of b i] by auto

text \<open>Two neighbouring sextets of a group hold the octet that starts \<open>b\<close> bits into the lower one,
  whatever the accumulator held before.\<close>

lemma octet_of_sextets:
  assumes "b \<le> 4" and n: "\<And>i. i < 8 \<Longrightarrow> bit n (sh + b + i) = bit a i"
  shows "octetAt b (push_bit 6 (push_bit 6 v OR sextetBits n (sh + 6)) OR sextetBits n sh) = a"
proof (rule octetAt_eqI)
  fix i :: nat assume i: "i < 8"
  show "bit (push_bit 6 (push_bit 6 v OR sextetBits n (sh + 6)) OR sextetBits n sh) (b + i) = bit a i"
  proof (cases "b + i < 6")
    case True
    with n [OF i] show ?thesis by (simp add: bit_simps add.assoc)
  next
    case False
    moreover from i assms(1) have "b + i - 6 < 6" "b + i < 12" by linarith+
    ultimately show ?thesis using n [OF i] by (simp add: bit_simps add.assoc)
  qed
qed

lemma decodeLoop_pad: "decodeLoop (CHR ''='' # cs) val bits out = decodeLoop cs val bits out"
  by simp

lemma decodeLoop_base64Encode:
  "decodeLoop (base64Encode bs) val (- 8) out = Some (out @ bs)"
proof (induction bs arbitrary: val out rule: base64Encode.induct)
  case (2 a)
  have "octetAt 4 (push_bit 6 (push_bit 6 val OR sextetBits (octet a 16) 18) OR sextetBits (octet a 16) 12) = a"
    using octet_of_sextets [of 4 "octet a 16" 12 a val] by simp
  then show ?case by (simp add: decodeLoop_sextet decodeLoop_pad Let_def del: decodeLoop.simps(2))
next
  case (3 a b)
  let ?n = "octet a 16 OR octet b 8"
  have "octetAt 4 (push_bit 6 (push_bit 6 v OR sextetBits ?n 18) OR sextetBits ?n 12) = a"
       "octetAt 2 (push_bit 6 (push_bit 6 v OR sextetBits ?n 12) OR sextetBits ?n 6) = b" for v
    using octet_of_sextets [of 4 ?n 12 a v] octet_of_sextets [of 2 ?n 6 b v]
    by (simp_all add: bit_simps bit_byte_ge)
  then show ?case by (simp add: decodeLoop_sextet decodeLoop_pad Let_def del: decodeLoop.simps(2))
next
  case (4 a b c others)
  let ?n = "octet a 16 OR octet b 8 OR octet c 0"
  have "octetAt 4 (push_bit 6 (push_bit 6 v OR sextetBits ?n 18) OR sextetBits ?n 12) = a"
       "octetAt 2 (push_bit 6 (push_bit 6 v OR sextetBits ?n 12) OR sextetBits ?n 6) = b"
       "octetAt 0 (push_bit 6 (push_bit 6 v OR sextetBits ?n 6) OR sextetBits ?n 0) = c" for v
    using octet_of_sextets [of 4 ?n 12 a v] octet_of_sextets [of 2 ?n 6 b v]
      octet_of_sextets [of 0 ?n 0 c v]
    by (simp_all add: bit_simps bit_byte_ge)
  with 4 show ?case by (simp add: decodeLoop_sextet decodeLoop_pad Let_def del: decodeLoop.simps(2))
qed simp

lemma base64_inverse [simp]: "base64Decode (base64Encode bs) = bs"
  by (simp add: base64Decode_def decodeLoop_base64Encode)


section \<open>Stored values\<close>

lemma schemePrefix_braced:
  assumes "CHR ''}'' \<notin> set scheme" and "scheme \<noteq> []"
  shows "schemePrefix (CHR ''{'' # scheme @ CHR ''}'' # others) = Some (scheme, others)"
proof -
  have "find_char (CHR ''}'') ((CHR ''{'' # scheme) @ CHR ''}'' # others) = Some (Suc (length scheme))"
    using assms find_char_append [of "CHR ''}''" "CHR ''{'' # scheme" others] by simp
  with assms show ?thesis by (cases scheme) (simp_all add: schemePrefix_def)
qed

lemma schemePrefix_ssha: "schemePrefix (''{SSHA}'' @ payload) = Some (''SSHA'', payload)"
  using schemePrefix_braced [of "''SSHA''" payload] by simp

lemma sha1_length: "sha1 cr bs = Some d \<Longrightarrow> length d = kSha1Length"
  by (auto simp: sha1_def split: option.splits if_splits)

lemma verifySsha_iff:
  assumes "length d = kSha1Length" "salt \<noteq> []"
  shows "verifySsha cr (base64Encode (d @ salt)) p \<longleftrightarrow> sha1 cr (bytes_of p @ salt) = Some d"
  using assms
  by (auto simp: verifySsha_def Let_def constantTimeEqual_iff dest: sha1_length split: option.splits)

lemma hashSsha_cases:
  assumes "crypto_ok cr"
  obtains (failed) "fst (hashSsha cr v r) = []"
    | (hashed) salt d where "fst (hashSsha cr v r) = ''{SSHA}'' @ base64Encode (d @ salt)"
        "cr_rand cr r kSshaSaltLength = Some salt" "sha1 cr (bytes_of v @ salt) = Some d" "salt \<noteq> []"
proof (cases "cr_rand cr r kSshaSaltLength")
  case (Some salt)
  with assms have "length salt = kSshaSaltLength" by (simp add: crypto_ok_def)
  then have "salt \<noteq> []" by (auto simp: kSshaSaltLength_def)
  with Some hashed show ?thesis
    by (cases "sha1 cr (bytes_of v @ salt)") (auto simp: hashSsha_def intro: failed)
qed (simp add: hashSsha_def failed)

lemma verify_hashed:
  assumes "length d = kSha1Length" "salt \<noteq> []"
  shows "verifyUserPassword cr (''{SSHA}'' @ base64Encode (d @ salt)) p \<longleftrightarrow>
    sha1 cr (bytes_of p @ salt) = Some d"
  unfolding verifyUserPassword_def schemePrefix_ssha
  by (simp add: verifySsha_iff [OF assms] iequals_def toLowerAscii_def tolower_def isupper_def)

lemma encodeUserPassword_fst:
  "fst (encodeUserPassword cr v r) =
     (if schemePrefix v \<noteq> None \<or> v = [] \<or> fst (hashSsha cr v r) = [] then v else fst (hashSsha cr v r))"
  by (cases "hashSsha cr v r") (simp add: encodeUserPassword_def)

lemma keys_encodePasswordAttributes [simp]: "map fst (fst (encodePasswordAttributes cr m r)) = map fst m"
  by (induction cr m r rule: encodePasswordAttributes.induct) (auto split: prod.splits)

lemma smap_ok_encodePasswordAttributes: "smap_ok m \<Longrightarrow> smap_ok (fst (encodePasswordAttributes cr m r))"
  by (simp add: smap_ok_def)

lemma ci_ok_keys: "map fst m = map fst m' \<Longrightarrow> ci_ok m = ci_ok m'"
proof -
  assume m: "map fst m = map fst m'"
  then have "map toLowerAscii (map fst m) = map toLowerAscii (map fst m')" by (rule arg_cong)
  then have "map (toLowerAscii \<circ> fst) m = map (toLowerAscii \<circ> fst) m'"
    unfolding list.map_comp .
  with m show ?thesis by (simp add: ci_ok_def smap_ok_def)
qed

lemma ci_ok_encodePasswordAttributes: "ci_ok m \<Longrightarrow> ci_ok (fst (encodePasswordAttributes cr m r))"
  using ci_ok_keys [OF keys_encodePasswordAttributes] by blast

text \<open>A stored value that is not the password itself: empty, or with a scheme in front.\<close>

definition scheme_or_empty :: "string \<Rightarrow> bool" where
  "scheme_or_empty v \<longleftrightarrow> v = [] \<or> schemePrefix v \<noteq> None"

definition hash_works :: "Crypto \<Rightarrow> bool" where
  "hash_works cr \<longleftrightarrow> (\<forall>n len. cr_rand cr n len \<noteq> None) \<and> (\<forall>bs. sha1 cr bs \<noteq> None)"

lemma encodeUserPassword_scheme:
  assumes "hash_works cr"
  shows "scheme_or_empty (fst (encodeUserPassword cr v r))"
proof -
  from assms obtain salt where "cr_rand cr r kSshaSaltLength = Some salt"
    by (metis hash_works_def option.exhaust)
  moreover from assms obtain d where "sha1 cr (bytes_of v @ salt) = Some d"
    by (metis hash_works_def option.exhaust)
  ultimately have "fst (hashSsha cr v r) = ''{SSHA}'' @ base64Encode (d @ salt)"
    by (simp add: hashSsha_def)
  with schemePrefix_ssha [of "base64Encode (d @ salt)"] show ?thesis
    by (auto simp: scheme_or_empty_def encodeUserPassword_fst)
qed

lemma encodeAll_scheme: "hash_works cr \<Longrightarrow> x \<in> set (fst (encodeAll cr vs r)) \<Longrightarrow> scheme_or_empty x"
proof (induction cr vs r rule: encodeAll.induct)
  case (2 cr v vs r)
  obtain v' r1 where v': "encodeUserPassword cr v r = (v', r1)" by (cases "encodeUserPassword cr v r")
  obtain vs' r2 where vs': "encodeAll cr vs r1 = (vs', r2)" by (cases "encodeAll cr vs r1")
  from encodeUserPassword_scheme [OF "2.prems"(1), of v r] v' have "scheme_or_empty v'" by simp
  with 2 v' vs' show ?case by auto
qed simp

lemma encodePasswordAttributes_scheme:
  "hash_works cr \<Longrightarrow> (k, vs) \<in> set (fst (encodePasswordAttributes cr m r)) \<Longrightarrow> iequals k ''userPassword'' \<Longrightarrow>
     x \<in> set vs \<Longrightarrow> scheme_or_empty x"
proof (induction cr m r rule: encodePasswordAttributes.induct)
  case (2 cr k' vs' m r)
  obtain vs1 r1 where 1: "(if iequals k' ''userPassword'' then encodeAll cr vs' r else (vs', r)) = (vs1, r1)"
    by (cases "if iequals k' ''userPassword'' then encodeAll cr vs' r else (vs', r)")
  obtain m2 r2 where m2: "encodePasswordAttributes cr m r1 = (m2, r2)" by (cases "encodePasswordAttributes cr m r1")
  from "2.prems"(2) 1 m2 have "(k, vs) = (k', vs1) \<or> (k, vs) \<in> set m2" by simp
  then show ?case
  proof
    assume kv: "(k, vs) = (k', vs1)"
    with 1 "2.prems"(3) have "vs = fst (encodeAll cr vs' r)" by (simp split: if_splits)
    with encodeAll_scheme [OF "2.prems"(1)] "2.prems"(4) show ?thesis by blast
  next
    assume "(k, vs) \<in> set m2"
    with "2.IH" [OF 1 [symmetric]] m2 "2.prems" show ?thesis by auto
  qed
qed simp

definition demoCrypto :: Crypto where
  "demoCrypto = \<lparr>cr_sha1 = (\<lambda>bs. Some (take 20 (bs @ replicate 20 0))), cr_md5 = (\<lambda>bs. Some (take 16 (bs @ replicate 16 0))),
     cr_hmacSha256 = (\<lambda>k bs. Some (take 32 (k @ bs @ replicate 32 0))),
     cr_rand = (\<lambda>n len. Some (replicate len (of_nat n)))\<rparr>"

lemma demoCrypto_ok: "crypto_ok demoCrypto"
  by (simp add: crypto_ok_def demoCrypto_def)

section \<open>Properties\<close>

text \<open>Base64 decoding inverts base64 encoding, on every byte string: the padding, the 32-bit
  accumulator that is never reset and the bit positions lose nothing.\<close>

lemma base64_roundtrip: "base64Decode (base64Encode bs) = bs"
  by (rule base64_inverse)

text \<open>C35: A password without a scheme prefix verifies against what \<^verbatim>\<open>encodeUserPassword\<close> stores for
  it: against the salted hash when there is one, and also when the hash fails or the password is
  empty and the text itself is stored.\<close>

theorem stored_password_verifies:
  assumes "crypto_ok cr" and "schemePrefix v = None"
  shows "verifyUserPassword cr (fst (encodeUserPassword cr v r)) v"
proof (cases "v = []")
  case False
  from assms(1) show ?thesis
  proof (cases rule: hashSsha_cases [of cr v r])
    case failed
    with assms(2) show ?thesis by (simp add: encodeUserPassword_fst verifyUserPassword_def)
  next
    case (hashed salt d)
    then have "fst (encodeUserPassword cr v r) = ''{SSHA}'' @ base64Encode (d @ salt)"
      using False assms(2) by (simp add: encodeUserPassword_fst)
    with hashed(3) verify_hashed [OF sha1_length [OF hashed(3)] hashed(4)] show ?thesis
      by (simp only:)
  qed
qed (use assms(2) in \<open>simp add: encodeUserPassword_fst verifyUserPassword_def\<close>)

theorem stored_password_verifies_witness:
  "verifyUserPassword demoCrypto (fst (encodeUserPassword demoCrypto ''secret'' 7)) ''secret''"
  by (rule stored_password_verifies) (simp_all add: demoCrypto_ok schemePrefix_def)

text \<open>Once a password is stored as a salted hash, exactly the passwords with the same salted
  digest are accepted; the comparison cannot be satisfied in any other way.\<close>

lemma stored_hash_accepts:
  assumes "crypto_ok cr" and "schemePrefix v = None" and "v \<noteq> []"
    and "cr_rand cr r kSshaSaltLength = Some salt" and "sha1 cr (bytes_of v @ salt) = Some d"
  shows "verifyUserPassword cr (fst (encodeUserPassword cr v r)) p \<longleftrightarrow>
    sha1 cr (bytes_of p @ salt) = Some d"
proof -
  have "length salt = kSshaSaltLength" using assms(1,4) by (simp add: crypto_ok_def)
  then have salt: "salt \<noteq> []" by (auto simp: kSshaSaltLength_def)
  have "fst (encodeUserPassword cr v r) = ''{SSHA}'' @ base64Encode (d @ salt)"
    using assms by (simp add: encodeUserPassword_fst hashSsha_def)
  with verify_hashed [OF sha1_length [OF assms(5)] salt] show ?thesis by (simp only:)
qed

text \<open>What the comparison of clear-text passwords accepts, exactly: the same text, or the same
  text with NUL bytes behind it whose number is a multiple of 256.  The length difference is folded
  into one byte and a missing byte reads as zero, so the second case is accepted although the
  texts differ.\<close>

lemma passwordsEqual_exact:
  "passwordsEqual left right \<longleftrightarrow>
     (\<exists>k. left = right @ replicate (256 * k) (CHR 0x00) \<or> right = left @ replicate (256 * k) (CHR 0x00))"
proof (cases "length left \<le> length right")
  case True
  then show ?thesis by (fastforce simp: passwordsEqual_le)
next
  case False
  then have le: "length right \<le> length left" by simp
  have "(\<exists>k. left = right @ replicate (256 * k) (CHR 0x00)) \<longleftrightarrow>
    (\<exists>k. left = right @ replicate (256 * k) (CHR 0x00) \<or> right = left @ replicate (256 * k) (CHR 0x00))"
    using False by auto
  with passwordsEqual_le [OF le] passwordsEqual_sym show ?thesis by blast
qed

text \<open>A new password that looks like a scheme the server does not know is stored as it is, and
  then no password at all verifies against it, not even the one that was set.\<close>

lemma braced_password_locks_out:
  assumes "schemePrefix v = Some (scheme, others)"
    and "\<not> iequals scheme ''CLEARTEXT''" "\<not> iequals scheme ''SSHA''" "\<not> iequals scheme ''SHA''"
  shows "\<not> verifyUserPassword cr (fst (encodeUserPassword cr v r)) p"
  using assms by (simp add: encodeUserPassword_fst verifyUserPassword_def)

text \<open>When the random generator and the hash work, no value of any spelling of
  \<^verbatim>\<open>userPassword\<close> in an entry prepared for storage is a clear password: each one is empty or
  carries a scheme in braces.\<close>

lemma no_clear_password_stored:
  assumes "hash_works cr" and "(k, vs) \<in> set (de_attributes (fst (encodeUserPasswords cr entry r)))"
    and "iequals k ''userPassword''" and "v \<in> set vs"
  shows "v = [] \<or> schemePrefix v \<noteq> None"
proof -
  have "de_attributes (fst (encodeUserPasswords cr entry r)) = fst (encodePasswordAttributes cr (de_attributes entry) r)"
    by (cases "encodePasswordAttributes cr (de_attributes entry) r") (simp add: encodeUserPasswords_def)
  with assms(2) have "(k, vs) \<in> set (fst (encodePasswordAttributes cr (de_attributes entry) r))" by simp
  from encodePasswordAttributes_scheme [OF assms(1) this assms(3,4)] show ?thesis
    by (simp add: scheme_or_empty_def)
qed

end
