(* ===== verification/Gssapi.thy ===== *)
theory Gssapi
  imports Password
begin

text \<open>
  The ticket mechanism of \<^verbatim>\<open>src/simple-ldapd/auth/gssapi.cpp\<close>: keytab files, the realm of a base
  name, the canonical text a ticket's code is computed over, minting and verification.  The loop
  over \<^verbatim>\<open>key=value\<close> pairs is the one \<^verbatim>\<open>sasl.cpp\<close> has too; the two differ in how a key is
  normalised, which is an argument here.  The system clock is an argument, a keytab file its text.
  The lemmas show that a minted ticket verifies and what an accepted ticket proves.
\<close>

section \<open>Text helpers\<close>

definition toUpperAscii :: "string \<Rightarrow> string" where
  "toUpperAscii s = map toupper s"

definition kDigits :: string where
  "kDigits = ''0123456789abcdef''"

definition toHex :: "bytes \<Rightarrow> string" where
  "toHex dat = concat (map (\<lambda>b. [kDigits ! unat (drop_bit 4 b), kDigits ! unat (b AND 0x0f)]) dat)"

text \<open>\<^verbatim>\<open>constantTimeEqual\<close> of this file, on strings.\<close>

definition macEqual :: "string \<Rightarrow> string \<Rightarrow> bool" where
  "macEqual left right =
     (let n = (if length left > length right then length left else length right);
          acc = ucast ((of_nat (length left) :: int64) XOR of_nat (length right))
      in foldl (\<lambda>acc i. acc OR (byteAt left i XOR byteAt right i)) acc [0..<n] = 0)"

definition unquote :: "string \<Rightarrow> string" where
  "unquote val =
     (if length val \<ge> 2 \<and> hd val = CHR 0x22 \<and> last val = CHR 0x22
      then take (length val - 2) (drop 1 val) else val)"

section \<open>Pairs\<close>

text \<open>The inner loop over a quoted value, up to the closing quote or the end; a backslash takes the
  next character as it is.\<close>

function quotedValue :: "string \<Rightarrow> nat \<Rightarrow> string \<Rightarrow> string \<times> nat" where
  "quotedValue t pos val =
     (if pos < length t \<and> t ! pos \<noteq> CHR 0x22 then
        let pos = (if t ! pos = CHR 0x5C \<and> pos + 1 < length t then pos + 1 else pos)
        in quotedValue t (pos + 1) (val @ [t ! pos])
      else (val, pos))"
  by pat_completeness auto
termination
  by (relation "measure (\<lambda>(t, pos, val). length t - pos)") auto

declare quotedValue.simps [simp del]

lemma quotedValue_ge: "quotedValue t pos val = (v, p) \<Longrightarrow> pos \<le> p"
proof (induction t pos val rule: quotedValue.induct)
  case (1 t pos val)
  then show ?case
    by (cases "pos < length t \<and> t ! pos \<noteq> CHR 0x22")
      (auto simp: quotedValue.simps [of t pos val] Let_def split: if_splits)
qed

definition pairValue :: "string \<Rightarrow> nat \<Rightarrow> string \<times> nat" where
  "pairValue t pos =
     (if pos < length t \<and> t ! pos = CHR 0x22 then
        (case quotedValue t (pos + 1) [] of (val, pos) \<Rightarrow>
           (val, if pos < length t \<and> t ! pos = CHR 0x22 then pos + 1 else pos))
      else case find_from (CHR '','') t pos of
        None \<Rightarrow> (drop pos t, length t)
      | Some comma \<Rightarrow> (take (comma - pos) (drop pos t), comma))"

definition isPairGap :: "char \<Rightarrow> bool" where
  "isPairGap c \<longleftrightarrow> c = CHR '','' \<or> isspace c"

lemma find_from_ge: "find_from c s pos = Some i \<Longrightarrow> pos \<le> i \<and> i < length s"
  using scan_while_ge [of pos "\<lambda>x. x \<noteq> c" s] by (auto simp: find_from_def Let_def split: if_splits)

lemma pairValue_ge: "pos \<le> length t \<Longrightarrow> pos \<le> snd (pairValue t pos)"
  by (auto simp: pairValue_def dest: quotedValue_ge find_from_ge split: prod.splits option.splits)

function pairsLoop :: "(string \<Rightarrow> string) \<Rightarrow> string \<Rightarrow> nat \<Rightarrow> string smap \<Rightarrow> string smap" where
  "pairsLoop norm t pos pairs =
     (if pos < length t then
        let pos = scan_while isPairGap t pos in
        if pos \<ge> length t then pairs
        else case find_from (CHR ''='') t pos of
          None \<Rightarrow> pairs
        | Some eq \<Rightarrow>
            let key = take (eq - pos) (drop pos t);
                r = pairValue t (eq + 1)
            in pairsLoop norm t (snd r) (smap_put (norm key) (fst r) pairs)
      else pairs)"
  by pat_completeness auto
termination
proof (relation "measure (\<lambda>(norm, t, pos, pairs). length t - pos)", goal_cases)
  case (2 norm t pos pairs pos' eq key r)
  then have "pos \<le> pos'" "pos' \<le> eq" "eq < length t"
    using scan_while_ge [of pos isPairGap t] find_from_ge by auto
  with 2 pairValue_ge [of "eq + 1" t] show ?case by simp
qed simp

declare pairsLoop.simps [simp del]

definition parsePairs :: "string \<Rightarrow> string smap" where
  "parsePairs t = pairsLoop (\<lambda>key. toLowerAscii (trim key)) t 0 []"

text \<open>\<^verbatim>\<open>pairs.count(key) ? pairs.at(key) : ""\<close>\<close>

definition pairOr :: "string smap \<Rightarrow> string \<Rightarrow> string \<Rightarrow> string" where
  "pairOr pairs key dflt = (case map_of pairs key of None \<Rightarrow> dflt | Some v \<Rightarrow> v)"

section \<open>Realms and principals\<close>

text \<open>The realm loop over the components of a base name, shared with \<^verbatim>\<open>realmFromBase\<close> of
  \<^verbatim>\<open>sasl.cpp\<close>.\<close>

function realmLoop :: "string \<Rightarrow> string \<Rightarrow> string" where
  "realmLoop others realm =
     (if others = [] then realm
      else let comma = find_char (CHR '','') others;
               rdn = (case comma of None \<Rightarrow> others | Some i \<Rightarrow> take i others);
               realm = (case parseRdn rdn of
                          None \<Rightarrow> realm
                        | Some (ty, val) \<Rightarrow>
                            if iequals ty ''dc'' then (if realm = [] then val else realm @ ''.'' @ val)
                            else realm)
           in case comma of None \<Rightarrow> realm | Some i \<Rightarrow> realmLoop (drop (i + 1) others) realm)"
  by pat_completeness auto
termination
  by (relation "measure (\<lambda>(others, realm). length others)") (auto dest: find_char_Some(1))

declare realmLoop.simps [simp del]

definition kerberosRealmFromBase :: "string \<Rightarrow> string" where
  "kerberosRealmFromBase base_dn =
     (let realm = realmLoop base_dn [] in if realm = [] then ''SIMPLE-LDAPD'' else toUpperAscii realm)"

definition normalizeKerberosPrincipal :: "string \<Rightarrow> string \<Rightarrow> string" where
  "normalizeKerberosPrincipal name realm =
     (case rfind_char (CHR ''@'') name of
        None \<Rightarrow> name
      | Some at \<Rightarrow>
          if realm \<noteq> [] \<and> \<not> iequals (drop (at + 1) name) realm then [] else take at name)"

section \<open>Keytabs\<close>

record GssapiKeytab =
  kt_realm :: string
  kt_service :: string
  kt_key :: string

definition keytabLine :: "string \<Rightarrow> GssapiKeytab \<Rightarrow> GssapiKeytab" where
  "keytabLine line keytab =
     (let line = (case find_char (CHR ''#'') line of None \<Rightarrow> line | Some i \<Rightarrow> take i line);
          line = trim line
      in if line = [] then keytab
         else case find_char (CHR ''='') line of
           None \<Rightarrow> keytab
         | Some eq \<Rightarrow>
             let key = toLowerAscii (trim (take eq line)); val = trim (drop (eq + 1) line)
             in if key = ''realm'' then keytab\<lparr>kt_realm := toUpperAscii val\<rparr>
                else if key = ''service'' then keytab\<lparr>kt_service := val\<rparr>
                else if key = ''key'' then keytab\<lparr>kt_key := val\<rparr>
                else keytab)"

text \<open>The file is its text, \<open>None\<close> when it cannot be opened; the result is the error text or the
  keytab.\<close>

definition loadGssapiKeytab :: "string option \<Rightarrow> string + GssapiKeytab" where
  "loadGssapiKeytab file =
     (case file of
        None \<Rightarrow> Inl ''cannot read GSSAPI keytab''
      | Some t \<Rightarrow>
          let keytab = fold keytabLine (splitLines t) \<lparr>kt_realm = [], kt_service = [], kt_key = []\<rparr>
          in if kt_key keytab = [] then Inl ''GSSAPI keytab is missing key''
             else Inr (if kt_service keytab = [] then keytab\<lparr>kt_service := ''ldap/localhost''\<rparr> else keytab))"

section \<open>Tickets\<close>

definition kClockSkewSeconds :: int where
  "kClockSkewSeconds = 60"

definition canonicalTicket :: "string \<Rightarrow> string \<Rightarrow> string \<Rightarrow> int \<Rightarrow> int \<Rightarrow> string" where
  "canonicalTicket realm princ service issued expiry =
     ''v=1|realm|'' @ realm @ ''|principal|'' @ princ @ ''|service|'' @ service @
     ''|issued|'' @ toStringInt issued @ ''|expiry|'' @ toStringInt expiry"

text \<open>A failed \<^verbatim>\<open>HMAC\<close> leaves the length at zero.\<close>

definition hmacSha256Hex :: "Crypto \<Rightarrow> string \<Rightarrow> string \<Rightarrow> string" where
  "hmacSha256Hex cr key dat =
     (case cr_hmacSha256 cr (bytes_of key) (bytes_of dat) of None \<Rightarrow> [] | Some digest \<Rightarrow> toHex digest)"

definition quoteMark :: string where
  "quoteMark = [CHR 0x22]"

definition encodeGssapiTicket :: "Crypto \<Rightarrow> GssapiKeytab \<Rightarrow> string \<Rightarrow> int \<Rightarrow> int \<Rightarrow> string" where
  "encodeGssapiTicket cr keytab princ issued expiry =
     (let local = normalizeKerberosPrincipal princ (kt_realm keytab) in
      if local = [] \<or> kt_key keytab = [] \<or> kt_realm keytab = [] \<or> kt_service keytab = [] then []
      else let mac = hmacSha256Hex cr (kt_key keytab)
                 (canonicalTicket (kt_realm keytab) local (kt_service keytab) issued expiry)
           in ''v=1,realm='' @ quoteMark @ kt_realm keytab @ quoteMark @ '',principal='' @ quoteMark @ local @
              quoteMark @ '',service='' @ quoteMark @ kt_service keytab @ quoteMark @ '',issued='' @
              toStringInt issued @ '',expiry='' @ toStringInt expiry @ '',mac='' @ mac)"

definition mintGssapiTicket :: "Crypto \<Rightarrow> GssapiKeytab \<Rightarrow> string \<Rightarrow> int \<Rightarrow> int \<Rightarrow> string" where
  "mintGssapiTicket cr keytab princ lifetime_seconds now =
     (if lifetime_seconds \<le> 0 then []
      else encodeGssapiTicket cr keytab princ now (now + lifetime_seconds))"

text \<open>The result is the error text or the principal.\<close>

definition verifyGssapiTicket :: "Crypto \<Rightarrow> GssapiKeytab \<Rightarrow> string \<Rightarrow> int \<Rightarrow> string + string" where
  "verifyGssapiTicket cr keytab credentials now =
     (if kt_key keytab = [] \<or> kt_realm keytab = [] \<or> kt_service keytab = [] then
        Inl ''GSSAPI keytab is incomplete''
      else let pairs = parsePairs credentials;
               version = unquote (pairOr pairs ''v'' []);
               realm = unquote (pairOr pairs ''realm'' []);
               name = unquote (pairOr pairs ''principal'' []);
               service = unquote (pairOr pairs ''service'' []);
               issued_text = unquote (pairOr pairs ''issued'' []);
               expiry_text = unquote (pairOr pairs ''expiry'' []);
               mac = unquote (pairOr pairs ''mac'' [])
           in if version \<noteq> ''1'' \<or> name = [] \<or> issued_text = [] \<or> expiry_text = [] \<or> mac = [] then
                Inl ''invalid GSSAPI ticket''
              else if \<not> iequals realm (kt_realm keytab) \<or> \<not> iequals service (kt_service keytab) then
                Inl ''GSSAPI ticket realm or service mismatch''
              else case (stoll issued_text, stoll expiry_text) of
                (Some issued, Some expiry) \<Rightarrow>
                  if expiry < now - kClockSkewSeconds \<or> issued > now + kClockSkewSeconds \<or> issued \<ge> expiry then
                    Inl ''GSSAPI ticket expired''
                  else if \<not> macEqual (toLowerAscii mac) (hmacSha256Hex cr (kt_key keytab)
                         (canonicalTicket (kt_realm keytab) name (kt_service keytab) issued expiry)) then
                    Inl ''invalid GSSAPI ticket''
                  else Inr name
              | _ \<Rightarrow> Inl ''invalid GSSAPI ticket timestamps'')"


section \<open>Printed numbers\<close>

lemma set_toStringInt: "c \<in> set (toStringInt n) \<Longrightarrow> isdigit c \<or> c = CHR ''-''"
  using natDigits_isdigit by (auto simp: toStringInt_def list_all_iff split: if_splits)

lemma toStringInt_neq_Nil [simp]: "toStringInt n \<noteq> []"
  by (simp add: toStringInt_def)

lemma scanInteger_toStringInt: "scanInteger (toStringInt n) = Some (n, [])"
proof (cases "n < 0")
  case True
  obtain d where d: "natDigits (nat (- n)) = d" by simp
  have "takeWhile isdigit d = d" "dropWhile isdigit d = []" "d \<noteq> []"
    using natDigits_isdigit [of "nat (- n)"] d by (auto simp: list_all_iff)
  moreover have "digitsVal d = - n" using digitsVal_natDigits [of "nat (- n)"] True d by simp
  ultimately show ?thesis
    using True d by (simp add: toStringInt_def scanInteger_def Let_def isspace_def del: takeWhile_eq_all_conv)
next
  case False
  then show ?thesis using scanInteger_natDigits [of "nat n"] by (simp add: toStringInt_def)
qed

lemma cStr_toStringInt: "cStr (toStringInt n) = toStringInt n"
  using set_toStringInt [of "CHR 0x00" n] by (auto simp: cStr_def isdigit_def takeWhile_eq_all_conv)

lemma toStringInt_inj: "toStringInt m = toStringInt n \<longleftrightarrow> m = n"
  by (metis scanInteger_toStringInt option.inject prod.inject)

lemma stoll_toStringInt: "- (2 ^ 63) \<le> n \<Longrightarrow> n < 2 ^ 63 \<Longrightarrow> stoll (toStringInt n) = Some n"
  by (simp add: stoll_def cStr_toStringInt scanInteger_toStringInt)

section \<open>The canonical text\<close>

lemma last_split_eq:
  assumes "c \<notin> set ys" "c \<notin> set ys'"
  shows "xs @ c # ys = xs' @ c # ys' \<longleftrightarrow> xs = xs' \<and> ys = ys'"
proof
  assume eq: "xs @ c # ys = xs' @ c # ys'"
  have "takeWhile (\<lambda>x. x \<noteq> c) (rev (zs @ c # ws)) = rev ws" if "c \<notin> set ws" for zs ws
    using that by (simp add: takeWhile_append)
  from this [OF assms(1), of xs] this [OF assms(2), of xs'] eq have "ys = ys'" by simp
  with eq show "xs = xs' \<and> ys = ys'" by simp
qed simp

lemma bar_notin: "CHR ''|'' \<notin> set (toStringInt n)"
  using set_toStringInt [of "CHR ''|''" n] by (auto simp: isdigit_def)

lemma labelled_eq:
  assumes "c \<notin> set l" "c \<notin> set ys" "c \<notin> set ys'"
  shows "xs @ c # l @ c # ys = xs' @ c # l @ c # ys' \<longleftrightarrow> xs = xs' \<and> ys = ys'"
  using last_split_eq [OF assms(2,3), of "xs @ c # l" "xs' @ c # l"] last_split_eq [of c l l xs xs'] assms(1)
  by auto

lemma canonicalTicket_inj:
  "canonicalTicket r p s i e = canonicalTicket r p' s i' e' \<longleftrightarrow> p = p' \<and> i = i' \<and> e = e'"
proof
  define x where "x p = ''v=1|realm|'' @ r @ ''|principal|'' @ p @ ''|service|'' @ s" for p
  have form: "canonicalTicket r p s i e = (x p @ CHR ''|'' # ''issued'' @ CHR ''|'' # toStringInt i) @
      CHR ''|'' # ''expiry'' @ CHR ''|'' # toStringInt e" for p i e
    by (simp add: canonicalTicket_def x_def)
  assume eq: "canonicalTicket r p s i e = canonicalTicket r p' s i' e'"
  have "CHR ''|'' \<notin> set ''expiry''" "CHR ''|'' \<notin> set ''issued''" by simp_all
  note lab = labelled_eq [OF this(1) bar_notin bar_notin] labelled_eq [OF this(2) bar_notin bar_notin]
  from eq [unfolded form lab] have "x p = x p'" "toStringInt i = toStringInt i'" "toStringInt e = toStringInt e'"
    by blast+
  then show "p = p' \<and> i = i' \<and> e = e'" by (simp add: toStringInt_inj x_def)
qed simp


section \<open>Reading pairs back\<close>

lemma quotedValue_plain:
  assumes "CHR 0x22 \<notin> set v" "CHR 0x5C \<notin> set v"
  shows "quotedValue (pre @ v @ CHR 0x22 # post) (length pre) acc = (acc @ v, length pre + length v)"
  using assms
proof (induction v arbitrary: pre acc)
  case Nil
  then show ?case by (subst quotedValue.simps) (simp add: nth_append)
next
  case (Cons c v)
  with Cons.IH [of "pre @ [c]" "acc @ [c]"] show ?case
    by (subst quotedValue.simps) (auto simp: nth_append Let_def)
qed

lemma pairValue_quoted:
  assumes "CHR 0x22 \<notin> set v" "CHR 0x5C \<notin> set v"
  shows "pairValue (pre @ (quoteMark @ v @ quoteMark) @ post) (length pre) =
    (v, length (pre @ quoteMark @ v @ quoteMark))"
proof -
  have "pre @ (quoteMark @ v @ quoteMark) @ post = (pre @ [CHR 0x22]) @ v @ CHR 0x22 # post"
    by (simp add: quoteMark_def)
  with quotedValue_plain [OF assms, of "pre @ [CHR 0x22]" post "[]"] show ?thesis
    by (simp add: pairValue_def nth_append quoteMark_def)
qed

lemma pairValue_plain:
  assumes "CHR '','' \<notin> set v" "v = [] \<or> hd v \<noteq> CHR 0x22" "post = [] \<or> hd post = CHR '',''"
  shows "pairValue (pre @ v @ post) (length pre) = (v, length (pre @ v))"
proof -
  have "\<not> (length pre < length (pre @ v @ post) \<and> (pre @ v @ post) ! length pre = CHR 0x22)"
    using assms(2,3) by (cases v; cases post) (auto simp: nth_append)
  moreover have "find_from (CHR '','') (pre @ v @ post) (length pre) =
      (if post = [] then None else Some (length (pre @ v)))"
  proof (cases post)
    case Nil
    have "list_all (\<lambda>x. x \<noteq> CHR '','') v" using assms(1) by (auto simp: list_all_iff)
    from scan_while_append [OF this, of "[]" pre] Nil show ?thesis by (simp add: find_from_def)
  next
    case (Cons c p)
    with assms(3) find_from_append [OF assms(1), of pre p] show ?thesis by simp
  qed
  ultimately have "pairValue (pre @ v @ post) (length pre) =
      (if post = [] then (drop (length pre) (pre @ v @ post), length (pre @ v @ post))
       else (take (length (pre @ v) - length pre) (drop (length pre) (pre @ v @ post)), length (pre @ v)))"
    unfolding pairValue_def by (simp only: if_False) (simp split: if_split)
  then show ?thesis by simp
qed

text \<open>One round: separators, a key and a value that is read as \<open>v\<close>.\<close>

lemma pairsLoop_step:
  assumes "list_all isPairGap gap" and "key \<noteq> []" "\<not> isPairGap (hd key)" "CHR ''='' \<notin> set key"
    and v: "pairValue ((pre @ gap @ key @ ''='') @ val @ post) (length (pre @ gap @ key @ ''='')) =
      (v, length ((pre @ gap @ key @ ''='') @ val))"
  shows "pairsLoop norm (pre @ gap @ key @ ''='' @ val @ post) (length pre) pairs =
    pairsLoop norm ((pre @ gap @ key @ ''='' @ val) @ post) (length (pre @ gap @ key @ ''='' @ val))
      (smap_put (norm key) v pairs)"
proof -
  define t where "t = pre @ gap @ key @ ''='' @ val @ post"
  have "scan_while isPairGap (pre @ gap @ (key @ ''='' @ val @ post)) (length pre) = length pre + length gap"
    using assms(2,3) by (intro scan_while_append assms(1)) simp
  then have skip: "scan_while isPairGap t (length pre) = length pre + length gap" by (simp add: t_def)
  have eq: "find_from (CHR ''='') t (length pre + length gap) = Some (length pre + length gap + length key)"
    using find_from_append [OF assms(4), of "pre @ gap" "val @ post"] by (simp add: t_def)
  have key: "take (length key) (drop (length pre + length gap) t) = key" by (simp add: t_def)
  have pv: "pairValue t (length pre + length gap + length key + 1) = (v, length (pre @ gap @ key @ ''='' @ val))"
    using v by (simp add: add.assoc t_def)
  have len: "length pre < length t" "\<not> length t \<le> length pre + length gap"
    using assms(2) by (simp_all add: t_def)
  have "pairsLoop norm t (length pre) pairs =
    pairsLoop norm t (length (pre @ gap @ key @ ''='' @ val)) (smap_put (norm key) v pairs)"
    by (subst pairsLoop.simps) (simp only: len skip eq key pv Let_def if_True if_False option.case diff_add_inverse fst_conv snd_conv)
  then show ?thesis by (simp add: t_def)
qed

text \<open>A pair as it is written, with the value it stands for.\<close>

datatype written = Quoted string string | Plain string string

fun writtenText :: "written \<Rightarrow> string" where
  "writtenText (Quoted k v) = k @ ''='' @ quoteMark @ v @ quoteMark"
| "writtenText (Plain k v) = k @ ''='' @ v"

fun written_ok :: "written \<Rightarrow> bool" where
  "written_ok (Quoted k v) \<longleftrightarrow> k \<noteq> [] \<and> \<not> isPairGap (hd k) \<and> CHR ''='' \<notin> set k \<and>
     CHR 0x22 \<notin> set v \<and> CHR 0x5C \<notin> set v"
| "written_ok (Plain k v) \<longleftrightarrow> k \<noteq> [] \<and> \<not> isPairGap (hd k) \<and> CHR ''='' \<notin> set k \<and>
     CHR '','' \<notin> set v \<and> (v = [] \<or> hd v \<noteq> CHR 0x22)"

fun writtenPut :: "(string \<Rightarrow> string) \<Rightarrow> written \<Rightarrow> string smap \<Rightarrow> string smap" where
  "writtenPut norm (Quoted k v) = smap_put (norm k) v"
| "writtenPut norm (Plain k v) = smap_put (norm k) v"

lemma pairsLoop_written:
  assumes "written_ok w" "list_all isPairGap gap" "post = [] \<or> hd post = CHR '',''"
  shows "pairsLoop norm (pre @ gap @ writtenText w @ post) (length pre) pairs =
    pairsLoop norm ((pre @ gap @ writtenText w) @ post) (length (pre @ gap @ writtenText w)) (writtenPut norm w pairs)"
proof (cases w)
  case (Quoted k v)
  with assms(1) pairValue_quoted [of v "pre @ gap @ k @ ''=''" post] show ?thesis
    using pairsLoop_step [OF assms(2), of k pre "quoteMark @ v @ quoteMark" post v norm pairs] by simp
next
  case (Plain k v)
  with assms(1) pairValue_plain [of v post "pre @ gap @ k @ ''=''"] assms(3) show ?thesis
    using pairsLoop_step [OF assms(2), of k pre v post v norm pairs] by simp
qed

lemma pairsLoop_end: "pairsLoop norm t (length t) pairs = pairs"
  by (subst pairsLoop.simps) simp

lemma pairsLoop_items:
  assumes "list_all written_ok ws"
  shows "pairsLoop norm (pre @ concat (map (\<lambda>w. '','' @ writtenText w) ws)) (length pre) pairs =
    fold (writtenPut norm) ws pairs"
  using assms
proof (induction ws arbitrary: pre pairs)
  case Nil
  then show ?case by (simp add: pairsLoop_end)
next
  case (Cons w ws)
  let ?post = "concat (map (\<lambda>w. '','' @ writtenText w) ws)"
  have post: "?post = [] \<or> hd ?post = CHR '',''" by (cases ws) simp_all
  have gap: "list_all isPairGap '',''" by (simp add: isPairGap_def)
  from Cons.prems have "written_ok w" by simp
  from pairsLoop_written [OF this gap post, of norm pre pairs]
    Cons.IH [of "pre @ '','' @ writtenText w" "writtenPut norm w pairs"] Cons.prems
  show ?case by simp
qed

lemma pairsLoop_text:
  assumes "list_all written_ok (w # ws)"
  shows "pairsLoop norm (writtenText w @ concat (map (\<lambda>w. '','' @ writtenText w) ws)) 0 [] =
    fold (writtenPut norm) (w # ws) []"
proof -
  let ?post = "concat (map (\<lambda>w. '','' @ writtenText w) ws)"
  have post: "?post = [] \<or> hd ?post = CHR '',''" by (cases ws) simp_all
  have "written_ok w" "list_all written_ok ws" using assms by simp_all
  from pairsLoop_written [OF this(1) _ post, of "[]" norm "[]" "[]"]
    pairsLoop_items [OF this(2), of norm "writtenText w"]
  show ?thesis by simp
qed


section \<open>Tickets read back\<close>

lemma unquote_plain: "CHR 0x22 \<notin> set v \<Longrightarrow> unquote v = v"
  by (cases v) (auto simp: unquote_def)

lemma kDigits_nth: "n < 16 \<Longrightarrow> kDigits ! n \<in> set kDigits"
proof -
  have "length kDigits = 16" by (simp add: kDigits_def)
  then show "n < 16 \<Longrightarrow> ?thesis" by (metis nth_mem)
qed

lemma kDigits_chars: "c \<in> set kDigits \<Longrightarrow> c \<noteq> CHR '','' \<and> c \<noteq> CHR 0x22 \<and> tolower c = c"
  by (auto simp: kDigits_def tolower_def isupper_def)

lemma set_toHex: "set (toHex bs) \<subseteq> set kDigits"
proof -
  have "unat (drop_bit 4 b) < 16" "unat (b AND 15) < 16" for b :: byte
  proof -
    have "unat (drop_bit 4 b) = unat b div 16" by (simp only: unat_drop_bit_eq) (simp add: drop_bit_eq_div)
    then show "unat (drop_bit 4 b) < 16" using unsigned_less [of b, where ?'a = nat] by simp
    have "b AND 15 = take_bit 4 b" by (simp add: take_bit_eq_mask mask_eq_exp_minus_1)
    then show "unat (b AND 15) < 16"
      using take_bit_nat_less_exp [of 4 "unat b"] by (simp add: unsigned_take_bit_eq)
  qed
  then show ?thesis by (auto simp: toHex_def kDigits_nth)
qed

lemma toHex_eq_Nil [simp]: "toHex bs = [] \<longleftrightarrow> bs = []"
  by (auto simp: toHex_def)

lemma toLowerAscii_toHex: "toLowerAscii (toHex bs) = toHex bs"
  unfolding toLowerAscii_def using set_toHex kDigits_chars by (intro map_idI) blast

lemma macEqual_eq: "macEqual = passwordsEqual"
  by (intro ext) (simp add: macEqual_def passwordsEqual_def)

definition quotable :: "string \<Rightarrow> bool" where
  "quotable s \<longleftrightarrow> s \<noteq> [] \<and> CHR 0x22 \<notin> set s \<and> CHR 0x5C \<notin> set s"

definition keytab_ok :: "GssapiKeytab \<Rightarrow> bool" where
  "keytab_ok kt \<longleftrightarrow> quotable (kt_realm kt) \<and> quotable (kt_service kt) \<and> kt_key kt \<noteq> []"

lemma ticket_keys:
  "toLowerAscii (trim ''v'') = ''v''" "toLowerAscii (trim ''realm'') = ''realm''"
  "toLowerAscii (trim ''principal'') = ''principal''" "toLowerAscii (trim ''service'') = ''service''"
  "toLowerAscii (trim ''issued'') = ''issued''" "toLowerAscii (trim ''expiry'') = ''expiry''"
  "toLowerAscii (trim ''mac'') = ''mac''"
  by code_simp+

lemma parsePairs_ticket:
  assumes "quotable r" "quotable p" "quotable s" and mac_def: "mac = toHex bs"
    and ps_def: "ps = parsePairs (''v=1,realm='' @ quoteMark @ r @ quoteMark @ '',principal='' @ quoteMark @ p @
              quoteMark @ '',service='' @ quoteMark @ s @ quoteMark @ '',issued='' @
              toStringInt i @ '',expiry='' @ toStringInt e @ '',mac='' @ mac)"
  shows "map_of ps ''v'' = Some ''1''" "map_of ps ''realm'' = Some r" "map_of ps ''principal'' = Some p"
    "map_of ps ''service'' = Some s" "map_of ps ''issued'' = Some (toStringInt i)"
    "map_of ps ''expiry'' = Some (toStringInt e)" "map_of ps ''mac'' = Some mac"
proof -
  let ?w = "Plain ''v'' ''1''"
  let ?ws = "[Quoted ''realm'' r, Quoted ''principal'' p, Quoted ''service'' s,
    Plain ''issued'' (toStringInt i), Plain ''expiry'' (toStringInt e), Plain ''mac'' mac]"
  have num: "CHR '','' \<notin> set (toStringInt n)" "hd (toStringInt n) \<noteq> CHR 0x22" for n
    using set_toStringInt [of "CHR '',''" n] set_toStringInt [of "hd (toStringInt n)" n]
    by (auto simp: isdigit_def)
  have "CHR '','' \<notin> set mac" "CHR 0x22 \<notin> set mac"
    unfolding mac_def using set_toHex [of bs] kDigits_chars by blast+
  then have "list_all written_ok (?w # ?ws)"
    using assms(1-3) num by (cases mac) (auto simp: quotable_def isPairGap_def isspace_def)
  from pairsLoop_text [OF this, of "\<lambda>key. toLowerAscii (trim key)"]
  have "ps = fold (writtenPut (\<lambda>key. toLowerAscii (trim key))) (?w # ?ws) []"
    by (simp add: ps_def parsePairs_def)
  then have ps: "ps = smap_put ''mac'' mac (smap_put ''expiry'' (toStringInt e) (smap_put ''issued'' (toStringInt i)
     (smap_put ''service'' s (smap_put ''principal'' p (smap_put ''realm'' r (smap_put ''v'' ''1'' []))))))"
    by (simp only: fold_simps writtenPut.simps ticket_keys comp_apply id_apply)
  show "map_of ps ''v'' = Some ''1''" "map_of ps ''realm'' = Some r" "map_of ps ''principal'' = Some p"
    "map_of ps ''service'' = Some s" "map_of ps ''issued'' = Some (toStringInt i)"
    "map_of ps ''expiry'' = Some (toStringInt e)" "map_of ps ''mac'' = Some mac"
    unfolding ps map_of_smap_put by simp_all
qed

definition hmac_works :: "Crypto \<Rightarrow> bool" where
  "hmac_works cr \<longleftrightarrow> (\<forall>k d. \<exists>m. cr_hmacSha256 cr k d = Some m \<and> m \<noteq> [])"

lemma hmacSha256Hex_hex: "hmac_works cr \<Longrightarrow> \<exists>bs. hmacSha256Hex cr k d = toHex bs \<and> bs \<noteq> []"
  unfolding hmac_works_def hmacSha256Hex_def by (metis option.simps(5))

lemma verify_encoded:
  assumes kt: "keytab_ok kt" and "hmac_works cr"
    and p: "normalizeKerberosPrincipal princ (kt_realm kt) = p" "quotable p"
    and range: "- (2 ^ 63) \<le> i" "i < e" "e < 2 ^ 63"
    and now: "e \<ge> now - kClockSkewSeconds" "i \<le> now + kClockSkewSeconds"
  shows "verifyGssapiTicket cr kt (encodeGssapiTicket cr kt princ i e) now = Inr p"
proof -
  define canon where "canon = canonicalTicket (kt_realm kt) p (kt_service kt) i e"
  obtain bs where mac: "hmacSha256Hex cr (kt_key kt) canon = toHex bs" "bs \<noteq> []"
    using hmacSha256Hex_hex [OF assms(2)] by blast
  define ps where "ps = parsePairs (encodeGssapiTicket cr kt princ i e)"
  have q: "quotable (kt_realm kt)" "quotable (kt_service kt)" "kt_key kt \<noteq> []"
    using kt by (simp_all add: keytab_ok_def)
  then have ne: "kt_realm kt \<noteq> []" "kt_service kt \<noteq> []" "p \<noteq> []" using p(2) by (auto simp: quotable_def)
  have t: "ps = parsePairs (''v=1,realm='' @ quoteMark @ kt_realm kt @ quoteMark @ '',principal='' @ quoteMark @ p @
              quoteMark @ '',service='' @ quoteMark @ kt_service kt @ quoteMark @ '',issued='' @
              toStringInt i @ '',expiry='' @ toStringInt e @ '',mac='' @ toHex bs)"
    unfolding ps_def encodeGssapiTicket_def Let_def p(1) canon_def [symmetric] mac(1)
    using q ne by simp
  note look = parsePairs_ticket [OF q(1) p(2) q(2) refl t]
  have "CHR 0x22 \<notin> set (toHex bs)" using set_toHex [of bs] kDigits_chars by blast
  moreover have "CHR 0x22 \<notin> set (toStringInt n)" for n
    using set_toStringInt [of "CHR 0x22" n] by (auto simp: isdigit_def)
  ultimately have unq: "unquote (toHex bs) = toHex bs" "unquote (toStringInt n) = toStringInt n"
      "unquote (kt_realm kt) = kt_realm kt" "unquote p = p" "unquote (kt_service kt) = kt_service kt"
      "unquote ''1'' = ''1''" for n
    using q p(2) by (auto simp: quotable_def intro: unquote_plain)
  have num: "stoll (toStringInt i) = Some i" "stoll (toStringInt e) = Some e"
    using range by (auto intro: stoll_toStringInt)
  have time: "\<not> (e < now - kClockSkewSeconds \<or> i > now + kClockSkewSeconds \<or> i \<ge> e)"
    using now range(2) by simp
  show ?thesis
    unfolding verifyGssapiTicket_def Let_def ps_def [symmetric] pairOr_def look
    by (simp add: unq num ne q(3) mac canon_def [symmetric] toLowerAscii_toHex macEqual_eq time)
qed

section \<open>Properties\<close>

text \<open>The text a ticket's code is computed over is unambiguous: two tickets of one keytab with
  the same text have the same principal and the same times, whatever characters the principal is
  made of.\<close>

lemma canonical_ticket_injective:
  "canonicalTicket realm p service issued expiry = canonicalTicket realm p' service issued' expiry' \<longleftrightarrow>
     p = p' \<and> issued = issued' \<and> expiry = expiry'"
  by (rule canonicalTicket_inj)

text \<open>C36: A minted ticket verifies: from a minute before it was issued until a minute after it
  expires, for a keytab and a principal without quotes and backslashes, and the result is the
  principal without its realm.\<close>

theorem minted_ticket_verifies:
  assumes "keytab_ok kt" and "hmac_works cr"
    and "normalizeKerberosPrincipal princ (kt_realm kt) = p" and "quotable p"
    and "0 < lifetime" and "0 \<le> now" and "now + lifetime < 2 ^ 63"
    and "now \<le> later + kClockSkewSeconds" and "later - kClockSkewSeconds \<le> now + lifetime"
  shows "verifyGssapiTicket cr kt (mintGssapiTicket cr kt princ lifetime now) later = Inr p"
  using assms verify_encoded [OF assms(1-4), of now "now + lifetime" later]
  by (simp add: mintGssapiTicket_def)

theorem minted_ticket_verifies_witness:
  "verifyGssapiTicket demoCrypto \<lparr>kt_realm = ''R'', kt_service = ''s'', kt_key = ''k''\<rparr>
     (mintGssapiTicket demoCrypto \<lparr>kt_realm = ''R'', kt_service = ''s'', kt_key = ''k''\<rparr> ''al@r'' 300 1000) 1359 = Inr ''al''"
proof (rule minted_ticket_verifies)
  show "keytab_ok \<lparr>kt_realm = ''R'', kt_service = ''s'', kt_key = ''k''\<rparr>"
    by (simp add: keytab_ok_def quotable_def)
  show "hmac_works demoCrypto" by (simp add: hmac_works_def demoCrypto_def)
  show "normalizeKerberosPrincipal ''al@r'' (kt_realm \<lparr>kt_realm = ''R'', kt_service = ''s'', kt_key = ''k''\<rparr>) = ''al''"
    by code_simp
qed (simp_all add: quotable_def kClockSkewSeconds_def)

end
