(* ===== verification/Config.thy ===== *)
theory Config
  imports CppStd Dn
begin

text \<open>
  Access rules and configuration: \<^verbatim>\<open>parseAclLine\<close> of \<^verbatim>\<open>src/simple-ldapd/security/acl.cpp\<close>,
  \<^verbatim>\<open>parseLogLevel\<close> of \<^verbatim>\<open>utils/logger.cpp\<close> and the key-value parser and validation of
  \<^verbatim>\<open>src/simple-ldapd/config/config.cpp\<close>.  A configuration file is its text; whether a keytab path
  can be opened is a parameter, and so is whether the build has SQLite.  A number that
  \<^verbatim>\<open>std::stoi\<close> or \<^verbatim>\<open>std::stoul\<close> refuses ends the load with an exception, which is \<open>None\<close>.
\<close>

section \<open>Access rules\<close>

datatype AclWhoKind = Anyone | Anonymous | Users | DnWho | Group

datatype AclPermission = SearchPerm | WritePerm

record AclRule =
  ar_who :: AclWhoKind
  ar_who_value :: string
  ar_permission :: AclPermission
  ar_target :: string

definition startsWith :: "string \<Rightarrow> string \<Rightarrow> bool" where
  "startsWith p s \<longleftrightarrow> take (length p) s = p"

text \<open>The result is a rule or the error text.\<close>

definition parseAclLine :: "string \<Rightarrow> string + AclRule" where
  "parseAclLine line =
     (case extractWord line of
        None \<Rightarrow> Inl ''acl requires who and permission''
      | Some (who, rest1) \<Rightarrow>
          (case extractWord rest1 of
             None \<Rightarrow> Inl ''acl requires who and permission''
           | Some (perm, rest2) \<Rightarrow>
               let target = trim (restOfLine rest2);
                   who_key = toLowerAscii who;
                   who_res =
                     (if who_key = ''*'' \<or> who_key = ''anyone'' then Inr (Anyone, [])
                      else if who_key = ''anonymous'' then Inr (Anonymous, [])
                      else if who_key = ''users'' then Inr (Users, [])
                      else if startsWith ''dn:'' who_key then
                        (if drop 3 who = [] then Inl ''acl dn: is empty'' else Inr (DnWho, drop 3 who))
                      else if startsWith ''group:'' who_key then
                        (if drop 6 who = [] then Inl ''acl group: is empty'' else Inr (Group, drop 6 who))
                      else Inl ''acl who must be anonymous, users, *, dn:..., or group:...'')
               in case who_res of
                    Inl err \<Rightarrow> Inl err
                  | Inr (kind, val) \<Rightarrow>
                      let perm_key = toLowerAscii perm;
                          perm_res =
                            (if perm_key = ''search'' then Some SearchPerm
                             else if perm_key = ''write'' \<or> perm_key = ''*'' then Some WritePerm
                             else None)
                      in case perm_res of
                           None \<Rightarrow> Inl ''acl permission must be search or write''
                         | Some p \<Rightarrow>
                             Inr \<lparr>ar_who = kind, ar_who_value = val, ar_permission = p,
                                  ar_target = (if target = [] \<or> target = ''*'' then [] else target)\<rparr>))"

section \<open>The configuration\<close>

datatype LogLevel = DebugLevel | InfoLevel | WarningLevel | ErrorLevel | FatalLevel

definition parseLogLevel :: "string \<Rightarrow> LogLevel option" where
  "parseLogLevel name =
     (let lower = toLowerAscii name in
      if lower = ''debug'' then Some DebugLevel
      else if lower = ''info'' then Some InfoLevel
      else if lower = ''warning'' \<or> lower = ''warn'' then Some WarningLevel
      else if lower = ''error'' then Some ErrorLevel
      else if lower = ''fatal'' then Some FatalLevel
      else None)"

record LdapConfig =
  cf_listen_address :: string
  cf_ldap_port :: "16 word"
  cf_ldaps_port :: "16 word"
  cf_enable_ldaps :: bool
  cf_enable_starttls :: bool
  cf_tls_cert_file :: string
  cf_tls_key_file :: string
  cf_tls_ca_file :: string
  cf_tls_verify_client :: bool
  cf_backend :: string
  cf_ldif_file :: string
  cf_sqlite_file :: string
  cf_schema_dir :: string
  cf_base_dn :: string
  cf_root_dn :: string
  cf_root_password :: string
  cf_log_file :: string
  cf_log_level :: string
  cf_bind_rate_limit :: int32
  cf_max_pdu_size :: int32
  cf_max_sessions :: int32
  cf_idle_timeout :: int32
  cf_foreground :: bool
  cf_require_confidentiality :: bool
  cf_krb_realm :: string
  cf_gssapi_keytab :: string
  cf_gssapi_service :: string
  cf_acls :: "AclRule list"
  cf_acl_errors :: "string list"

definition defaultConfig :: LdapConfig where
  "defaultConfig =
     \<lparr>cf_listen_address = ''0.0.0.0'', cf_ldap_port = 389, cf_ldaps_port = 636, cf_enable_ldaps = False,
      cf_enable_starttls = False, cf_tls_cert_file = [], cf_tls_key_file = [], cf_tls_ca_file = [],
      cf_tls_verify_client = False, cf_backend = ''memory'', cf_ldif_file = [], cf_sqlite_file = [],
      cf_schema_dir = ''schemas'', cf_base_dn = ''dc=example,dc=com'',
      cf_root_dn = ''cn=admin,dc=example,dc=com'', cf_root_password = [], cf_log_file = [],
      cf_log_level = ''info'', cf_bind_rate_limit = 0, cf_max_pdu_size = 1024 * 1024,
      cf_max_sessions = 0, cf_idle_timeout = 0, cf_foreground = True,
      cf_require_confidentiality = False, cf_krb_realm = [], cf_gssapi_keytab = [],
      cf_gssapi_service = [], cf_acls = [], cf_acl_errors = []\<rparr>"

definition parseBool :: "string \<Rightarrow> bool" where
  "parseBool val =
     (let lower = toLowerAscii val
      in lower = ''1'' \<or> lower = ''true'' \<or> lower = ''yes'' \<or> lower = ''on'')"

text \<open>One key and its value; \<open>None\<close> is an exception of the number parser.\<close>

definition setKey :: "string \<Rightarrow> string \<Rightarrow> LdapConfig \<Rightarrow> LdapConfig option" where
  "setKey key val c =
     (if key = ''listen_address'' then Some (c\<lparr>cf_listen_address := val\<rparr>)
      else if key = ''ldap_port'' then map_option (\<lambda>n. c\<lparr>cf_ldap_port := of_int n\<rparr>) (stoi val)
      else if key = ''ldaps_port'' then map_option (\<lambda>n. c\<lparr>cf_ldaps_port := of_int n\<rparr>) (stoi val)
      else if key = ''enable_ldaps'' then Some (c\<lparr>cf_enable_ldaps := parseBool val\<rparr>)
      else if key = ''enable_starttls'' then Some (c\<lparr>cf_enable_starttls := parseBool val\<rparr>)
      else if key = ''tls_cert_file'' then Some (c\<lparr>cf_tls_cert_file := val\<rparr>)
      else if key = ''tls_key_file'' then Some (c\<lparr>cf_tls_key_file := val\<rparr>)
      else if key = ''tls_ca_file'' then Some (c\<lparr>cf_tls_ca_file := val\<rparr>)
      else if key = ''tls_verify_client'' then Some (c\<lparr>cf_tls_verify_client := parseBool val\<rparr>)
      else if key = ''backend'' then Some (c\<lparr>cf_backend := val\<rparr>)
      else if key = ''ldif_file'' then Some (c\<lparr>cf_ldif_file := val\<rparr>)
      else if key = ''sqlite_file'' then Some (c\<lparr>cf_sqlite_file := val\<rparr>)
      else if key = ''schema_dir'' then Some (c\<lparr>cf_schema_dir := val\<rparr>)
      else if key = ''base_dn'' then Some (c\<lparr>cf_base_dn := val\<rparr>)
      else if key = ''root_dn'' then Some (c\<lparr>cf_root_dn := val\<rparr>)
      else if key = ''root_password'' then Some (c\<lparr>cf_root_password := val\<rparr>)
      else if key = ''log_file'' then Some (c\<lparr>cf_log_file := val\<rparr>)
      else if key = ''log_level'' then Some (c\<lparr>cf_log_level := val\<rparr>)
      else if key = ''bind_rate_limit'' then map_option (\<lambda>n. c\<lparr>cf_bind_rate_limit := of_int n\<rparr>) (stoul val)
      else if key = ''max_pdu_size'' then map_option (\<lambda>n. c\<lparr>cf_max_pdu_size := of_int n\<rparr>) (stoul val)
      else if key = ''max_sessions'' then map_option (\<lambda>n. c\<lparr>cf_max_sessions := of_int n\<rparr>) (stoul val)
      else if key = ''idle_timeout'' then map_option (\<lambda>n. c\<lparr>cf_idle_timeout := of_int n\<rparr>) (stoul val)
      else if key = ''foreground'' then Some (c\<lparr>cf_foreground := parseBool val\<rparr>)
      else if key = ''require_confidentiality'' then Some (c\<lparr>cf_require_confidentiality := parseBool val\<rparr>)
      else if key = ''krb_realm'' then Some (c\<lparr>cf_krb_realm := val\<rparr>)
      else if key = ''gssapi_keytab'' then Some (c\<lparr>cf_gssapi_keytab := val\<rparr>)
      else if key = ''gssapi_service'' then Some (c\<lparr>cf_gssapi_service := val\<rparr>)
      else if key = ''acl'' then
        (case parseAclLine val of
           Inl err \<Rightarrow> Some (c\<lparr>cf_acl_errors := cf_acl_errors c @ [if err = [] then ''invalid acl'' else err]\<rparr>)
         | Inr rule \<Rightarrow> Some (c\<lparr>cf_acls := cf_acls c @ [rule]\<rparr>))
      else Some c)"

definition loadLine :: "string \<Rightarrow> LdapConfig \<Rightarrow> LdapConfig option" where
  "loadLine line c =
     (let line = (case find_char (CHR ''#'') line of None \<Rightarrow> line | Some i \<Rightarrow> take i line);
          line = trim line in
      if line = [] then Some c
      else case find_char (CHR ''='') line of
        None \<Rightarrow> Some c
      | Some eq \<Rightarrow> setKey (trim (take eq line)) (trim (drop (Suc eq) line)) c)"

fun loadLines :: "string list \<Rightarrow> LdapConfig \<Rightarrow> LdapConfig option" where
  "loadLines [] c = Some c"
| "loadLines (l # ls) c = (case loadLine l c of None \<Rightarrow> None | Some c' \<Rightarrow> loadLines ls c')"

text \<open>\<open>file\<close> is the contents of the file, \<open>None\<close> when it cannot be opened; the flag is the result
  of the function.\<close>

definition loadFromFile :: "string option \<Rightarrow> LdapConfig \<Rightarrow> (bool \<times> LdapConfig) option" where
  "loadFromFile file c =
     (case file of
        None \<Rightarrow> Some (False, c)
      | Some t \<Rightarrow> map_option (Pair True) (loadLines (splitLines t) c))"

definition validateDetailed :: "bool \<Rightarrow> (string \<Rightarrow> bool) \<Rightarrow> LdapConfig \<Rightarrow> string list" where
  "validateDetailed sqlite_built readable c =
     (if (cf_enable_ldaps c \<or> cf_enable_starttls c) \<and> (cf_tls_cert_file c = [] \<or> cf_tls_key_file c = [])
      then [''tls_cert_file and tls_key_file are required when TLS is enabled''] else []) @
     (if cf_tls_verify_client c \<and> cf_tls_ca_file c = []
      then [''tls_ca_file is required when tls_verify_client is true''] else []) @
     (if parseLogLevel (cf_log_level c) = None
      then [''log_level must be debug, info, warning, error, or fatal''] else []) @
     (if cf_max_pdu_size c = 0 then [''max_pdu_size must be greater than 0''] else []) @
     (if cf_backend c \<noteq> ''memory'' \<and> cf_backend c \<noteq> ''ldif'' \<and> cf_backend c \<noteq> ''sqlite''
      then [''backend must be memory, ldif, or sqlite''] else []) @
     (if cf_backend c = ''sqlite'' then
        (if sqlite_built then
           (if cf_sqlite_file c = [] then [''sqlite_file is required when backend is sqlite''] else [])
         else [''sqlite backend was not built (SQLite3 not found)'']) else []) @
     (if cf_base_dn c = [] then [''base_dn is required''] else []) @
     (if cf_gssapi_keytab c \<noteq> [] \<and> \<not> readable (cf_gssapi_keytab c)
      then [''gssapi_keytab is not readable''] else []) @
     cf_acl_errors c"

definition validate :: "bool \<Rightarrow> (string \<Rightarrow> bool) \<Rightarrow> LdapConfig \<Rightarrow> bool" where
  "validate sqlite_built readable c \<longleftrightarrow> validateDetailed sqlite_built readable c = []"

section \<open>Errors are kept\<close>

lemma setKey_errors:
  "setKey key val c = Some c' \<Longrightarrow> \<exists>es. cf_acl_errors c' = cf_acl_errors c @ es"
  unfolding setKey_def by (auto split: if_split_asm sum.split_asm)

lemma loadLine_errors: "loadLine l c = Some c' \<Longrightarrow> \<exists>es. cf_acl_errors c' = cf_acl_errors c @ es"
  by (auto simp: loadLine_def Let_def split: if_splits option.splits dest: setKey_errors)

lemma loadLines_errors: "loadLines ls c = Some c' \<Longrightarrow> \<exists>es. cf_acl_errors c' = cf_acl_errors c @ es"
proof (induction ls arbitrary: c)
  case (Cons l ls)
  then obtain c1 where c1: "loadLine l c = Some c1" "loadLines ls c1 = Some c'"
    by (auto split: option.splits)
  from loadLine_errors [OF c1(1)] Cons.IH [OF c1(2)] show ?case by auto
qed simp

lemma setKey_acl_error:
  assumes "parseAclLine val = Inl e"
  shows "\<exists>e'. setKey ''acl'' val c = Some (c\<lparr>cf_acl_errors := cf_acl_errors c @ [e']\<rparr>)"
  using assms by (intro exI [of _ "if e = [] then ''invalid acl'' else e"]) (simp add: setKey_def)

section \<open>Properties\<close>

text \<open>A bad access rule is never ignored.  If some line of a configuration file is an
  \<^verbatim>\<open>acl\<close> line whose rule does not parse, then, whatever the other lines say, the loaded
  configuration does not validate and the daemon does not start with a weaker rule set.\<close>

lemma bad_acl_never_validates:
  assumes "loadLines ls c = Some c'" and "l \<in> set ls" and "CHR ''#'' \<notin> set l"
    and "find_char (CHR ''='') (trim l) = Some i" and "trim (take i (trim l)) = ''acl''"
    and "parseAclLine (trim (drop (Suc i) (trim l))) = Inl e"
  shows "\<not> validate sqlite_built readable c'"
proof -
  from assms(1,2) have "cf_acl_errors c' \<noteq> []"
  proof (induction ls arbitrary: c)
    case (Cons a ls)
    then obtain c1 where c1: "loadLine a c = Some c1" "loadLines ls c1 = Some c'"
      by (auto split: option.splits)
    show ?case
    proof (cases "l = a")
      case True
      have "trim l \<noteq> []" using assms(4) find_char_Some(1) by fastforce
      then have "loadLine l c = setKey ''acl'' (trim (drop (Suc i) (trim l))) c"
        using assms(3-5) find_char_None [of "CHR ''#''" l] by (simp add: loadLine_def Let_def)
      with setKey_acl_error [OF assms(6), of c] c1(1) True have "cf_acl_errors c1 \<noteq> []" by auto
      with loadLines_errors [OF c1(2)] show ?thesis by auto
    next
      case False
      with Cons c1 show ?thesis by auto
    qed
  qed simp
  then show ?thesis by (simp add: validate_def validateDetailed_def)
qed

text \<open>A configuration that validates has what the daemon needs to start: a certificate and a
  key when TLS is on, a CA when client certificates are demanded, a usable PDU limit, a known
  backend, a base name, and no rejected access rule.\<close>

lemma validate_sound:
  "validate sqlite_built readable c \<Longrightarrow>
     ((cf_enable_ldaps c \<or> cf_enable_starttls c) \<longrightarrow> cf_tls_cert_file c \<noteq> [] \<and> cf_tls_key_file c \<noteq> []) \<and>
     (cf_tls_verify_client c \<longrightarrow> cf_tls_ca_file c \<noteq> []) \<and>
     cf_max_pdu_size c \<noteq> 0 \<and> cf_backend c \<in> {''memory'', ''ldif'', ''sqlite''} \<and>
     (cf_backend c = ''sqlite'' \<longrightarrow> sqlite_built \<and> cf_sqlite_file c \<noteq> []) \<and>
     cf_base_dn c \<noteq> [] \<and> cf_acl_errors c = []"
  by (auto simp: validate_def validateDetailed_def split: if_splits)

text \<open>Port numbers are cut to 16 bits instead of being refused: \<^verbatim>\<open>ldap_port = 65925\<close> is
  accepted and means port 389.\<close>

lemma port_truncated:
  "map_option cf_ldap_port (loadLine ''ldap_port = 65925'' defaultConfig) = Some 389"
  by code_simp

text \<open>A number sign starts a comment anywhere in a line, also inside a value: of the
  configured root password only the part before it is used.\<close>

lemma password_cut_at_hash:
  "map_option cf_root_password (loadLine ''root_password = top#secret'' defaultConfig) = Some ''top''"
  by code_simp

end
