(* ===== verification/MemoryBackend.thy ===== *)
theory MemoryBackend
  imports SearchFilters
begin

text \<open>
  The pluggable directory backend, \<^verbatim>\<open>include/simple-ldapd/backend/backend.hpp\<close>, and its
  in-memory implementation, \<^verbatim>\<open>src/simple-ldapd/backend/memory.cpp\<close>.  The abstract class is a
  record of its virtual functions over a state type; the in-memory state is the ordered map
  from names to entries, so that searches return entries in the order of the code.  The locale
  \<open>directory\<close> states what every client of a backend relies on: a partial map from folded names
  to entries that lookup reads and the four updates change, and the in-memory backend is shown
  to provide it.  The mutex makes every operation atomic; an operation is one step here.
\<close>

section \<open>The interface\<close>

record 's Backend =
  be_lookup :: "'s \<Rightarrow> string \<Rightarrow> DirectoryEntry option"
  be_search :: "'s \<Rightarrow> string \<Rightarrow> SearchScope \<Rightarrow> SearchFilter \<Rightarrow> DirectoryEntry list"
  be_add :: "'s \<Rightarrow> DirectoryEntry \<Rightarrow> bool \<times> 's"
  be_modify :: "'s \<Rightarrow> DirectoryEntry \<Rightarrow> bool \<times> 's"
  be_remove :: "'s \<Rightarrow> string \<Rightarrow> bool \<times> 's"
  be_rename :: "'s \<Rightarrow> string \<Rightarrow> string \<Rightarrow> bool \<times> 's"
  be_hasChildren :: "'s \<Rightarrow> string \<Rightarrow> bool"
  be_persist :: "'s \<Rightarrow> 's"

text \<open>The scope test shared by the searches.\<close>

definition inScope :: "SearchScope \<Rightarrow> string \<Rightarrow> string \<Rightarrow> bool" where
  "inScope scope dn base_dn =
     (case scope of
        Base \<Rightarrow> dnEquals dn base_dn
      | OneLevel \<Rightarrow> dnIsOneLevelChild dn base_dn
      | Subtree \<Rightarrow> dnEndsWith dn base_dn
      | UnnamedScope _ \<Rightarrow> False)"

section \<open>The in-memory backend\<close>

type_synonym MemoryState = "DirectoryEntry smap"

definition mem_lookup :: "MemoryState \<Rightarrow> string \<Rightarrow> DirectoryEntry option" where
  "mem_lookup entries dn = map_option snd (find (\<lambda>pair. dnEquals (fst pair) dn) entries)"

definition mem_search :: "MemoryState \<Rightarrow> string \<Rightarrow> SearchScope \<Rightarrow> SearchFilter \<Rightarrow> DirectoryEntry list" where
  "mem_search entries base_dn scope f =
     map snd (filter (\<lambda>pair. inScope scope (fst pair) base_dn \<and> matches f (snd pair)) entries)"

definition mem_add :: "MemoryState \<Rightarrow> DirectoryEntry \<Rightarrow> bool \<times> MemoryState" where
  "mem_add entries entry =
     (if de_dn entry = [] then (False, entries)
      else if \<exists>pair \<in> set entries. dnEquals (fst pair) (de_dn entry) then (False, entries)
      else (True, smap_put (de_dn entry) entry entries))"

definition mem_modify :: "MemoryState \<Rightarrow> DirectoryEntry \<Rightarrow> bool \<times> MemoryState" where
  "mem_modify entries entry =
     (case find (\<lambda>pair. dnEquals (fst pair) (de_dn entry)) entries of
        None \<Rightarrow> (False, entries)
      | Some (k, _) \<Rightarrow> (True, smap_put k entry entries))"

definition mem_remove :: "MemoryState \<Rightarrow> string \<Rightarrow> bool \<times> MemoryState" where
  "mem_remove entries dn =
     (case find (\<lambda>pair. dnEquals (fst pair) dn) entries of
        None \<Rightarrow> (False, entries)
      | Some (k, _) \<Rightarrow> (True, smap_del k entries))"

text \<open>The loop of \<^verbatim>\<open>rename\<close>: the last entry with the old name is the source, and any other entry
  with the new name ends the operation (\<open>None\<close>).\<close>

fun renameScan :: "string \<Rightarrow> string \<Rightarrow> MemoryState \<Rightarrow> (string \<times> DirectoryEntry) option \<Rightarrow>
    (string \<times> DirectoryEntry) option option" where
  "renameScan old new [] source = Some source"
| "renameScan old new (pair # entries) source =
     (if dnEquals (fst pair) old then renameScan old new entries (Some pair)
      else if dnEquals (fst pair) new then None
      else renameScan old new entries source)"

definition mem_rename :: "MemoryState \<Rightarrow> string \<Rightarrow> string \<Rightarrow> bool \<times> MemoryState" where
  "mem_rename entries old new =
     (if old = [] \<or> new = [] then (False, entries)
      else case renameScan old new entries None of
        None \<Rightarrow> (False, entries)
      | Some None \<Rightarrow> (False, entries)
      | Some (Some (k, entry)) \<Rightarrow>
          if dnEquals old new then (True, entries)
          else (True, smap_put new (entry\<lparr>de_dn := new\<rparr>) (smap_del k entries)))"

definition mem_hasChildren :: "MemoryState \<Rightarrow> string \<Rightarrow> bool" where
  "mem_hasChildren entries dn = (\<exists>pair \<in> set entries. dnIsOneLevelChild (fst pair) dn)"

definition memoryBackend :: "MemoryState Backend" where
  "memoryBackend =
     \<lparr>be_lookup = mem_lookup, be_search = mem_search, be_add = mem_add, be_modify = mem_modify,
      be_remove = mem_remove, be_rename = mem_rename, be_hasChildren = mem_hasChildren,
      be_persist = id\<rparr>"

section \<open>What clients rely on\<close>

text \<open>
  A directory: states satisfying \<open>inv\<close> represent a map \<open>abs\<close> from folded names to entries whose
  own name folds to the key.  Every operation reads or changes that map as an LDAP server
  expects; a failed update changes nothing.
\<close>

locale directory =
  fixes B :: "'s Backend"
    and inv :: "'s \<Rightarrow> bool"
    and abs :: "'s \<Rightarrow> string \<rightharpoonup> DirectoryEntry"
  assumes names: "inv s \<Longrightarrow> abs s n = Some e \<Longrightarrow> toLowerAscii (de_dn e) = n \<and> n \<noteq> []"
    and lookup_abs: "inv s \<Longrightarrow> be_lookup B s dn = abs s (toLowerAscii dn)"
    and search_abs: "inv s \<Longrightarrow> set (be_search B s base scope f) =
      {e. \<exists>n. abs s n = Some e \<and> inScope scope (de_dn e) base \<and> matches f e}"
    and add_abs: "inv s \<Longrightarrow> be_add B s e = (ok, s') \<Longrightarrow> inv s' \<and>
      ok = (de_dn e \<noteq> [] \<and> abs s (toLowerAscii (de_dn e)) = None) \<and>
      abs s' = (if ok then (abs s)(toLowerAscii (de_dn e) \<mapsto> e) else abs s)"
    and modify_abs: "inv s \<Longrightarrow> be_modify B s e = (ok, s') \<Longrightarrow> inv s' \<and>
      ok = (abs s (toLowerAscii (de_dn e)) \<noteq> None) \<and>
      abs s' = (if ok then (abs s)(toLowerAscii (de_dn e) \<mapsto> e) else abs s)"
    and remove_abs: "inv s \<Longrightarrow> be_remove B s dn = (ok, s') \<Longrightarrow> inv s' \<and>
      ok = (abs s (toLowerAscii dn) \<noteq> None) \<and>
      abs s' = (if ok then (abs s)(toLowerAscii dn := None) else abs s)"
    and rename_abs: "inv s \<Longrightarrow> be_rename B s old new = (ok, s') \<Longrightarrow> inv s' \<and>
      ok = (new \<noteq> [] \<and> abs s (toLowerAscii old) \<noteq> None \<and>
            (dnEquals old new \<or> abs s (toLowerAscii new) = None)) \<and>
      abs s' = (if ok \<and> \<not> dnEquals old new
                then (abs s)(toLowerAscii old := None,
                       toLowerAscii new \<mapsto> (the (abs s (toLowerAscii old)))\<lparr>de_dn := new\<rparr>)
                else abs s)"
    and children_abs: "inv s \<Longrightarrow> be_hasChildren B s dn =
      (\<exists>n e. abs s n = Some e \<and> dnIsOneLevelChild (de_dn e) dn)"
    and persist_abs: "inv s \<Longrightarrow> inv (be_persist B s) \<and> abs (be_persist B s) = abs s"
begin

lemma lookup_add:
  assumes "inv s" and "be_add B s e = (True, s')"
  shows "be_lookup B s' dn = (if dnEquals dn (de_dn e) then Some e else be_lookup B s dn)"
  using add_abs [OF assms] assms lookup_abs [of s dn] lookup_abs [of s' dn]
  by (auto simp: dnEquals_iff)

lemma lookup_remove:
  assumes "inv s" and "be_remove B s d = (True, s')"
  shows "be_lookup B s' dn = (if dnEquals dn d then None else be_lookup B s dn)"
  using remove_abs [OF assms] assms lookup_abs [of s dn] lookup_abs [of s' dn]
  by (auto simp: dnEquals_iff)

lemma failed_add_unchanged: "inv s \<Longrightarrow> be_add B s e = (False, s') \<Longrightarrow> abs s' = abs s"
  using add_abs [of s e False s'] by simp

end

section \<open>The in-memory backend is a directory\<close>

definition mem_inv :: "MemoryState \<Rightarrow> bool" where
  "mem_inv m \<longleftrightarrow> ci_ok m \<and> (\<forall>(k, e) \<in> set m. dnEquals (de_dn e) k \<and> k \<noteq> [])"

lemma mem_invD:
  assumes "mem_inv m"
  shows "ci_ok m" and "(k, e) \<in> set m \<Longrightarrow> dnEquals (de_dn e) k" and "(k, e) \<in> set m \<Longrightarrow> k \<noteq> []"
  using assms by (auto simp: mem_inv_def)

lemma find_dnEquals: "find (\<lambda>pair. dnEquals (fst pair) dn) m = find (\<lambda>p. iequals (fst p) dn) m"
  by (simp add: dnEquals_def)

lemma inScope_cong: "dnEquals a b \<Longrightarrow> inScope scope a base = inScope scope b base"
proof (cases scope)
  case OneLevel
  moreover assume "dnEquals a b"
  ultimately show ?thesis using dnEquals_dnIsOneLevelChild [of a b base base] by (simp add: inScope_def)
qed (simp_all add: inScope_def dnEquals_iff dnEndsWith_def)

lemma ci_map_has: "(\<exists>p \<in> set m. toLowerAscii (fst p) = n) \<longleftrightarrow> ci_map m n \<noteq> None"
  by (induction m) (auto simp: ci_map_def)

lemma set_smap_del: "set (smap_del k m) \<subseteq> set m"
  by (induction m) (auto split: if_splits)

lemma mem_lookup_abs: "mem_lookup m dn = ci_map m (toLowerAscii dn)"
  by (simp add: mem_lookup_def find_dnEquals ci_find)

lemma mem_inv_put:
  assumes "mem_inv m" and "ci_key k m" and "dnEquals (de_dn e) k" and "k \<noteq> []"
  shows "mem_inv (smap_put k e m)"
  using assms by (auto simp: mem_inv_def ci_ok_put set_smap_put ci_ok_def [of m])

lemma mem_inv_del: "mem_inv m \<Longrightarrow> mem_inv (smap_del k m)"
  using set_smap_del [of k m] by (auto simp: mem_inv_def ci_ok_del)

lemma ci_map_entry:
  assumes "mem_inv m"
  shows "ci_map m n = Some e \<longleftrightarrow> (\<exists>k. (k, e) \<in> set m \<and> toLowerAscii k = n)"
  using ci_map_set [of m n e] ci_map_in [OF mem_invD(1) [OF assms]] by blast

lemma renameScan_none:
  "\<forall>p \<in> set m. \<not> dnEquals (fst p) old \<Longrightarrow>
     renameScan old new m src = (if \<exists>p \<in> set m. dnEquals (fst p) new then None else Some src)"
  by (induction m) auto

lemma renameScan_find:
  assumes "ci_ok m"
  shows "renameScan old new m None =
    (if \<exists>p \<in> set m. \<not> dnEquals (fst p) old \<and> dnEquals (fst p) new then None
     else Some (find (\<lambda>p. dnEquals (fst p) old) m))"
  using assms
proof (induction m)
  case (Cons p m)
  obtain k e where p: "p = (k, e)" by (cases p)
  with Cons.prems have ok: "ci_ok m" and k: "\<forall>q \<in> set m. toLowerAscii (fst q) \<noteq> toLowerAscii k"
    by (auto simp: ci_ok_Cons)
  show ?case
  proof (cases "dnEquals k old")
    case True
    with k have none: "\<forall>q \<in> set m. \<not> dnEquals (fst q) old" by (simp add: dnEquals_iff)
    show ?thesis
      using True p none renameScan_none [OF none, of new "Some p"] by auto
  next
    case False
    with p Cons.IH [OF ok] show ?thesis by auto
  qed
qed simp

lemma mem_add_directory:
  assumes "mem_inv m" and "mem_add m e = (ok, m')"
  shows "mem_inv m' \<and> ok = (de_dn e \<noteq> [] \<and> ci_map m (toLowerAscii (de_dn e)) = None) \<and>
    ci_map m' = (if ok then (ci_map m)(toLowerAscii (de_dn e) \<mapsto> e) else ci_map m)"
proof -
  have "(\<exists>pair \<in> set m. dnEquals (fst pair) (de_dn e)) \<longleftrightarrow> ci_map m (toLowerAscii (de_dn e)) \<noteq> None"
    using ci_map_has [of m "toLowerAscii (de_dn e)"] by (simp add: dnEquals_iff)
  moreover have "ci_map m (toLowerAscii (de_dn e)) = None \<Longrightarrow> ci_key (de_dn e) m"
    by (rule ci_key_new) (simp add: ci_find_None)
  ultimately show ?thesis
    using assms by (auto simp: mem_add_def ci_map_put mem_inv_put split: if_splits)
qed

lemma mem_found:
  assumes "mem_inv m" and "find (\<lambda>pair. dnEquals (fst pair) dn) m = Some (k, e)"
  shows "(k, e) \<in> set m" and "toLowerAscii k = toLowerAscii dn" and "ci_key k m"
    and "ci_map m (toLowerAscii dn) = Some e" and "k \<noteq> []"
proof -
  have f: "find (\<lambda>p. iequals (fst p) dn) m = Some (k, e)" using assms(2) by (simp add: find_dnEquals)
  from ci_key_found [OF f] show "(k, e) \<in> set m" and "toLowerAscii k = toLowerAscii dn"
    by (simp_all add: iequals_def)
  then show "ci_key k m" and "k \<noteq> []" using mem_invD [OF assms(1)] ci_key_in by auto
  show "ci_map m (toLowerAscii dn) = Some e" using f by (rule ci_find_Some)
qed

lemma mem_not_found:
  "find (\<lambda>pair. dnEquals (fst pair) dn) m = None \<longleftrightarrow> ci_map m (toLowerAscii dn) = None"
  by (simp add: find_dnEquals ci_find_None)

lemma mem_modify_directory:
  assumes "mem_inv m" and "mem_modify m e = (ok, m')"
  shows "mem_inv m' \<and> ok = (ci_map m (toLowerAscii (de_dn e)) \<noteq> None) \<and>
    ci_map m' = (if ok then (ci_map m)(toLowerAscii (de_dn e) \<mapsto> e) else ci_map m)"
proof (cases "find (\<lambda>pair. dnEquals (fst pair) (de_dn e)) m")
  case None
  with assms mem_not_found [of "de_dn e" m] show ?thesis by (simp add: mem_modify_def)
next
  case (Some p)
  obtain k e0 where p: "p = (k, e0)" by (cases p)
  note found = mem_found [OF assms(1) Some [unfolded p]]
  with assms Some p show ?thesis
    by (auto simp: mem_modify_def ci_map_put mem_inv_put dnEquals_iff)
qed

lemma mem_remove_directory:
  assumes "mem_inv m" and "mem_remove m dn = (ok, m')"
  shows "mem_inv m' \<and> ok = (ci_map m (toLowerAscii dn) \<noteq> None) \<and>
    ci_map m' = (if ok then (ci_map m)(toLowerAscii dn := None) else ci_map m)"
proof (cases "find (\<lambda>pair. dnEquals (fst pair) dn) m")
  case None
  with assms mem_not_found [of dn m] show ?thesis by (simp add: mem_remove_def)
next
  case (Some p)
  obtain k e0 where p: "p = (k, e0)" by (cases p)
  note found = mem_found [OF assms(1) Some [unfolded p]]
  with assms Some p mem_invD(1) [OF assms(1)] show ?thesis
    by (auto simp: mem_remove_def ci_map_del mem_inv_del)
qed

lemma mem_rename_directory:
  assumes inv: "mem_inv m" and res: "mem_rename m old new = (ok, m')"
  shows "mem_inv m' \<and>
    ok = (new \<noteq> [] \<and> ci_map m (toLowerAscii old) \<noteq> None \<and>
          (dnEquals old new \<or> ci_map m (toLowerAscii new) = None)) \<and>
    ci_map m' = (if ok \<and> \<not> dnEquals old new
      then (ci_map m)(toLowerAscii old := None,
             toLowerAscii new \<mapsto> (the (ci_map m (toLowerAscii old)))\<lparr>de_dn := new\<rparr>)
      else ci_map m)"
proof -
  note ok = mem_invD(1) [OF inv]
  have empty: "ci_map m [] = None"
    using ci_map_set [of m "[]"] mem_invD(3) [OF inv] by (cases "ci_map m []") auto
  have clash: "(\<exists>p \<in> set m. \<not> dnEquals (fst p) old \<and> dnEquals (fst p) new) \<longleftrightarrow>
      \<not> dnEquals old new \<and> ci_map m (toLowerAscii new) \<noteq> None"
    using ci_map_has [of m "toLowerAscii new"] unfolding dnEquals_iff by metis
  show ?thesis
  proof (cases "find (\<lambda>pair. dnEquals (fst pair) old) m")
    case None
    with res inv clash mem_not_found [of old m] show ?thesis
      by (auto simp: mem_rename_def renameScan_find [OF ok] split: if_splits)
  next
    case (Some p)
    obtain k e where p: "p = (k, e)" by (cases p)
    note found = mem_found [OF inv Some [unfolded p]]
    have "old \<noteq> []" using found empty by auto
    show ?thesis
    proof (cases "new = [] \<or> dnEquals old new \<or> ci_map m (toLowerAscii new) \<noteq> None")
      case True
      with res inv clash Some p found \<open>old \<noteq> []\<close> empty show ?thesis
        by (auto simp: mem_rename_def renameScan_find [OF ok] split: if_splits)
    next
      case False
      have del: "ci_map (smap_del k m) = (ci_map m)(toLowerAscii old := None)"
        using ci_map_del [OF ok found(3)] found(2) by simp
      then have "ci_map (smap_del k m) (toLowerAscii new) = None" using False by simp
      then have key: "ci_key new (smap_del k m)" by (intro ci_key_new) (simp add: ci_find_None)
      from False clash Some p \<open>old \<noteq> []\<close> res
      have m': "ok" "m' = smap_put new (e\<lparr>de_dn := new\<rparr>) (smap_del k m)"
        by (auto simp: mem_rename_def renameScan_find [OF ok] split: if_splits)
      have "mem_inv m'" unfolding m'(2)
        by (rule mem_inv_put [OF mem_inv_del [OF inv] key]) (use False in simp_all)
      moreover have "ci_map m' = (ci_map m)(toLowerAscii old := None, toLowerAscii new \<mapsto> e\<lparr>de_dn := new\<rparr>)"
        unfolding m'(2) ci_map_put [OF key] del ..
      ultimately show ?thesis using False m'(1) found by simp
    qed
  qed
qed

interpretation memory: directory memoryBackend mem_inv ci_map
proof
  fix m n e assume "mem_inv m" "ci_map m n = Some e"
  then show "toLowerAscii (de_dn e) = n \<and> n \<noteq> []"
    using ci_map_entry [of m n e] mem_invD [of m] by (auto simp: dnEquals_iff)
next
  fix m base scope f assume inv: "mem_inv m"
  have "inScope scope (de_dn e) base = inScope scope k base" if "(k, e) \<in> set m" for k e
    using mem_invD(2) [OF inv that] by (rule inScope_cong)
  then show "set (be_search memoryBackend m base scope f) =
      {e. \<exists>n. ci_map m n = Some e \<and> inScope scope (de_dn e) base \<and> matches f e}"
    using ci_map_entry [OF inv] by (auto simp: memoryBackend_def mem_search_def image_iff)
next
  fix m dn assume inv: "mem_inv m"
  have "dnIsOneLevelChild (de_dn e) dn = dnIsOneLevelChild k dn" if "(k, e) \<in> set m" for k e
    using mem_invD(2) [OF inv that] inScope_cong [of "de_dn e" k OneLevel dn] by (simp add: inScope_def)
  then have child: "(\<exists>p \<in> set m. dnIsOneLevelChild (fst p) dn) \<longleftrightarrow>
      (\<exists>k e. (k, e) \<in> set m \<and> dnIsOneLevelChild (de_dn e) dn)" by (metis fst_conv prod.collapse)
  show "be_hasChildren memoryBackend m dn =
      (\<exists>n e. ci_map m n = Some e \<and> dnIsOneLevelChild (de_dn e) dn)"
    unfolding ci_map_entry [OF inv] memoryBackend_def mem_hasChildren_def Backend.simps child by blast
qed (unfold memoryBackend_def Backend.simps id_apply, (rule mem_lookup_abs mem_add_directory
      mem_modify_directory mem_remove_directory mem_rename_directory conjI refl | assumption)+)

section \<open>Properties\<close>

text \<open>Sequences of updates, on the in-memory state and on the map it represents.\<close>

datatype update = UAdd DirectoryEntry | UModify DirectoryEntry | URemove string | URename string string

fun mem_update :: "update \<Rightarrow> MemoryState \<Rightarrow> bool \<times> MemoryState" where
  "mem_update (UAdd e) m = mem_add m e"
| "mem_update (UModify e) m = mem_modify m e"
| "mem_update (URemove dn) m = mem_remove m dn"
| "mem_update (URename old new) m = mem_rename m old new"

fun spec_update :: "update \<Rightarrow> (string \<rightharpoonup> DirectoryEntry) \<Rightarrow> bool \<times> (string \<rightharpoonup> DirectoryEntry)" where
  "spec_update (UAdd e) d =
     (if de_dn e \<noteq> [] \<and> d (toLowerAscii (de_dn e)) = None
      then (True, d(toLowerAscii (de_dn e) \<mapsto> e)) else (False, d))"
| "spec_update (UModify e) d =
     (if d (toLowerAscii (de_dn e)) \<noteq> None then (True, d(toLowerAscii (de_dn e) \<mapsto> e)) else (False, d))"
| "spec_update (URemove dn) d =
     (if d (toLowerAscii dn) \<noteq> None then (True, d(toLowerAscii dn := None)) else (False, d))"
| "spec_update (URename old new) d =
     (if new \<noteq> [] \<and> d (toLowerAscii old) \<noteq> None \<and> (dnEquals old new \<or> d (toLowerAscii new) = None)
      then (True, if dnEquals old new then d
                  else d(toLowerAscii old := None,
                         toLowerAscii new \<mapsto> (the (d (toLowerAscii old)))\<lparr>de_dn := new\<rparr>))
      else (False, d))"

fun run :: "('u \<Rightarrow> 's \<Rightarrow> bool \<times> 's) \<Rightarrow> 'u list \<Rightarrow> 's \<Rightarrow> bool list \<times> 's" where
  "run step [] s = ([], s)"
| "run step (u # us) s =
     (let (ok, s) = step u s; (oks, s) = run step us s in (ok # oks, s))"

lemma mem_update_refines:
  assumes "mem_inv m" and "mem_update u m = (ok, m')"
  shows "mem_inv m' \<and> spec_update u (ci_map m) = (ok, ci_map m')"
proof (cases u)
  case (UAdd e)
  with mem_add_directory [of m e ok m'] assms show ?thesis by auto
next
  case (UModify e)
  with mem_modify_directory [of m e ok m'] assms show ?thesis by auto
next
  case (URemove dn)
  with mem_remove_directory [of m dn ok m'] assms show ?thesis by auto
next
  case (URename old new)
  with mem_rename_directory [of m old new ok m'] assms show ?thesis by auto
qed

lemma run_refines:
  "mem_inv m \<Longrightarrow> run mem_update us m = (oks, m') \<Longrightarrow>
     mem_inv m' \<and> run spec_update us (ci_map m) = (oks, ci_map m')"
proof (induction us arbitrary: m oks)
  case (Cons u us)
  obtain ok m1 where u: "mem_update u m = (ok, m1)" by (cases "mem_update u m")
  obtain oks1 where us: "run mem_update us m1 = (oks1, m')" "oks = ok # oks1"
    using Cons.prems(2) u by (auto split: prod.splits)
  from mem_update_refines [OF Cons.prems(1) u] Cons.IH [OF _ us(1)] us(2)
  show ?case by auto
qed simp

text \<open>C12: The in-memory backend refines a partial map on folded names.  From the empty directory,
  every sequence of add, modify, remove and rename operations gives the success flags and the
  final directory that the map gives, whatever the case of the names in the operations.\<close>

theorem memory_refines_map:
  "map_prod id ci_map (run mem_update us []) = run spec_update us Map.empty"
proof -
  obtain oks m' where run: "run mem_update us [] = (oks, m')" by (cases "run mem_update us []")
  have "mem_inv []" by (simp add: mem_inv_def)
  from run_refines [OF this run] have "run spec_update us (ci_map []) = (oks, ci_map m')" ..
  moreover have "(ci_map [] :: string \<rightharpoonup> DirectoryEntry) = Map.empty" by (simp add: ci_map_def)
  ultimately show ?thesis by (metis run map_prod_simp id_apply)
qed

text \<open>A search of the in-memory directory returns exactly the stored entries in the scope of
  the base that match the filter: the base itself, its one-level children, or the whole subtree,
  with names compared without case.\<close>

lemma memory_search_exact:
  assumes "run mem_update us [] = (oks, m)"
  shows "set (mem_search m base scope f) =
    {e. (\<exists>n. ci_map m n = Some e) \<and> inScope scope (de_dn e) base \<and> matches f e}"
proof -
  have "mem_inv m" using run_refines [of "[]" us oks m] assms by (simp add: mem_inv_def)
  from memory.search_abs [OF this, of base scope f] show ?thesis by (auto simp: memoryBackend_def)
qed

end
