(* ===== verification/Acl.thy ===== *)
theory Acl
  imports Config MemoryBackend
begin

text \<open>
  The access decisions of \<^verbatim>\<open>src/simple-ldapd/security/acl.cpp\<close>, class \<^verbatim>\<open>AccessControl\<close>, over any
  backend.  \<open>permitted\<close> states the documented rules over folded names and the partial map of a
  directory; both decisions are shown equal to it for every \<open>directory\<close>.
\<close>

definition aclHasValue :: "DirectoryEntry \<Rightarrow> string \<Rightarrow> string \<Rightarrow> bool \<Rightarrow> bool" where
  "aclHasValue entry name val as_dn =
     (case findValues entry name of
        None \<Rightarrow> False
      | Some values \<Rightarrow> \<exists>item \<in> set values. if as_dn then dnEquals item val else iequals item val)"

definition configured :: "LdapConfig \<Rightarrow> bool" where
  "configured c \<longleftrightarrow> cf_acls c \<noteq> []"

definition isRoot :: "LdapConfig \<Rightarrow> string \<Rightarrow> bool" where
  "isRoot c bind_dn \<longleftrightarrow> bind_dn \<noteq> [] \<and> cf_root_dn c \<noteq> [] \<and> dnEquals bind_dn (cf_root_dn c)"

definition covers :: "AclRule \<Rightarrow> string \<Rightarrow> bool" where
  "covers rule entry_dn \<longleftrightarrow>
     ar_target rule = [] \<or> dnEquals entry_dn (ar_target rule) \<or> dnEndsWith entry_dn (ar_target rule)"

definition grants :: "AclRule \<Rightarrow> bool \<Rightarrow> bool" where
  "grants rule write \<longleftrightarrow> (if write then ar_permission rule = WritePerm else True)"

text \<open>The login name that \<^verbatim>\<open>memberUid\<close> is compared with.\<close>

definition groupUid :: "DirectoryEntry option \<Rightarrow> string \<Rightarrow> string" where
  "groupUid user bind_dn =
     (let uid = (case user of
                   None \<Rightarrow> []
                 | Some u \<Rightarrow> (case findValues u ''uid'' of None \<Rightarrow> [] | Some [] \<Rightarrow> [] | Some (v # _) \<Rightarrow> v))
      in if uid = [] then
           (case parseRdn (dnRdn bind_dn) of
              None \<Rightarrow> []
            | Some (ty, val) \<Rightarrow> if iequals ty ''uid'' then val else [])
         else uid)"

definition inGroup :: "'s Backend \<Rightarrow> 's \<Rightarrow> string \<Rightarrow> string \<Rightarrow> bool" where
  "inGroup B s bind_dn group_dn =
     (if bind_dn = [] then False
      else case be_lookup B s group_dn of
        None \<Rightarrow> False
      | Some grp \<Rightarrow>
          if aclHasValue grp ''member'' bind_dn True \<or> aclHasValue grp ''uniqueMember'' bind_dn True
          then True
          else let user = be_lookup B s bind_dn in
            if (case user of None \<Rightarrow> False | Some u \<Rightarrow> aclHasValue u ''memberOf'' group_dn True) then True
            else let uid = groupUid user bind_dn in uid \<noteq> [] \<and> aclHasValue grp ''memberUid'' uid False)"

definition whoMatches :: "'s Backend \<Rightarrow> 's \<Rightarrow> AclRule \<Rightarrow> string \<Rightarrow> bool" where
  "whoMatches B s rule bind_dn =
     (case ar_who rule of
        Anyone \<Rightarrow> True
      | Anonymous \<Rightarrow> bind_dn = []
      | Users \<Rightarrow> bind_dn \<noteq> []
      | DnWho \<Rightarrow> dnEquals bind_dn (ar_who_value rule)
      | Group \<Rightarrow> inGroup B s bind_dn (ar_who_value rule))"

definition aclMaySearch :: "LdapConfig \<Rightarrow> 's Backend \<Rightarrow> 's \<Rightarrow> string \<Rightarrow> string \<Rightarrow> bool" where
  "aclMaySearch c B s bind_dn entry_dn =
     (if entry_dn = [] \<or> isRoot c bind_dn then True
      else if cf_acls c = [] then True
      else list_ex (\<lambda>rule. whoMatches B s rule bind_dn \<and> covers rule entry_dn \<and> grants rule False)
             (cf_acls c))"

definition aclMayWrite :: "LdapConfig \<Rightarrow> 's Backend \<Rightarrow> 's \<Rightarrow> string \<Rightarrow> string \<Rightarrow> bool" where
  "aclMayWrite c B s bind_dn entry_dn =
     (if isRoot c bind_dn then True
      else if cf_acls c = [] then False
      else list_ex (\<lambda>rule. whoMatches B s rule bind_dn \<and> covers rule entry_dn \<and> grants rule True)
             (cf_acls c))"

section \<open>Decisions\<close>

lemma covers_iff: "covers rule dn \<longleftrightarrow> dnEndsWith dn (ar_target rule)"
  by (auto simp: covers_def dnEndsWith_def Let_def dnEquals_iff)

lemma anonymous_not_root [simp]: "\<not> isRoot c []"
  by (simp add: isRoot_def)

lemma aclMayWrite_iff:
  "aclMayWrite c B s bind_dn dn \<longleftrightarrow> isRoot c bind_dn \<or>
     (\<exists>rule \<in> set (cf_acls c). ar_permission rule = WritePerm \<and> whoMatches B s rule bind_dn \<and>
        dnEndsWith dn (ar_target rule))"
  by (auto simp: aclMayWrite_def list_ex_iff covers_iff grants_def)

lemma aclMaySearch_iff:
  "aclMaySearch c B s bind_dn dn \<longleftrightarrow> dn = [] \<or> isRoot c bind_dn \<or> cf_acls c = [] \<or>
     (\<exists>rule \<in> set (cf_acls c). whoMatches B s rule bind_dn \<and> dnEndsWith dn (ar_target rule))"
  by (auto simp: aclMaySearch_def list_ex_iff covers_iff grants_def)

lemma aclMayWrite_search:
  "aclMayWrite c B s bind_dn dn \<Longrightarrow> aclMaySearch c B s bind_dn dn"
  by (auto simp: aclMayWrite_iff aclMaySearch_iff)

lemma aclMayWrite_fold: "dnEquals dn dn' \<Longrightarrow> aclMayWrite c B s b dn = aclMayWrite c B s b dn'"
  by (simp add: aclMayWrite_iff dnEndsWith_def dnEquals_iff)

lemma aclMaySearch_fold:
  assumes "dnEquals dn dn'"
  shows "aclMaySearch c B s b dn = aclMaySearch c B s b dn'"
proof -
  have "dn = [] \<longleftrightarrow> dn' = []"
    using assms by (metis dnEquals_iff toLowerAscii_eq_Nil)
  with assms show ?thesis by (simp add: aclMaySearch_iff dnEndsWith_def dnEquals_iff)
qed

section \<open>The documented rules\<close>

text \<open>The rules as the documentation gives them, over folded names and the partial map of the directory.\<close>

definition holds_value :: "DirectoryEntry \<Rightarrow> string \<Rightarrow> string \<Rightarrow> bool" where
  "holds_value e attr v \<longleftrightarrow> (\<exists>vs. findValues e attr = Some vs \<and> v \<in> toLowerAscii ` set vs)"

definition entry_uid :: "DirectoryEntry \<Rightarrow> string" where
  "entry_uid e = (case findValues e ''uid'' of Some (v # _) \<Rightarrow> toLowerAscii v | _ \<Rightarrow> [])"

text \<open>The login name of a client: the first \<^verbatim>\<open>uid\<close> of its entry, or the one in its name.\<close>

inductive login_name :: "(string \<rightharpoonup> DirectoryEntry) \<Rightarrow> string \<Rightarrow> string \<Rightarrow> bool" for m where
  of_entry: "m u = Some e \<Longrightarrow> entry_uid e \<noteq> [] \<Longrightarrow> login_name m u (entry_uid e)"
| of_name: "(\<forall>e. m u = Some e \<longrightarrow> entry_uid e = []) \<Longrightarrow> parseRdn (dnRdn u) = Some (''uid'', l) \<Longrightarrow> login_name m u l"

inductive member_of :: "(string \<rightharpoonup> DirectoryEntry) \<Rightarrow> string \<Rightarrow> string \<Rightarrow> bool" for m where
  listed: "u \<noteq> [] \<Longrightarrow> m g = Some grp \<Longrightarrow> attr \<in> {''member'', ''uniqueMember''} \<Longrightarrow> holds_value grp attr u \<Longrightarrow> member_of m u g"
| claimed: "u \<noteq> [] \<Longrightarrow> m g = Some grp \<Longrightarrow> m u = Some user \<Longrightarrow> holds_value user ''memberOf'' g \<Longrightarrow> member_of m u g"
| by_login: "u \<noteq> [] \<Longrightarrow> m g = Some grp \<Longrightarrow> login_name m u l \<Longrightarrow> holds_value grp ''memberUid'' l \<Longrightarrow> member_of m u g"

inductive_simps login_name_iff: "login_name m u l"
inductive_simps member_of_iff: "member_of m u g"

definition named_by :: "(string \<rightharpoonup> DirectoryEntry) \<Rightarrow> AclRule \<Rightarrow> string \<Rightarrow> bool" where
  "named_by m rule u \<longleftrightarrow>
     (case ar_who rule of
        Anyone \<Rightarrow> True
      | Anonymous \<Rightarrow> u = []
      | Users \<Rightarrow> u \<noteq> []
      | DnWho \<Rightarrow> u = toLowerAscii (ar_who_value rule)
      | Group \<Rightarrow> member_of m u (toLowerAscii (ar_who_value rule)))"

definition in_subtree :: "string \<Rightarrow> string \<Rightarrow> bool" where
  "in_subtree n base \<longleftrightarrow> base = [] \<or> n = base \<or> (\<exists>r. n = r @ '','' @ base)"

inductive permitted :: "LdapConfig \<Rightarrow> (string \<rightharpoonup> DirectoryEntry) \<Rightarrow> bool \<Rightarrow> string \<Rightarrow> string \<Rightarrow> bool"
  for c :: LdapConfig and m :: "string \<rightharpoonup> DirectoryEntry" and writing :: bool and u n :: string where
  superuser: "u \<noteq> [] \<Longrightarrow> u = toLowerAscii (cf_root_dn c) \<Longrightarrow> permitted c m writing u n"
| root_dse: "\<not> writing \<Longrightarrow> n = [] \<Longrightarrow> permitted c m writing u n"
| no_rules: "\<not> writing \<Longrightarrow> cf_acls c = [] \<Longrightarrow> permitted c m writing u n"
| by_rule: "rule \<in> set (cf_acls c) \<Longrightarrow> writing \<longrightarrow> ar_permission rule = WritePerm \<Longrightarrow> named_by m rule u \<Longrightarrow>
    in_subtree n (toLowerAscii (ar_target rule)) \<Longrightarrow> permitted c m writing u n"

inductive_simps permitted_iff: "permitted c m writing u n"

lemma toLowerAscii_find_char:
  assumes "\<not> isupper ch" "\<not> islower ch"
  shows "find_char ch (toLowerAscii s) = find_char ch s"
proof -
  have t: "tolower x = ch \<longleftrightarrow> x = ch" for x using assms by (rule tolower_eq_other)
  then have set: "ch \<in> set (toLowerAscii r) \<longleftrightarrow> ch \<in> set r" for r unfolding toLowerAscii_def set_map image_iff by metis
  show ?thesis
  proof (cases "find_char ch s")
    case None
    then show ?thesis using set [of s] find_char_None [of ch s] find_char_None [of ch "toLowerAscii s"] by simp
  next
    case (Some i)
    have "toLowerAscii s = toLowerAscii (take i s) @ ch # toLowerAscii (drop (Suc i) s)"
      using t [of ch] by (subst find_char_split [OF Some]) (simp add: toLowerAscii_def)
    then show ?thesis
      using find_char_append [of ch "toLowerAscii (take i s)"] find_char_Some [OF Some] set [of "take i s"] Some by simp
  qed
qed

lemma toLowerAscii_take: "toLowerAscii (take n s) = take n (toLowerAscii s)" "toLowerAscii (drop n s) = drop n (toLowerAscii s)"
  by (simp_all add: toLowerAscii_def take_map drop_map)

lemma toLowerAscii_dnRdn: "dnRdn (toLowerAscii dn) = toLowerAscii (dnRdn dn)"
  by (simp add: dnRdn_def toLowerAscii_find_char isupper_def islower_def toLowerAscii_take split: option.split)

lemma toLowerAscii_parseRdn: "parseRdn (toLowerAscii rdn) = map_option (map_prod toLowerAscii toLowerAscii) (parseRdn rdn)"
  by (simp add: parseRdn_def toLowerAscii_find_char isupper_def islower_def toLowerAscii_take Let_def split: option.split)

lemma aclHasValue_holds: "aclHasValue e attr v as_dn \<longleftrightarrow> holds_value e attr (toLowerAscii v)"
  by (cases "findValues e attr"; cases as_dn) (auto simp: aclHasValue_def holds_value_def dnEquals_iff iequals_def image_iff eq_commute [of "toLowerAscii v"])

lemma covers_in_subtree: "covers rule dn \<longleftrightarrow> in_subtree (toLowerAscii dn) (toLowerAscii (ar_target rule))"
  by (auto simp: covers_iff dnEndsWith_iff in_subtree_def dnEquals_iff)

lemma isRoot_fold: "isRoot c b \<longleftrightarrow> toLowerAscii b \<noteq> [] \<and> toLowerAscii b = toLowerAscii (cf_root_dn c)"
  by (auto simp: isRoot_def dnEquals_iff)

context directory
begin

lemma login_name_code:
  assumes "inv s"
  shows "login_name (abs s) (toLowerAscii b) l \<longleftrightarrow> groupUid (be_lookup B s b) b \<noteq> [] \<and> l = toLowerAscii (groupUid (be_lookup B s b) b)"
proof -
  have e: "entry_uid e = toLowerAscii (case findValues e ''uid'' of None \<Rightarrow> [] | Some [] \<Rightarrow> [] | Some (v # _) \<Rightarrow> v)" for e
    by (simp add: entry_uid_def split: option.split list.split)
  have lower: "toLowerAscii ''uid'' = ''uid''" by code_simp
  have r: "parseRdn (dnRdn (toLowerAscii b)) = Some (''uid'', l) \<longleftrightarrow>
      (\<exists>ty val. parseRdn (dnRdn b) = Some (ty, val) \<and> iequals ty ''uid'' \<and> l = toLowerAscii val)"
    by (auto simp: toLowerAscii_dnRdn toLowerAscii_parseRdn iequals_def lower)
  have ne: "val \<noteq> []" if "parseRdn (dnRdn b) = Some (ty, val)" for ty val
    using that by (auto simp: parseRdn_def Let_def split: option.splits if_splits)
  show ?thesis
    unfolding login_name_iff lookup_abs [OF assms, symmetric] groupUid_def Let_def r using ne e
    by (cases "be_lookup B s b"; cases "parseRdn (dnRdn b)") (auto split: if_splits)
qed

lemma inGroup_member: "inv s \<Longrightarrow> inGroup B s b g \<longleftrightarrow> member_of (abs s) (toLowerAscii b) (toLowerAscii g)"
  unfolding member_of_iff login_name_code
  by (auto simp: inGroup_def lookup_abs aclHasValue_holds Let_def split: option.split)

lemma whoMatches_named: "inv s \<Longrightarrow> whoMatches B s rule b \<longleftrightarrow> named_by (abs s) rule (toLowerAscii b)"
  by (simp add: whoMatches_def named_by_def inGroup_member dnEquals_iff split: AclWhoKind.split)

lemma aclMayWrite_permitted: "inv s \<Longrightarrow> aclMayWrite c B s b dn \<longleftrightarrow> permitted c (abs s) True (toLowerAscii b) (toLowerAscii dn)"
  by (auto simp: permitted_iff aclMayWrite_def isRoot_fold list_ex_iff whoMatches_named covers_in_subtree grants_def)

lemma aclMaySearch_permitted: "inv s \<Longrightarrow> aclMaySearch c B s b dn \<longleftrightarrow> permitted c (abs s) False (toLowerAscii b) (toLowerAscii dn)"
  by (auto simp: permitted_iff aclMaySearch_def isRoot_fold list_ex_iff whoMatches_named covers_in_subtree grants_def)

end

section \<open>Properties\<close>

text \<open>C30: Access decisions follow the documented rules, whatever the spelling of names.  Over the partial map that the directory represents, the
  root name may do everything, everybody may read the root DSE, and everything when there are no rules; apart from that a search needs a rule, and a
  write a \<^verbatim>\<open>write\<close> rule, that names the client and whose subtree contains the entry.  A group rule names the members of the group entry:
  those it lists, those whose own entry claims it, and those it lists by login name.  The specification sees folded names only, so no
  decision depends on how the client, the rules or the entries spell a name.\<close>

theorem access_decisions:
  assumes "mem_inv s"
  shows "(aclMayWrite c memoryBackend s bind_dn dn \<longleftrightarrow> permitted c (ci_map s) True (toLowerAscii bind_dn) (toLowerAscii dn)) \<and>
    (aclMaySearch c memoryBackend s bind_dn dn \<longleftrightarrow> permitted c (ci_map s) False (toLowerAscii bind_dn) (toLowerAscii dn))"
  using memory.aclMayWrite_permitted [OF assms] memory.aclMaySearch_permitted [OF assms] by blast

definition staffConfig :: LdapConfig where
  "staffConfig = defaultConfig\<lparr>cf_acls :=
     [\<lparr>ar_who = Group, ar_who_value = ''cn=Staff,dc=b'', ar_permission = WritePerm, ar_target = ''OU=p,dc=b''\<rparr>]\<rparr>"

definition staffStore :: MemoryState where
  "staffStore = [(''cn=staff,dc=b'', \<lparr>de_dn = ''cn=staff,dc=b'', de_attributes = [(''memberUID'', [''Ann''])]\<rparr>)]"

theorem access_decisions_witness:
  "permitted staffConfig (ci_map staffStore) True ''uid=ann,dc=b'' ''cn=e,ou=p,dc=b'' \<and>
   \<not> permitted staffConfig (ci_map staffStore) True ''uid=ann,dc=b'' ''cn=e,ou=q,dc=b''"
proof -
  have "mem_inv staffStore" "aclMayWrite staffConfig memoryBackend staffStore ''UID=ann,dc=b'' ''cn=E,ou=P,dc=b''"
    "\<not> aclMayWrite staffConfig memoryBackend staffStore ''UID=ann,dc=b'' ''cn=E,ou=Q,dc=b''"
    "toLowerAscii ''UID=ann,dc=b'' = ''uid=ann,dc=b''" "toLowerAscii ''cn=E,ou=P,dc=b'' = ''cn=e,ou=p,dc=b''"
    "toLowerAscii ''cn=E,ou=Q,dc=b'' = ''cn=e,ou=q,dc=b''"
    by code_simp+
  with access_decisions [of staffStore staffConfig "''UID=ann,dc=b''" "''cn=E,ou=P,dc=b''"]
    access_decisions [of staffStore staffConfig "''UID=ann,dc=b''" "''cn=E,ou=Q,dc=b''"]
  show ?thesis by simp
qed

text \<open>Under a rule list that speaks only of bound users, named users and groups, an
  anonymous client sees no entry but the root DSE and writes nothing.\<close>

lemma anonymous_denied:
  assumes "cf_acls c \<noteq> []" and "\<forall>rule \<in> set (cf_acls c). ar_who rule \<in> {Users, Group} \<or>
      (ar_who rule = DnWho \<and> ar_who_value rule \<noteq> [])"
  shows "aclMaySearch c B s [] dn = (dn = []) \<and> \<not> aclMayWrite c B s [] dn"
  using assms by (fastforce simp: aclMaySearch_iff aclMayWrite_iff whoMatches_def inGroup_def)

end
