(* ===== verification/Bind.thy ===== *)
theory Bind
  imports Password Acl
begin

text \<open>
  Simple bind, \<^verbatim>\<open>src/simple-ldapd/auth/bind.cpp\<close>, class \<^verbatim>\<open>SimpleBindAuthenticator\<close>, over any
  backend: how a login name becomes an entry name, the verification of the password, and the
  two questions the SASL mechanisms ask.  The lemmas show that the account search runs exactly
  the filter that is meant, whatever the client writes into the name, and what a successful
  bind proves.
\<close>

definition findAccount :: "LdapConfig \<Rightarrow> 's Backend \<Rightarrow> 's \<Rightarrow> string \<Rightarrow> string option" where
  "findAccount c B s name =
     (if name = [] \<or> (\<exists>ch \<in> set name. ch \<in> set (''()*'' @ [CHR 0x5C])) then None
      else let f = parse (''(|(uid='' @ name @ '')(sAMAccountName='' @ name @ ''))'');
               found = be_search B s (cf_base_dn c) Subtree f
           in if length found \<noteq> 1 then None else Some (de_dn (hd found)))"

definition resolveName :: "LdapConfig \<Rightarrow> 's Backend \<Rightarrow> 's \<Rightarrow> string \<Rightarrow> string option" where
  "resolveName c B s name =
     (if name = [] then None
      else if find_char (CHR ''='') name \<noteq> None then
        (if cf_root_dn c \<noteq> [] \<and> dnEquals name (cf_root_dn c) then Some (cf_root_dn c)
         else case be_lookup B s name of
           Some entry \<Rightarrow> Some (de_dn entry)
         | None \<Rightarrow>
             (case parseRdn (dnRdn name) of
                None \<Rightarrow> None
              | Some (_, val) \<Rightarrow> findAccount c B s val))
      else if cf_root_dn c \<noteq> [] \<and>
              (case parseRdn (dnRdn (cf_root_dn c)) of
                 None \<Rightarrow> False
               | Some (_, val) \<Rightarrow> iequals val name)
      then Some (cf_root_dn c)
      else findAccount c B s name)"

text \<open>\<^verbatim>\<open>SimpleBindAuthenticator::bind\<close>.\<close>

definition authBind :: "Crypto \<Rightarrow> LdapConfig \<Rightarrow> 's Backend \<Rightarrow> 's \<Rightarrow> string \<Rightarrow> string \<Rightarrow> ResultCode" where
  "authBind cr c B s dn password =
     (if dn = [] then (if password = [] then Success else InvalidCredentials)
      else case resolveName c B s dn of
        None \<Rightarrow> InvalidCredentials
      | Some resolved \<Rightarrow>
          if cf_root_dn c \<noteq> [] \<and> dnEquals resolved (cf_root_dn c) then
            (if cf_root_password c = [] \<or> \<not> verifyUserPassword cr (cf_root_password c) password
             then InvalidCredentials else Success)
          else case be_lookup B s resolved of
            None \<Rightarrow> InvalidCredentials
          | Some entry \<Rightarrow>
              if accountDisabled entry then InvalidCredentials
              else case findValues entry ''userPassword'' of
                None \<Rightarrow> InvalidCredentials
              | Some values \<Rightarrow>
                  if list_ex (\<lambda>val. verifyUserPassword cr val password) values then Success
                  else InvalidCredentials)"

definition passwordFor :: "LdapConfig \<Rightarrow> 's Backend \<Rightarrow> 's \<Rightarrow> string \<Rightarrow> string option" where
  "passwordFor c B s dn =
     (if cf_root_dn c \<noteq> [] \<and> dnEquals dn (cf_root_dn c) then
        (if cf_root_password c = [] then None else Some (cf_root_password c))
      else case be_lookup B s dn of
        None \<Rightarrow> None
      | Some entry \<Rightarrow>
          (case findValues entry ''userPassword'' of
             None \<Rightarrow> None
           | Some [] \<Rightarrow> None
           | Some (v # _) \<Rightarrow> recoverablePassword v))"

definition isAccountDisabled :: "LdapConfig \<Rightarrow> 's Backend \<Rightarrow> 's \<Rightarrow> string \<Rightarrow> bool" where
  "isAccountDisabled c B s dn =
     (if cf_root_dn c \<noteq> [] \<and> dnEquals dn (cf_root_dn c) then False
      else case be_lookup B s dn of None \<Rightarrow> False | Some entry \<Rightarrow> accountDisabled entry)"

section \<open>The account search\<close>

definition accountNode :: "string \<Rightarrow> FilterNode" where
  "accountNode name = listNode Or [equalityNode ''uid'' name, equalityNode ''sAMAccountName'' name]"

definition accountName :: "string \<Rightarrow> bool" where
  "accountName name \<longleftrightarrow> name \<noteq> [] \<and> (\<forall>ch \<in> set name. ch \<notin> set (''()*'' @ [CHR 0x5C]))"

text \<open>The filter text is built by concatenation; the forbidden characters are enough to make the
  parser read back exactly the intended tree.\<close>

lemma parse_account:
  assumes "accountName name"
  shows "sf_root (parse (''(|(uid='' @ name @ '')(sAMAccountName='' @ name @ ''))'')) = accountNode name \<and>
    sf_valid (parse (''(|(uid='' @ name @ '')(sAMAccountName='' @ name @ ''))''))"
proof -
  let ?n = "accountNode name"
  have "plain_name ''uid''" "plain_name ''sAMAccountName''" by code_simp+
  moreover have "plain_value name" using assms by (auto simp: plain_value_def accountName_def)
  ultimately have ok: "node_normal ?n" "node_plain ?n"
    by (simp_all add: accountNode_def listNode_def equalityNode_def)
  have u: "unparse ?n = ''(|(uid='' @ name @ '')(sAMAccountName='' @ name @ ''))''"
    by (simp add: accountNode_def listNode_def equalityNode_def)
  from parseFilter_unparse [OF ok, of "[]" "[]"] skipSpace_stay [of "[]" "unparse ?n"]
  show ?thesis unfolding u [symmetric] by (simp add: parse_def)
qed

definition hasLogin :: "string \<Rightarrow> DirectoryEntry \<Rightarrow> bool" where
  "hasLogin name e \<longleftrightarrow> (\<exists>attr \<in> {''uid'', ''sAMAccountName''}. \<exists>vs. findValues e attr = Some vs \<and>
     (\<exists>v \<in> set vs. iequals v name))"

lemma matches_account:
  assumes "accountName name"
  shows "matches (parse (''(|(uid='' @ name @ '')(sAMAccountName='' @ name @ ''))'')) e \<longleftrightarrow> hasLogin name e"
  using parse_account [OF assms]
  by (auto simp: matches_def accountNode_def hasLogin_def listNode_def equalityNode_def split: option.splits)

lemma findAccount_Some:
  assumes "findAccount c B s name = Some dn"
  shows "accountName name"
    and "\<exists>e. be_search B s (cf_base_dn c) Subtree
           (parse (''(|(uid='' @ name @ '')(sAMAccountName='' @ name @ ''))'')) = [e] \<and> de_dn e = dn"
proof -
  let ?found = "be_search B s (cf_base_dn c) Subtree
           (parse (''(|(uid='' @ name @ '')(sAMAccountName='' @ name @ ''))''))"
  show an: "accountName name"
  proof (rule ccontr)
    assume "\<not> accountName name"
    then have "findAccount c B s name = None" by (auto simp: findAccount_def accountName_def)
    with assms show False by simp
  qed
  then have "findAccount c B s name = (if length ?found \<noteq> 1 then None else Some (de_dn (hd ?found)))"
    unfolding findAccount_def accountName_def Let_def by (intro if_not_P) blast
  with assms have "length ?found = 1" "dn = de_dn (hd ?found)" by (simp_all split: if_splits)
  then show "\<exists>e. ?found = [e] \<and> de_dn e = dn"
    by (cases ?found) auto
qed

context directory
begin

lemma search_login:
  assumes "inv s" "accountName name"
  shows "set (be_search B s base Subtree (parse (''(|(uid='' @ name @ '')(sAMAccountName='' @ name @ ''))''))) =
    {e. \<exists>n. abs s n = Some e \<and> dnEndsWith (de_dn e) base \<and> hasLogin name e}"
  unfolding search_abs [OF assms(1)] matches_account [OF assms(2)] by (simp add: inScope_def)

lemma findAccount_unique:
  assumes "inv s" "findAccount c B s name = Some dn"
  shows "\<exists>e. abs s (toLowerAscii dn) = Some e \<and> de_dn e = dn \<and>
    {e. \<exists>n. abs s n = Some e \<and> dnEndsWith (de_dn e) (cf_base_dn c) \<and> hasLogin name e} = {e}"
proof -
  obtain e where e: "be_search B s (cf_base_dn c) Subtree
      (parse (''(|(uid='' @ name @ '')(sAMAccountName='' @ name @ ''))'')) = [e]" "de_dn e = dn"
    using findAccount_Some(2) [OF assms(2)] by blast
  with search_login [OF assms(1) findAccount_Some(1) [OF assms(2)], of "cf_base_dn c"]
  have only: "{e. \<exists>n. abs s n = Some e \<and> dnEndsWith (de_dn e) (cf_base_dn c) \<and> hasLogin name e} = {e}"
    by simp
  then obtain n where "abs s n = Some e" by blast
  moreover from this e(2) have "n = toLowerAscii dn" using names [OF assms(1)] by blast
  ultimately show ?thesis using only e(2) by blast
qed

lemma resolveName_entry:
  assumes "inv s" "resolveName c B s name = Some dn" "\<not> (cf_root_dn c \<noteq> [] \<and> dn = cf_root_dn c)"
  shows "\<exists>e. abs s (toLowerAscii dn) = Some e \<and> de_dn e = dn"
proof (cases "find_char (CHR ''='') name \<noteq> None \<and> be_lookup B s name \<noteq> None")
  case True
  then obtain e where e: "be_lookup B s name = Some e" by blast
  with True assms have "dn = de_dn e"
    by (auto simp: resolveName_def split: if_splits)
  moreover from e have "abs s (toLowerAscii name) = Some e" by (simp add: lookup_abs [OF assms(1)])
  ultimately show ?thesis using names [OF assms(1)] by metis
next
  case False
  with assms(2,3) have "\<exists>nm. findAccount c B s nm = Some dn"
    by (auto simp: resolveName_def split: if_splits option.splits)
  with findAccount_unique [OF assms(1)] show ?thesis by blast
qed

end

lemma rootName_iff: "cf_root_dn c \<noteq> [] \<and> dnEquals n (cf_root_dn c) \<longleftrightarrow> isRoot c n"
  by (auto simp: isRoot_def)

lemma authBind_Success:
  "authBind cr c B s dn password = Success \<longleftrightarrow>
     (dn = [] \<and> password = []) \<or>
     (dn \<noteq> [] \<and> (\<exists>n. resolveName c B s dn = Some n \<and>
        (isRoot c n \<and> cf_root_password c \<noteq> [] \<and> verifyUserPassword cr (cf_root_password c) password \<or>
         \<not> isRoot c n \<and> (\<exists>e vs v. be_lookup B s n = Some e \<and> \<not> accountDisabled e \<and>
            findValues e ''userPassword'' = Some vs \<and> v \<in> set vs \<and> verifyUserPassword cr v password))))"
proof (cases "resolveName c B s dn")
  case (Some n)
  show ?thesis
  proof (cases "isRoot c n")
    case True
    with Some show ?thesis unfolding authBind_def rootName_iff by simp
  next
    case False
    with Some show ?thesis unfolding authBind_def rootName_iff
      by (cases "be_lookup B s n") (auto simp: list_ex_iff split: option.splits)
  qed
qed (simp add: authBind_def)

lemma authBind_codes: "authBind cr c B s dn password \<in> {Success, InvalidCredentials}"
  unfolding authBind_def by (simp split: option.split)

definition demoAlice :: DirectoryEntry where
  "demoAlice = \<lparr>de_dn = ''uid=al,dc=example,dc=com'', de_attributes = [(''uid'', [''al''])]\<rparr>"

section \<open>Properties\<close>

text \<open>C29: A login name finds an account only when exactly one entry below the base carries it, as
  \<^verbatim>\<open>uid\<close> or as \<^verbatim>\<open>sAMAccountName\<close>, without regard to case; the result is that entry's name.
  Nothing a client writes into the name changes the filter that is searched.\<close>

theorem account_search_unique:
  assumes "mem_inv m" and "findAccount c memoryBackend m name = Some dn"
  shows "\<exists>e. de_dn e = dn \<and>
    {e \<in> snd ` set m. dnEndsWith (de_dn e) (cf_base_dn c) \<and> hasLogin name e} = {e}"
proof -
  obtain e where e: "de_dn e = dn"
      "{e. \<exists>n. ci_map m n = Some e \<and> dnEndsWith (de_dn e) (cf_base_dn c) \<and> hasLogin name e} = {e}"
    using memory.findAccount_unique [OF assms] by blast
  have "(\<exists>n. ci_map m n = Some x) \<longleftrightarrow> x \<in> snd ` set m" for x
    using ci_map_in [of m] ci_map_set [of m] mem_invD(1) [OF assms(1)] by (force simp: image_iff)
  then have "{e. \<exists>n. ci_map m n = Some e \<and> dnEndsWith (de_dn e) (cf_base_dn c) \<and> hasLogin name e} =
      {e \<in> snd ` set m. dnEndsWith (de_dn e) (cf_base_dn c) \<and> hasLogin name e}"
    by blast
  with e show ?thesis by (intro exI [of _ e]) simp
qed

theorem account_search_unique_witness:
  "\<exists>e. de_dn e = de_dn demoAlice \<and>
    {e \<in> snd ` set [(de_dn demoAlice, demoAlice)]. dnEndsWith (de_dn e) (cf_base_dn defaultConfig) \<and> hasLogin ''AL'' e} = {e}"
  by (rule account_search_unique) code_simp+

text \<open>C28: A simple bind succeeds exactly in three cases: anonymously, with neither name nor
  password; as the root name with the configured password, never an empty one; and as an enabled
  entry one of whose stored passwords verifies.  Every other outcome is the same code, so a client
  cannot tell a wrong name from a wrong password.\<close>

theorem simple_bind_spec:
  "authBind cr c B s dn password \<in> {Success, InvalidCredentials} \<and>
   (authBind cr c B s dn password = Success \<longleftrightarrow>
     (dn = [] \<and> password = []) \<or>
     (dn \<noteq> [] \<and> (\<exists>n. resolveName c B s dn = Some n \<and>
        (isRoot c n \<and> cf_root_password c \<noteq> [] \<and> verifyUserPassword cr (cf_root_password c) password \<or>
         (\<exists>e vs v. \<not> isRoot c n \<and> be_lookup B s n = Some e \<and> \<not> accountDisabled e \<and>
            findValues e ''userPassword'' = Some vs \<and> v \<in> set vs \<and> verifyUserPassword cr v password)))))"
  using authBind_codes [of cr c B s dn password] authBind_Success [of cr c B s dn password] by auto

end
