(* ===== verification/Message.thy ===== *)
theory Message
  imports SearchFilters
begin

text \<open>
  LDAPv3 messages and their codec, \<^verbatim>\<open>src/simple-ldapd/protocol/message.cpp\<close>.  The structures are
  records with the source's members (prefixed, since one theory holds them all) and the default
  values of the declarations.  A decoder that fills in a reference parameter returns it.  The
  loops over attributes, changes, controls and values are instances of \<^theory_text>\<open>item_loop\<close>, so one
  lemma gives all their round trips, and the message round trip follows by cases on the
  operation.
\<close>

section \<open>Data\<close>

datatype ProtocolOp =
    BindRequest | BindResponse | UnbindRequest | SearchRequest | SearchResultEntry
  | SearchResultDone | ModifyRequest | ModifyResponse | AddRequest | AddResponse
  | DelRequest | DelResponse | ModifyDNRequest | ModifyDNResponse | CompareRequest
  | CompareResponse | ExtendedRequest | ExtendedResponse | Unknown

record BindRequestData =
  bd_version :: int32
  bd_dn :: string
  bd_password :: string
  bd_simple :: bool
  bd_sasl_mechanism :: string
  bd_sasl_credentials :: string

record SearchRequestData =
  sd_base_dn :: string
  sd_scope :: SearchScope
  sd_size_limit :: int32
  sd_time_limit :: int32
  sd_types_only :: bool
  sd_filter :: SearchFilter
  sd_attributes :: "string list"

record PartialAttribute =
  pa_type :: string
  pa_values :: "string list"

record SearchEntryData =
  ed_dn :: string
  ed_attributes :: "PartialAttribute list"

record AddRequestData =
  ad_dn :: string
  ad_attributes :: "PartialAttribute list"

record ModifyRequestData =
  md_dn :: string
  md_changes :: "AttributeModification list"

record ModifyDnRequestData =
  dd_dn :: string
  dd_new_rdn :: string
  dd_delete_old_rdn :: bool
  dd_new_superior :: string

record CompareRequestData =
  cd_dn :: string
  cd_attribute :: string
  cd_value :: string

record LdapControl =
  lc_oid :: string
  lc_critical :: bool
  lc_value :: string

record LdapMessage =
  msg_id :: int32
  msg_op :: ProtocolOp
  msg_result :: ResultCode
  msg_matched_dn :: string
  msg_diagnostic :: string
  msg_bind :: BindRequestData
  msg_search :: SearchRequestData
  msg_entry :: SearchEntryData
  msg_add :: AddRequestData
  msg_modify :: ModifyRequestData
  msg_delete_dn :: string
  msg_modify_dn :: ModifyDnRequestData
  msg_extended_oid :: string
  msg_extended_value :: string
  msg_server_sasl_creds :: string
  msg_compare :: CompareRequestData
  msg_controls :: "LdapControl list"

text \<open>The default member values.\<close>

definition defaultBind :: BindRequestData where
  "defaultBind = \<lparr>bd_version = 3, bd_dn = [], bd_password = [], bd_simple = True,
     bd_sasl_mechanism = [], bd_sasl_credentials = []\<rparr>"

definition defaultSearch :: SearchRequestData where
  "defaultSearch = \<lparr>sd_base_dn = [], sd_scope = Subtree, sd_size_limit = 0, sd_time_limit = 0,
     sd_types_only = False, sd_filter = present ''objectClass'', sd_attributes = []\<rparr>"

definition defaultModifyDn :: ModifyDnRequestData where
  "defaultModifyDn = \<lparr>dd_dn = [], dd_new_rdn = [], dd_delete_old_rdn = True, dd_new_superior = []\<rparr>"

definition defaultMessage :: LdapMessage where
  "defaultMessage = \<lparr>msg_id = 0, msg_op = Unknown, msg_result = Success, msg_matched_dn = [],
     msg_diagnostic = [], msg_bind = defaultBind, msg_search = defaultSearch,
     msg_entry = \<lparr>ed_dn = [], ed_attributes = []\<rparr>, msg_add = \<lparr>ad_dn = [], ad_attributes = []\<rparr>,
     msg_modify = \<lparr>md_dn = [], md_changes = []\<rparr>, msg_delete_dn = [],
     msg_modify_dn = defaultModifyDn, msg_extended_oid = [], msg_extended_value = [],
     msg_server_sasl_creds = [],
     msg_compare = \<lparr>cd_dn = [], cd_attribute = [], cd_value = []\<rparr>, msg_controls = []\<rparr>"

section \<open>Results\<close>

definition encodeResult :: "ResultCode \<Rightarrow> string \<Rightarrow> string \<Rightarrow> bytes" where
  "encodeResult result matched_dn diagnostic =
     writeOctetString (writeOctetString
       (writeEnumerated [] (ucast (resultCodeByte result))) matched_dn) diagnostic"

function decodeResultExtras :: "LdapMessage \<Rightarrow> BerReader \<Rightarrow> LdapMessage reading" where
  "decodeResultExtras m r =
     (if atEnd r then if rd_ok r then (Some m, r) else (None, r)
      else if peekTag r = kBerServerSaslCreds then
        rbind (readOctetStringTag kBerServerSaslCreds r) (\<lambda>s r.
          decodeResultExtras (m\<lparr>msg_server_sasl_creds := s\<rparr>) r)
      else if peekTag r = kBerContext10 then
        rbind (readOctetStringTag kBerContext10 r) (\<lambda>s r.
          decodeResultExtras (m\<lparr>msg_extended_oid := s\<rparr>) r)
      else if peekTag r = kBerContext11 then
        rbind (readOctetStringTag kBerContext11 r) (\<lambda>s r.
          decodeResultExtras (m\<lparr>msg_extended_value := s\<rparr>) r)
      else rbind (skip r) (\<lambda>_ r. decodeResultExtras m r))"
  by pat_completeness auto
termination
  by (relation "measure (remaining \<circ> snd)")
     (auto intro: advances_remaining [OF advances_readOctetStringTag] advances_remaining [OF advances_skip])

declare decodeResultExtras.simps [simp del]

definition decodeResult :: "LdapMessage \<Rightarrow> BerReader \<Rightarrow> LdapMessage reading" where
  "decodeResult m r =
     rbind (readEnumerated r) (\<lambda>code r.
     rbind (readOctetString r) (\<lambda>matched r.
     rbind (readOctetString r) (\<lambda>diag r.
       decodeResultExtras
         (m\<lparr>msg_matched_dn := matched, msg_diagnostic := diag, msg_result := resultCodeOf code\<rparr>) r)))"

section \<open>Bind\<close>

definition encodeBindRequest :: "BindRequestData \<Rightarrow> bytes" where
  "encodeBindRequest bind =
     (let inner = writeOctetString (writeInteger [] (scast (bd_version bind))) (bd_dn bind);
          inner =
            (if bd_simple bind then writeOctetStringTag inner kBerSimpleAuth (bd_password bind)
             else let sasl = writeOctetString [] (bd_sasl_mechanism bind);
                      sasl = (if bd_sasl_credentials bind \<noteq> []
                              then writeOctetString sasl (bd_sasl_credentials bind) else sasl)
               in writeConstructed inner kBerSaslAuth sasl)
      in writeConstructed [] kBerBindRequest inner)"

definition decodeBindRequest :: "BindRequestData \<Rightarrow> BerReader \<Rightarrow> BindRequestData reading" where
  "decodeBindRequest bind r =
     rbind (readInteger r) (\<lambda>version r.
     rbind (readOctetString r) (\<lambda>dn r.
       let bind = bind\<lparr>bd_dn := dn, bd_version := ucast version, bd_simple := (peekTag r = kBerSimpleAuth)\<rparr> in
       if bd_simple bind then
         rbind (readOctetStringTag kBerSimpleAuth r) (\<lambda>pw r. (Some (bind\<lparr>bd_password := pw\<rparr>), r))
       else if peekTag r \<noteq> kBerSaslAuth then rbind (skip r) (\<lambda>_ r. (Some bind, r))
       else rbind (readConstructed kBerSaslAuth r) (\<lambda>sasl r.
         within (rbind (readOctetString sasl) (\<lambda>mech sasl.
           let bind = bind\<lparr>bd_sasl_mechanism := mech\<rparr> in
           if \<not> atEnd sasl then
             rbind (readOctetString sasl) (\<lambda>creds sasl.
               if rd_ok sasl then (Some (bind\<lparr>bd_sasl_credentials := creds\<rparr>), sasl) else (None, sasl))
           else if rd_ok sasl then (Some bind, sasl) else (None, sasl))) r)))"

definition encodeBindResponse :: "LdapMessage \<Rightarrow> bytes" where
  "encodeBindResponse m =
     (let inner = writeOctetString (writeOctetString
            (writeEnumerated [] (ucast (resultCodeByte (msg_result m)))) (msg_matched_dn m))
            (msg_diagnostic m);
          inner = (if msg_server_sasl_creds m \<noteq> []
                   then writeOctetStringTag inner kBerServerSaslCreds (msg_server_sasl_creds m)
                   else inner)
      in writeConstructed [] kBerBindResponse inner)"

section \<open>Search\<close>

text \<open>The loop \<^verbatim>\<open>while (!r.atEnd()) { read an octet string; push_back }\<close>.\<close>

function readStrings :: "string list \<Rightarrow> BerReader \<Rightarrow> string list reading" where
  "readStrings out r =
     (if atEnd r then if rd_ok r then (Some out, r) else (None, r)
      else rbind (readOctetString r) (\<lambda>s r. readStrings (out @ [s]) r))"
  by pat_completeness auto
termination
  by (relation "measure (remaining \<circ> snd)")
     (auto intro: advances_remaining [OF advances_readOctetString])

declare readStrings.simps [simp del]

definition writeStrings :: "string list \<Rightarrow> bytes" where
  "writeStrings xs = foldl writeOctetString [] xs"

definition encodeSearchRequest :: "SearchRequestData \<Rightarrow> bytes" where
  "encodeSearchRequest s =
     (let inner = writeOctetString [] (sd_base_dn s);
          inner = writeEnumerated inner (scopeInt (sd_scope s));
          inner = writeEnumerated inner 0;
          inner = writeInteger inner (scast (sd_size_limit s));
          inner = writeInteger inner (scast (sd_time_limit s));
          inner = writeBoolean inner (sd_types_only s);
          inner = writeBytes inner (encodeBer (sd_filter s));
          inner = writeConstructed inner kBerSequence (writeStrings (sd_attributes s))
      in writeConstructed [] kBerSearchRequest inner)"

definition decodeSearchRequest :: "SearchRequestData \<Rightarrow> BerReader \<Rightarrow> SearchRequestData reading" where
  "decodeSearchRequest s r =
     rbind (readOctetString r) (\<lambda>base r.
     rbind (readEnumerated r) (\<lambda>scope r.
     rbind (readEnumerated r) (\<lambda>deref r.
     rbind (readInteger r) (\<lambda>size_limit r.
     rbind (readInteger r) (\<lambda>time_limit r.
     rbind (readBoolean r) (\<lambda>types_only r.
     rbind (decodeBer r) (\<lambda>filter r.
     rbind (readConstructed kBerSequence r) (\<lambda>attrs r.
       within (rbind (readStrings (sd_attributes s) attrs) (\<lambda>names attrs.
         (Some (s\<lparr>sd_base_dn := base, sd_scope := scopeOf scope, sd_size_limit := ucast size_limit,
                  sd_time_limit := ucast time_limit, sd_types_only := types_only,
                  sd_filter := filter, sd_attributes := names\<rparr>), attrs))) r))))))))"

section \<open>Attributes, entries and updates\<close>

definition encodeAttribute :: "BerWriter \<Rightarrow> PartialAttribute \<Rightarrow> BerWriter" where
  "encodeAttribute attrs a =
     (let partial = writeConstructed (writeOctetString [] (pa_type a)) kBerSet (writeStrings (pa_values a))
      in writeConstructed attrs kBerSequence partial)"

definition encodeAttributes :: "PartialAttribute list \<Rightarrow> bytes" where
  "encodeAttributes as = foldl encodeAttribute [] as"

text \<open>One round of the loop; the inner loop over the values leaves \<^verbatim>\<open>ok_\<close> set when it ends,
  since a failed read returns at once.\<close>

definition decodeAttribute :: "BerReader \<Rightarrow> PartialAttribute reading" where
  "decodeAttribute attrs =
     rbind (readConstructed kBerSequence attrs) (\<lambda>partial attrs.
       within (rbind (readOctetString partial) (\<lambda>ty partial.
         rbind (readConstructed kBerSet partial) (\<lambda>values partial.
           rbind (within (readStrings [] values) partial) (\<lambda>vs partial.
             (Some \<lparr>pa_type = ty, pa_values = vs\<rparr>, partial))))) attrs)"

lemma advances_within [advances_intros]:
  "advances n (\<lambda>r. rbind (readConstructed tag r) (\<lambda>inner r. within (q inner) r))" if "n \<le> 2"
proof (rule advancesI)
  fix r v r' assume "rd_wf r" "rbind (readConstructed tag r) (\<lambda>inner r. within (q inner) r) = (Some v, r')"
  then obtain i where "readConstructed tag r = (Some i, r')"
    by (auto simp: rbind_eq_Some within_eq_Some)
  with \<open>n \<le> 2\<close> advancesD [OF advances_readConstructed \<open>rd_wf r\<close>, of tag i r']
  show "rd_wf r' \<and> rd_data r' = rd_data r \<and> rd_offset r + n \<le> rd_offset r'" by linarith
qed

lemma advances_decodeAttribute [advances_intros]: "advances 1 decodeAttribute"
  unfolding decodeAttribute_def [abs_def] by (rule advances_within) simp

function decodeAttributes :: "PartialAttribute list \<Rightarrow> BerReader \<Rightarrow> PartialAttribute list reading" where
  "decodeAttributes out attrs =
     (if atEnd attrs then if rd_ok attrs then (Some out, attrs) else (None, attrs)
      else rbind (decodeAttribute attrs) (\<lambda>a attrs. decodeAttributes (out @ [a]) attrs))"
  by pat_completeness auto
termination
  by (relation "measure (remaining \<circ> snd)")
     (auto intro: advances_remaining [OF advances_decodeAttribute])

declare decodeAttributes.simps [simp del]

definition encodeSearchEntry :: "SearchEntryData \<Rightarrow> bytes" where
  "encodeSearchEntry e =
     writeConstructed [] kBerSearchResultEntry
       (writeConstructed (writeOctetString [] (ed_dn e)) kBerSequence (encodeAttributes (ed_attributes e)))"

definition decodeSearchEntry :: "SearchEntryData \<Rightarrow> BerReader \<Rightarrow> SearchEntryData reading" where
  "decodeSearchEntry e r =
     rbind (readOctetString r) (\<lambda>dn r.
     rbind (readConstructed kBerSequence r) (\<lambda>attrs r.
       within (rbind (decodeAttributes (ed_attributes e) attrs) (\<lambda>as attrs.
         (Some (e\<lparr>ed_dn := dn, ed_attributes := as\<rparr>), attrs))) r))"

definition encodeAddRequest :: "AddRequestData \<Rightarrow> bytes" where
  "encodeAddRequest a =
     writeConstructed [] kBerAddRequest
       (writeConstructed (writeOctetString [] (ad_dn a)) kBerSequence (encodeAttributes (ad_attributes a)))"

definition decodeAddRequest :: "AddRequestData \<Rightarrow> BerReader \<Rightarrow> AddRequestData reading" where
  "decodeAddRequest a r =
     rbind (readOctetString r) (\<lambda>dn r.
     rbind (readConstructed kBerSequence r) (\<lambda>attrs r.
       within (rbind (decodeAttributes (ad_attributes a) attrs) (\<lambda>as attrs.
         (Some (a\<lparr>ad_dn := dn, ad_attributes := as\<rparr>), attrs))) r))"

definition encodeChange :: "BerWriter \<Rightarrow> AttributeModification \<Rightarrow> BerWriter" where
  "encodeChange changes c =
     (let partial = writeConstructed (writeOctetString [] (am_type c)) kBerSet (writeStrings (am_values c));
          item = writeConstructed (writeEnumerated [] (modifyOpInt (am_op c))) kBerSequence partial
      in writeConstructed changes kBerSequence item)"

definition encodeModifyRequest :: "ModifyRequestData \<Rightarrow> bytes" where
  "encodeModifyRequest m =
     (let changes = foldl encodeChange [] (md_changes m)
      in writeConstructed [] kBerModifyRequest
           (writeConstructed (writeOctetString [] (md_dn m)) kBerSequence changes))"

definition decodeChange :: "BerReader \<Rightarrow> AttributeModification reading" where
  "decodeChange changes =
     rbind (readConstructed kBerSequence changes) (\<lambda>item changes.
       within (rbind (readEnumerated item) (\<lambda>op item.
         rbind (readConstructed kBerSequence item) (\<lambda>partial item.
           within (rbind (readOctetString partial) (\<lambda>ty partial.
             rbind (readConstructed kBerSet partial) (\<lambda>values partial.
               rbind (within (readStrings [] values) partial) (\<lambda>vs partial.
                 (Some \<lparr>am_op = modifyOpOf op, am_type = ty, am_values = vs\<rparr>, partial))))) item))) changes)"

lemma advances_decodeChange [advances_intros]: "advances 1 decodeChange"
  unfolding decodeChange_def [abs_def] by (rule advances_within) simp

function decodeChanges ::
    "AttributeModification list \<Rightarrow> BerReader \<Rightarrow> AttributeModification list reading" where
  "decodeChanges out changes =
     (if atEnd changes then if rd_ok changes then (Some out, changes) else (None, changes)
      else rbind (decodeChange changes) (\<lambda>c changes. decodeChanges (out @ [c]) changes))"
  by pat_completeness auto
termination
  by (relation "measure (remaining \<circ> snd)")
     (auto intro: advances_remaining [OF advances_decodeChange])

declare decodeChanges.simps [simp del]

definition decodeModifyRequest :: "ModifyRequestData \<Rightarrow> BerReader \<Rightarrow> ModifyRequestData reading" where
  "decodeModifyRequest m r =
     rbind (readOctetString r) (\<lambda>dn r.
     rbind (readConstructed kBerSequence r) (\<lambda>changes r.
       within (rbind (decodeChanges (md_changes m) changes) (\<lambda>cs changes.
         (Some (m\<lparr>md_dn := dn, md_changes := cs\<rparr>), changes))) r))"

definition encodeModifyDnRequest :: "ModifyDnRequestData \<Rightarrow> bytes" where
  "encodeModifyDnRequest d =
     (let inner = writeOctetString (writeOctetString [] (dd_dn d)) (dd_new_rdn d);
          inner = writeBoolean inner (dd_delete_old_rdn d);
          inner = (if dd_new_superior d \<noteq> [] then writeOctetStringTag inner kBerSimpleAuth (dd_new_superior d)
                   else inner)
      in writeConstructed [] kBerModifyDNRequest inner)"

definition decodeModifyDnRequest :: "ModifyDnRequestData \<Rightarrow> BerReader \<Rightarrow> ModifyDnRequestData reading" where
  "decodeModifyDnRequest d r =
     rbind (readOctetString r) (\<lambda>dn r.
     rbind (readOctetString r) (\<lambda>rdn r.
     rbind (readBoolean r) (\<lambda>del r.
       let d = d\<lparr>dd_dn := dn, dd_new_rdn := rdn, dd_delete_old_rdn := del\<rparr> in
       if \<not> atEnd r \<and> peekTag r = kBerSimpleAuth then
         rbind (readOctetStringTag kBerSimpleAuth r) (\<lambda>sup r. (Some (d\<lparr>dd_new_superior := sup\<rparr>), r))
       else if rd_ok r then (Some d, r) else (None, r))))"

definition encodeCompareRequest :: "CompareRequestData \<Rightarrow> bytes" where
  "encodeCompareRequest c =
     (let ava = writeOctetString (writeOctetString [] (cd_attribute c)) (cd_value c)
      in writeConstructed [] kBerCompareRequest
           (writeConstructed (writeOctetString [] (cd_dn c)) kBerSequence ava))"

definition decodeCompareRequest :: "CompareRequestData \<Rightarrow> BerReader \<Rightarrow> CompareRequestData reading" where
  "decodeCompareRequest c r =
     rbind (readOctetString r) (\<lambda>dn r.
     rbind (readConstructed kBerSequence r) (\<lambda>ava r.
     rbind (within (rbind (readOctetString ava) (\<lambda>attr ava.
         rbind (readOctetString ava) (\<lambda>val ava. (Some (attr, val), ava)))) r) (\<lambda>(attr, val) r.
       if rd_ok r then (Some (c\<lparr>cd_dn := dn, cd_attribute := attr, cd_value := val\<rparr>), r)
       else (None, r))))"

section \<open>Controls and extended operations\<close>

definition encodeControl :: "BerWriter \<Rightarrow> LdapControl \<Rightarrow> BerWriter" where
  "encodeControl list c =
     (let item = writeOctetString [] (lc_oid c);
          item = (if lc_critical c then writeBoolean item True else item);
          item = (if lc_value c \<noteq> [] then writeOctetString item (lc_value c) else item)
      in writeConstructed list kBerSequence item)"

definition encodeControls :: "LdapControl list \<Rightarrow> bytes" where
  "encodeControls cs = writeConstructed [] kBerControls (foldl encodeControl [] cs)"

definition decodeControl :: "BerReader \<Rightarrow> LdapControl reading" where
  "decodeControl r =
     rbind (readConstructed kBerSequence r) (\<lambda>item r.
       within (rbind (readOctetString item) (\<lambda>oid item.
         rbind (if \<not> atEnd item \<and> peekTag item = kBerBoolean then readBoolean item else (Some False, item))
           (\<lambda>critical item.
         rbind (if \<not> atEnd item then readOctetString item else (Some [], item)) (\<lambda>val item.
           (Some \<lparr>lc_oid = oid, lc_critical = critical, lc_value = val\<rparr>, item))))) r)"

lemma advances_decodeControl [advances_intros]: "advances 1 decodeControl"
  unfolding decodeControl_def [abs_def] by (rule advances_within) simp

function decodeControls :: "LdapControl list \<Rightarrow> BerReader \<Rightarrow> LdapControl list reading" where
  "decodeControls out r =
     (if atEnd r then if rd_ok r then (Some out, r) else (None, r)
      else rbind (decodeControl r) (\<lambda>c r. decodeControls (out @ [c]) r))"
  by pat_completeness auto
termination
  by (relation "measure (remaining \<circ> snd)")
     (auto intro: advances_remaining [OF advances_decodeControl])

declare decodeControls.simps [simp del]

definition encodeExtendedRequest :: "string \<Rightarrow> string \<Rightarrow> bytes" where
  "encodeExtendedRequest oid val =
     (let inner = writeOctetStringTag [] kBerSimpleAuth oid;
          inner = (if val \<noteq> [] then writeOctetStringTag inner kBerContext1 val else inner)
      in writeConstructed [] kBerExtendedRequest inner)"

definition decodeExtendedRequest :: "string \<Rightarrow> BerReader \<Rightarrow> (string \<times> string) reading" where
  "decodeExtendedRequest val r =
     rbind (readOctetStringTag kBerSimpleAuth r) (\<lambda>oid r.
       if \<not> atEnd r \<and> peekTag r = kBerContext1 then
         rbind (readOctetStringTag kBerContext1 r) (\<lambda>val r. (Some (oid, val), r))
       else if rd_ok r then (Some (oid, val), r) else (None, r))"

section \<open>Whole messages\<close>

text \<open>\<^verbatim>\<open>body.readConstructed(tag, op) \<close> followed by a decoder of the operation.\<close>

definition readOp :: "byte \<Rightarrow> (BerReader \<Rightarrow> 'a reading) \<Rightarrow> BerReader \<Rightarrow> 'a reading" where
  "readOp tag dec body = rbind (readConstructed tag body) (\<lambda>inner body. within (dec inner) body)"

text \<open>The \<^verbatim>\<open>switch (tag)\<close> of \<^verbatim>\<open>decodeLdapMessage\<close>.\<close>

definition decodeOp :: "LdapMessage \<Rightarrow> BerReader \<Rightarrow> LdapMessage reading" where
  "decodeOp m body =
     (let tag = peekTag body in
      if tag = kBerBindRequest then
        rbind (readOp tag (decodeBindRequest (msg_bind m)) body)
          (\<lambda>b body. (Some (m\<lparr>msg_op := BindRequest, msg_bind := b\<rparr>), body))
      else if tag = kBerBindResponse then
        readOp tag (decodeResult (m\<lparr>msg_op := BindResponse\<rparr>)) body
      else if tag = kBerUnbindRequest then
        rbind (skip body) (\<lambda>_ body. (Some (m\<lparr>msg_op := UnbindRequest\<rparr>), body))
      else if tag = kBerSearchRequest then
        rbind (readOp tag (decodeSearchRequest (msg_search m)) body)
          (\<lambda>s body. (Some (m\<lparr>msg_op := SearchRequest, msg_search := s\<rparr>), body))
      else if tag = kBerSearchResultEntry then
        rbind (readOp tag (decodeSearchEntry (msg_entry m)) body)
          (\<lambda>e body. (Some (m\<lparr>msg_op := SearchResultEntry, msg_entry := e\<rparr>), body))
      else if tag = kBerSearchResultDone then
        readOp tag (decodeResult (m\<lparr>msg_op := SearchResultDone\<rparr>)) body
      else if tag = kBerModifyRequest then
        rbind (readOp tag (decodeModifyRequest (msg_modify m)) body)
          (\<lambda>x body. (Some (m\<lparr>msg_op := ModifyRequest, msg_modify := x\<rparr>), body))
      else if tag = kBerModifyResponse then
        readOp tag (decodeResult (m\<lparr>msg_op := ModifyResponse\<rparr>)) body
      else if tag = kBerAddRequest then
        rbind (readOp tag (decodeAddRequest (msg_add m)) body)
          (\<lambda>a body. (Some (m\<lparr>msg_op := AddRequest, msg_add := a\<rparr>), body))
      else if tag = kBerAddResponse then
        readOp tag (decodeResult (m\<lparr>msg_op := AddResponse\<rparr>)) body
      else if tag = kBerDelRequest then
        rbind (readOctetStringTag kBerDelRequest body)
          (\<lambda>dn body. (Some (m\<lparr>msg_op := DelRequest, msg_delete_dn := dn\<rparr>), body))
      else if tag = kBerDelResponse then
        readOp tag (decodeResult (m\<lparr>msg_op := DelResponse\<rparr>)) body
      else if tag = kBerModifyDNRequest then
        rbind (readOp tag (decodeModifyDnRequest (msg_modify_dn m)) body)
          (\<lambda>d body. (Some (m\<lparr>msg_op := ModifyDNRequest, msg_modify_dn := d\<rparr>), body))
      else if tag = kBerModifyDNResponse then
        readOp tag (decodeResult (m\<lparr>msg_op := ModifyDNResponse\<rparr>)) body
      else if tag = kBerCompareRequest then
        rbind (readOp tag (decodeCompareRequest (msg_compare m)) body)
          (\<lambda>c body. (Some (m\<lparr>msg_op := CompareRequest, msg_compare := c\<rparr>), body))
      else if tag = kBerCompareResponse then
        readOp tag (decodeResult (m\<lparr>msg_op := CompareResponse\<rparr>)) body
      else if tag = kBerExtendedRequest then
        rbind (readOp tag (decodeExtendedRequest (msg_extended_value m)) body)
          (\<lambda>(oid, val) body.
             (Some (m\<lparr>msg_op := ExtendedRequest, msg_extended_oid := oid, msg_extended_value := val\<rparr>), body))
      else if tag = kBerExtendedResponse then
        readOp tag (decodeResult (m\<lparr>msg_op := ExtendedResponse\<rparr>)) body
      else rbind (skip body) (\<lambda>_ body. (Some (m\<lparr>msg_op := Unknown\<rparr>), body)))"

definition decodeLdapMessage :: "bytes \<Rightarrow> LdapMessage option" where
  "decodeLdapMessage wire =
     fst (rbind (readConstructed kBerSequence (mkReader wire)) (\<lambda>body top.
       rbind (readInteger body) (\<lambda>message_id body.
       rbind (decodeOp (defaultMessage\<lparr>msg_id := ucast message_id\<rparr>) body) (\<lambda>m body.
         if \<not> atEnd body \<and> peekTag body = kBerControls then
           rbind (readOp kBerControls (decodeControls (msg_controls m)) body) (\<lambda>cs body.
             (Some (m\<lparr>msg_controls := cs\<rparr>), body))
         else (Some m, body)))))"

text \<open>The lambda \<^verbatim>\<open>resultOp\<close>.\<close>

definition resultOp :: "LdapMessage \<Rightarrow> byte \<Rightarrow> bytes" where
  "resultOp m tag =
     (let inner = encodeResult (msg_result m) (msg_matched_dn m) (msg_diagnostic m);
          inner =
            (if tag = kBerExtendedResponse \<and> (msg_extended_oid m \<noteq> [] \<or> msg_extended_value m \<noteq> []) then
               let extra = writeBytes [] inner;
                   extra = (if msg_extended_oid m \<noteq> []
                            then writeOctetStringTag extra kBerContext10 (msg_extended_oid m) else extra)
               in writeOctetStringTag extra kBerContext11 (msg_extended_value m)
             else inner)
      in writeConstructed [] tag inner)"

definition encodeOp :: "LdapMessage \<Rightarrow> bytes" where
  "encodeOp m = (case msg_op m of
      BindRequest \<Rightarrow> encodeBindRequest (msg_bind m)
    | BindResponse \<Rightarrow> encodeBindResponse m
    | UnbindRequest \<Rightarrow> writeNull [] kBerUnbindRequest
    | SearchRequest \<Rightarrow> encodeSearchRequest (msg_search m)
    | SearchResultEntry \<Rightarrow> encodeSearchEntry (msg_entry m)
    | SearchResultDone \<Rightarrow> resultOp m kBerSearchResultDone
    | ModifyRequest \<Rightarrow> encodeModifyRequest (msg_modify m)
    | ModifyResponse \<Rightarrow> resultOp m kBerModifyResponse
    | AddRequest \<Rightarrow> encodeAddRequest (msg_add m)
    | AddResponse \<Rightarrow> resultOp m kBerAddResponse
    | DelRequest \<Rightarrow> writeOctetStringTag [] kBerDelRequest (msg_delete_dn m)
    | DelResponse \<Rightarrow> resultOp m kBerDelResponse
    | ModifyDNRequest \<Rightarrow> encodeModifyDnRequest (msg_modify_dn m)
    | ModifyDNResponse \<Rightarrow> resultOp m kBerModifyDNResponse
    | CompareRequest \<Rightarrow> encodeCompareRequest (msg_compare m)
    | CompareResponse \<Rightarrow> resultOp m kBerCompareResponse
    | ExtendedRequest \<Rightarrow> encodeExtendedRequest (msg_extended_oid m) (msg_extended_value m)
    | ExtendedResponse \<Rightarrow> resultOp m kBerExtendedResponse
    | Unknown \<Rightarrow> resultOp m kBerSearchResultDone)"

definition encodeLdapMessage :: "LdapMessage \<Rightarrow> bytes" where
  "encodeLdapMessage m =
     (let body = writeBytes (writeInteger [] (scast (msg_id m))) (encodeOp m);
          body = (if msg_controls m \<noteq> [] then writeBytes body (encodeControls (msg_controls m)) else body)
      in writeConstructed [] kBerSequence body)"

section \<open>Message constructors\<close>

definition makeBindRequest :: "int32 \<Rightarrow> string \<Rightarrow> string \<Rightarrow> LdapMessage" where
  "makeBindRequest i dn password =
     defaultMessage\<lparr>msg_id := i, msg_op := BindRequest,
       msg_bind := defaultBind\<lparr>bd_dn := dn, bd_password := password\<rparr>\<rparr>"

definition makeSaslBindRequest :: "int32 \<Rightarrow> string \<Rightarrow> string \<Rightarrow> string \<Rightarrow> LdapMessage" where
  "makeSaslBindRequest i dn mechanism credentials =
     defaultMessage\<lparr>msg_id := i, msg_op := BindRequest,
       msg_bind := defaultBind\<lparr>bd_dn := dn, bd_simple := False, bd_sasl_mechanism := mechanism,
         bd_sasl_credentials := credentials\<rparr>\<rparr>"

definition makeBindResponse :: "int32 \<Rightarrow> ResultCode \<Rightarrow> string \<Rightarrow> string \<Rightarrow> LdapMessage" where
  "makeBindResponse i result diagnostic creds =
     defaultMessage\<lparr>msg_id := i, msg_op := BindResponse, msg_result := result,
       msg_diagnostic := diagnostic, msg_server_sasl_creds := creds\<rparr>"

definition makeSearchRequest :: "int32 \<Rightarrow> SearchRequestData \<Rightarrow> LdapMessage" where
  "makeSearchRequest i s = defaultMessage\<lparr>msg_id := i, msg_op := SearchRequest, msg_search := s\<rparr>"

definition makeSearchEntry :: "int32 \<Rightarrow> SearchEntryData \<Rightarrow> LdapMessage" where
  "makeSearchEntry i e = defaultMessage\<lparr>msg_id := i, msg_op := SearchResultEntry, msg_entry := e\<rparr>"

definition makeSearchDone :: "int32 \<Rightarrow> ResultCode \<Rightarrow> string \<Rightarrow> LdapMessage" where
  "makeSearchDone i result diagnostic =
     defaultMessage\<lparr>msg_id := i, msg_op := SearchResultDone, msg_result := result,
       msg_diagnostic := diagnostic\<rparr>"

definition makeUnbindRequest :: "int32 \<Rightarrow> LdapMessage" where
  "makeUnbindRequest i = defaultMessage\<lparr>msg_id := i, msg_op := UnbindRequest\<rparr>"

definition makeAddRequest :: "int32 \<Rightarrow> AddRequestData \<Rightarrow> LdapMessage" where
  "makeAddRequest i a = defaultMessage\<lparr>msg_id := i, msg_op := AddRequest, msg_add := a\<rparr>"

definition makeModifyRequest :: "int32 \<Rightarrow> ModifyRequestData \<Rightarrow> LdapMessage" where
  "makeModifyRequest i m = defaultMessage\<lparr>msg_id := i, msg_op := ModifyRequest, msg_modify := m\<rparr>"

definition makeDelRequest :: "int32 \<Rightarrow> string \<Rightarrow> LdapMessage" where
  "makeDelRequest i dn = defaultMessage\<lparr>msg_id := i, msg_op := DelRequest, msg_delete_dn := dn\<rparr>"

definition makeModifyDnRequest :: "int32 \<Rightarrow> ModifyDnRequestData \<Rightarrow> LdapMessage" where
  "makeModifyDnRequest i d = defaultMessage\<lparr>msg_id := i, msg_op := ModifyDNRequest, msg_modify_dn := d\<rparr>"

definition makeCompareRequest :: "int32 \<Rightarrow> CompareRequestData \<Rightarrow> LdapMessage" where
  "makeCompareRequest i c = defaultMessage\<lparr>msg_id := i, msg_op := CompareRequest, msg_compare := c\<rparr>"

definition makeExtendedRequest :: "int32 \<Rightarrow> string \<Rightarrow> string \<Rightarrow> LdapMessage" where
  "makeExtendedRequest i oid val =
     defaultMessage\<lparr>msg_id := i, msg_op := ExtendedRequest, msg_extended_oid := oid,
       msg_extended_value := val\<rparr>"

definition makeLdapResult :: "int32 \<Rightarrow> ProtocolOp \<Rightarrow> ResultCode \<Rightarrow> string \<Rightarrow> LdapMessage" where
  "makeLdapResult i op result diagnostic =
     defaultMessage\<lparr>msg_id := i, msg_op := op, msg_result := result, msg_diagnostic := diagnostic\<rparr>"

section \<open>Paged results and password modify\<close>

definition kPasswordModifyOid :: string where
  "kPasswordModifyOid = ''1.3.6.1.4.1.4203.1.11.1''"

definition kWhoAmIOid :: string where
  "kWhoAmIOid = ''1.3.6.1.4.1.4203.1.11.3''"

definition kPagedResultsOid :: string where
  "kPagedResultsOid = ''1.2.840.113556.1.4.319''"

definition encodePagedResultsValue :: "int32 \<Rightarrow> string \<Rightarrow> string" where
  "encodePagedResultsValue sz cookie =
     string_of (writeConstructed [] kBerSequence
       (writeOctetString (writeInteger [] (scast sz)) cookie))"

definition decodePagedResultsValue :: "string \<Rightarrow> (int32 \<times> string) option" where
  "decodePagedResultsValue val =
     fst (rbind (readConstructed kBerSequence (mkReader (bytes_of val))) (\<lambda>inner r.
       rbind (within (rbind (readInteger inner) (\<lambda>parsed inner.
         rbind (readOctetString inner) (\<lambda>cookie inner. (Some (parsed, cookie), inner)))) r)
         (\<lambda>(parsed, cookie) r. if rd_ok r then (Some (ucast parsed, cookie), r) else (None, r))))"

definition makePagedResultsControl :: "int32 \<Rightarrow> string \<Rightarrow> bool \<Rightarrow> LdapControl" where
  "makePagedResultsControl sz cookie critical =
     \<lparr>lc_oid = kPagedResultsOid, lc_critical = critical, lc_value = encodePagedResultsValue sz cookie\<rparr>"

record PasswordModifyRequest =
  pm_user_identity :: string
  pm_old_password :: "string option"
  pm_new_password :: "string option"

definition defaultPasswordModify :: PasswordModifyRequest where
  "defaultPasswordModify =
     \<lparr>pm_user_identity = [], pm_old_password = None, pm_new_password = None\<rparr>"

definition encodePasswordModifyValue :: "PasswordModifyRequest \<Rightarrow> string" where
  "encodePasswordModifyValue q =
     (let fields = (if pm_user_identity q \<noteq> []
                    then writeOctetStringTag [] kBerSimpleAuth (pm_user_identity q) else []);
          fields = (case pm_old_password q of None \<Rightarrow> fields
                    | Some p \<Rightarrow> writeOctetStringTag fields kBerContext1 p);
          fields = (case pm_new_password q of None \<Rightarrow> fields
                    | Some p \<Rightarrow> writeOctetStringTag fields kBerContext2 p)
      in string_of (writeConstructed [] kBerSequence fields))"

function decodePasswordFields :: "PasswordModifyRequest \<Rightarrow> BerReader \<Rightarrow> PasswordModifyRequest reading" where
  "decodePasswordFields q r =
     (if atEnd r then if rd_ok r then (Some q, r) else (None, r)
      else let tag = peekTag r in
        if tag = kBerSimpleAuth then
          rbind (readOctetStringTag kBerSimpleAuth r) (\<lambda>s r.
            decodePasswordFields (q\<lparr>pm_user_identity := s\<rparr>) r)
        else if tag = kBerContext1 then
          rbind (readOctetStringTag kBerContext1 r) (\<lambda>s r.
            decodePasswordFields (q\<lparr>pm_old_password := Some s\<rparr>) r)
        else if tag = kBerContext2 then
          rbind (readOctetStringTag kBerContext2 r) (\<lambda>s r.
            decodePasswordFields (q\<lparr>pm_new_password := Some s\<rparr>) r)
        else rbind (skip r) (\<lambda>_ r. decodePasswordFields q r))"
  by pat_completeness auto
termination
  by (relation "measure (remaining \<circ> snd)")
     (auto intro: advances_remaining [OF advances_readOctetStringTag] advances_remaining [OF advances_skip])

declare decodePasswordFields.simps [simp del]

definition decodePasswordModifyValue :: "string \<Rightarrow> PasswordModifyRequest option" where
  "decodePasswordModifyValue val =
     (if val = [] then Some defaultPasswordModify
      else fst (readOp kBerSequence (decodePasswordFields defaultPasswordModify)
                  (mkReader (bytes_of val))))"

definition makePasswordModifyRequest :: "int32 \<Rightarrow> PasswordModifyRequest \<Rightarrow> LdapMessage" where
  "makePasswordModifyRequest i q =
     makeExtendedRequest i kPasswordModifyOid (encodePasswordModifyValue q)"

section \<open>Add requests and entries\<close>

definition toDirectoryEntry :: "AddRequestData \<Rightarrow> DirectoryEntry" where
  "toDirectoryEntry a =
     \<lparr>de_dn = ad_dn a,
      de_attributes = foldl (\<lambda>m p. smap_put (pa_type p) (pa_values p) m) [] (ad_attributes a)\<rparr>"

definition toAddRequest :: "DirectoryEntry \<Rightarrow> AddRequestData" where
  "toAddRequest e =
     \<lparr>ad_dn = de_dn e, ad_attributes = map (\<lambda>(k, vs). \<lparr>pa_type = k, pa_values = vs\<rparr>) (de_attributes e)\<rparr>"

section \<open>Encodings of the parts\<close>

text \<open>Sizes: an encoding that fits keeps all its parts within the four length bytes.\<close>

definition fits :: "bytes \<Rightarrow> bool" where
  "fits bs \<longleftrightarrow> length bs < 2 ^ 32"

lemma fits_append: "fits (a @ b) \<Longrightarrow> fits a \<and> fits b"
  by (simp add: fits_def)

lemma fits_tlv: "fits (tlv tag c) \<Longrightarrow> fits c"
  using length_tlv_ge [of c tag] by (simp add: fits_def)

lemma fits_concat: "fits (concat (map f xs)) \<Longrightarrow> x \<in> set xs \<Longrightarrow> fits (f x)"
  using length_member_concat [of x xs f] by (simp add: fits_def del: length_concat)

lemma fits_Nil [simp]: "fits []"
  by (simp add: fits_def)

lemma fits_string: "fits (bytes_of s) \<Longrightarrow> length s < 2 ^ 32"
  by (simp add: fits_def)

lemma fits_length: "fits bs \<Longrightarrow> length bs < 2 ^ 32"
  by (simp add: fits_def)

lemmas fitsD = fits_append [THEN conjunct1] fits_append [THEN conjunct2] fits_tlv

named_theorems decodes_intros \<open>decoders run on the encodings of message parts\<close>

lemma octets: "fits (bytes_of s) \<Longrightarrow> parses readOctetString (tlv kBerOctetString (bytes_of s)) s"
  by (rule parses_readOctetString) (rule fits_string)

lemma octetsTag: "fits (bytes_of s) \<Longrightarrow> parses (readOctetStringTag tag) (tlv tag (bytes_of s)) s"
  by (rule parses_readOctetStringTag) (rule fits_string)

lemma constructed: "fits c \<Longrightarrow> parses (readConstructed tag) (tlv tag c) (mkReader c)"
  by (rule parses_readConstructed) (rule fits_length)

lemma inner_decodes:
  "fits c \<Longrightarrow> decodes q c v \<Longrightarrow>
     parses (\<lambda>r. rbind (readConstructed tag r) (\<lambda>inner r. within (q inner) r)) (tlv tag c) v"
  by (rule parses_within) (rule fits_length)

lemma parses_readOp: "fits c \<Longrightarrow> decodes q c v \<Longrightarrow> parses (readOp tag q) (tlv tag c) v"
  unfolding readOp_def [abs_def] by (rule inner_decodes)

lemma within_decodes: "decodes q c v \<Longrightarrow> within (q (mkReader c)) r = (Some v, r)"
  using decodes_run [of q c v] by (simp add: within_def)

lemma decodes_return: "decodes (\<lambda>r. (Some v, r)) [] v"
  by (simp add: decodes_def)

interpretation string_loop: item_loop readOctetString readStrings
proof
  show "advances 1 readOctetString" by (rule advances_mono [OF advances_readOctetString]) simp
qed (rule readStrings.simps)

interpretation attribute_loop: item_loop decodeAttribute decodeAttributes
  by unfold_locales (rule advances_decodeAttribute, rule decodeAttributes.simps)

interpretation change_loop: item_loop decodeChange decodeChanges
  by unfold_locales (rule advances_decodeChange, rule decodeChanges.simps)

interpretation control_loop: item_loop decodeControl decodeControls
  by unfold_locales (rule advances_decodeControl, rule decodeControls.simps)

lemma foldl_append_concat:
  assumes "\<And>w x. f w x = w @ g x"
  shows "foldl f w xs = w @ concat (map g xs)"
  by (induction xs arbitrary: w) (simp_all add: assms)

lemma writeStrings_concat:
  "writeStrings xs = concat (map (\<lambda>s. tlv kBerOctetString (bytes_of s)) xs)"
  unfolding writeStrings_def
  using foldl_append_concat [of writeOctetString "\<lambda>s. tlv kBerOctetString (bytes_of s)" "[]" xs]
  by (simp add: write_simps)

lemma decodes_readStrings: "fits (writeStrings xs) \<Longrightarrow> decodes (readStrings []) (writeStrings xs) xs"
  unfolding writeStrings_concat
  using string_loop.loop_decodes [of xs "\<lambda>s. tlv kBerOctetString (bytes_of s)" "[]"]
  by (auto intro!: octets dest: fits_concat fits_tlv)

abbreviation attribute_content :: "string \<Rightarrow> string list \<Rightarrow> bytes" where
  "attribute_content ty vs \<equiv> tlv kBerOctetString (bytes_of ty) @ tlv kBerSet (writeStrings vs)"

lemma attribute_content_decodes:
  assumes "fits (attribute_content ty vs)" and "\<And>r. f ty vs r = (Some v, r)"
  shows "decodes (\<lambda>partial. rbind (readOctetString partial) (\<lambda>ty partial.
         rbind (readConstructed kBerSet partial) (\<lambda>values partial.
           rbind (within (readStrings [] values) partial) (\<lambda>vs partial. f ty vs partial))))
     (attribute_content ty vs) v"
proof -
  from assms(1) have fits: "fits (bytes_of ty)" "fits (writeStrings vs)" by (blast dest: fitsD)+
  then show ?thesis
    by (intro decodes_bind [OF octets] decodes_bind_nil [OF constructed])
       (simp_all add: within_decodes [OF decodes_readStrings] assms(2) decodes_return)
qed

definition attribute_bytes :: "PartialAttribute \<Rightarrow> bytes" where
  "attribute_bytes a = tlv kBerSequence (attribute_content (pa_type a) (pa_values a))"

lemma attribute_bytes_neq_Nil [simp]: "attribute_bytes a \<noteq> []"
  by (simp add: attribute_bytes_def)

lemma parses_decodeAttribute: "fits (attribute_bytes a) \<Longrightarrow> parses decodeAttribute (attribute_bytes a) a"
  unfolding attribute_bytes_def decodeAttribute_def [abs_def]
  by (rule inner_decodes, erule fits_tlv, rule attribute_content_decodes, erule fits_tlv) simp

lemma encodeAttributes_concat: "encodeAttributes as = concat (map attribute_bytes as)"
  unfolding encodeAttributes_def
  using foldl_append_concat [of encodeAttribute attribute_bytes "[]" as]
  by (simp add: encodeAttribute_def attribute_bytes_def write_simps Let_def)

lemma decodes_decodeAttributes:
  "fits (encodeAttributes as) \<Longrightarrow> decodes (decodeAttributes []) (encodeAttributes as) as"
  unfolding encodeAttributes_concat
  using attribute_loop.loop_decodes [of as attribute_bytes "[]"]
  by (auto intro!: parses_decodeAttribute dest: fits_concat)

definition op_ok :: "ModifyOp \<Rightarrow> bool" where
  "op_ok c \<longleftrightarrow> modifyOpOf (modifyOpInt c) = c \<and> \<not> bit (modifyOpInt c) 31"

definition scope_ok :: "SearchScope \<Rightarrow> bool" where
  "scope_ok s \<longleftrightarrow> scopeOf (scopeInt s) = s \<and> \<not> bit (scopeInt s) 31"

definition change_bytes :: "AttributeModification \<Rightarrow> bytes" where
  "change_bytes c = tlv kBerSequence
     (tlv kBerEnumerated (encodeInteger (scast (modifyOpInt (am_op c)))) @
      tlv kBerSequence (attribute_content (am_type c) (am_values c)))"

lemma change_bytes_neq_Nil [simp]: "change_bytes c \<noteq> []"
  by (simp add: change_bytes_def)

lemma parses_decodeChange:
  assumes "fits (change_bytes c)" and "op_ok (am_op c)"
  shows "parses decodeChange (change_bytes c) c"
proof -
  let ?a = "attribute_content (am_type c) (am_values c)"
  from assms(1) have fits: "fits ?a" "fits (tlv kBerEnumerated (encodeInteger (scast (modifyOpInt (am_op c)))) @
      tlv kBerSequence ?a)"
    unfolding change_bytes_def by (blast dest: fitsD)+
  from assms(2) have op: "\<not> bit (modifyOpInt (am_op c)) 31" "modifyOpOf (modifyOpInt (am_op c)) = am_op c"
    by (simp_all add: op_ok_def)
  show ?thesis
    unfolding change_bytes_def decodeChange_def [abs_def]
    by (rule inner_decodes [OF fits(2)], rule decodes_bind [OF parses_readEnumerated [OF op(1)]],
        rule parses_decodes, rule inner_decodes [OF fits(1)], rule attribute_content_decodes [OF fits(1)])
       (simp add: op(2))
qed

lemma encodeChanges_concat: "foldl encodeChange [] cs = concat (map change_bytes cs)"
  using foldl_append_concat [of encodeChange change_bytes "[]" cs]
  by (simp add: encodeChange_def change_bytes_def write_simps Let_def)

lemma decodes_decodeChanges:
  assumes "fits (concat (map change_bytes cs))" and "\<forall>c \<in> set cs. op_ok (am_op c)"
  shows "decodes (decodeChanges []) (concat (map change_bytes cs)) cs"
  using change_loop.loop_decodes [of cs change_bytes "[]"] assms
  by (auto intro!: parses_decodeChange dest: fits_concat)


definition control_bytes :: "LdapControl \<Rightarrow> bytes" where
  "control_bytes c = tlv kBerSequence
     (tlv kBerOctetString (bytes_of (lc_oid c)) @
      (if lc_critical c then tlv kBerBoolean [0xff] else []) @
      (if lc_value c \<noteq> [] then tlv kBerOctetString (bytes_of (lc_value c)) else []))"

lemma control_bytes_neq_Nil [simp]: "control_bytes c \<noteq> []"
  by (simp add: control_bytes_def)

lemma decodes_optional_value:
  assumes "fits (bytes_of v)"
  shows "decodes (\<lambda>r. rbind (if \<not> atEnd r then readOctetString r else (Some [], r)) (\<lambda>val r. (Some (f val), r)))
     (if v \<noteq> [] then tlv kBerOctetString (bytes_of v) else []) (f v)"
proof (rule decodesI)
  fix r assume r: "rd_wf r" "rest r = (if v \<noteq> [] then tlv kBerOctetString (bytes_of v) else [])"
  show "\<exists>r'. rbind (if \<not> atEnd r then readOctetString r else (Some [], r)) (\<lambda>val r. (Some (f val), r)) =
      (Some (f v), r') \<and> rd_wf r' \<and> rest r' = []"
  proof (cases "v = []")
    case True
    with r rest_empty [of r] show ?thesis by simp
  next
    case False
    with r have rest: "rest r = tlv kBerOctetString (bytes_of v) @ []" by simp
    from octets [OF assms] r(1) rest obtain s where "readOctetString r = (Some v, s)" "rd_wf s" "rest s = []"
      by (rule parsesE)
    with rest_tlv [OF r(1) rest] show ?thesis by simp
  qed
qed

lemma decodes_optional_critical:
  assumes "decodes (f c) bs v" and "bs = [] \<or> (\<exists>cs. bs = tlv kBerOctetString cs)"
  shows "decodes (\<lambda>r. rbind (if \<not> atEnd r \<and> peekTag r = kBerBoolean then readBoolean r else (Some False, r)) f)
     ((if c then tlv kBerBoolean [0xff] else []) @ bs) v"
proof (cases c)
  case True
  with parses_readBoolean [of True] have "parses readBoolean (tlv kBerBoolean [0xff]) c" by simp
  then have "parses (\<lambda>r. if \<not> atEnd r \<and> peekTag r = kBerBoolean then readBoolean r else (Some False, r))
      (tlv kBerBoolean [0xff]) c"
    by (rule parses_tagged [rotated]) simp
  from decodes_bind [where f = f, OF this assms(1)] True show ?thesis by simp
next
  case False
  show ?thesis
  proof (rule decodesI)
    fix r assume r: "rd_wf r" "rest r = (if c then tlv kBerBoolean [0xff] else []) @ bs"
    from assms(2) have "atEnd r \<or> peekTag r \<noteq> kBerBoolean"
    proof
      assume "bs = []"
      with r False rest_empty [of r] show ?thesis by simp
    next
      assume "\<exists>cs. bs = tlv kBerOctetString cs"
      then obtain cs where "bs = tlv kBerOctetString cs" ..
      with r False rest_tlv [of r kBerOctetString cs "[]"] show ?thesis by simp
    qed
    with False r assms(1) show "\<exists>r'. rbind (if \<not> atEnd r \<and> peekTag r = kBerBoolean then readBoolean r
        else (Some False, r)) f = (Some v, r') \<and> rd_wf r' \<and> rest r' = []"
      by (auto elim!: decodesE)
  qed
qed

lemma parses_decodeControl:
  assumes "fits (control_bytes c)"
  shows "parses decodeControl (control_bytes c) c"
proof -
  let ?v = "if lc_value c \<noteq> [] then tlv kBerOctetString (bytes_of (lc_value c)) else []"
  let ?crit = "if lc_critical c then tlv kBerBoolean [0xff] else []"
  from assms have all: "fits (tlv kBerOctetString (bytes_of (lc_oid c)) @ ?crit @ ?v)"
    unfolding control_bytes_def by (rule fits_tlv)
  then have oid: "fits (bytes_of (lc_oid c))" and v: "fits ?v" by (blast dest: fitsD)+
  from v have val: "fits (bytes_of (lc_value c))"
    by (cases "lc_value c = []") (auto dest: fits_tlv)
  have same: "\<lparr>lc_oid = lc_oid c, lc_critical = lc_critical c, lc_value = lc_value c\<rparr> = c" by simp
  have "decodes (\<lambda>item. rbind (if \<not> atEnd item then readOctetString item else (Some [], item))
      (\<lambda>val item. (Some \<lparr>lc_oid = lc_oid c, lc_critical = lc_critical c, lc_value = val\<rparr>, item))) ?v c"
    using decodes_optional_value [OF val, of "\<lambda>val. \<lparr>lc_oid = lc_oid c, lc_critical = lc_critical c, lc_value = val\<rparr>"]
    unfolding same .
  then have "decodes (\<lambda>item. rbind (if \<not> atEnd item \<and> peekTag item = kBerBoolean then readBoolean item
        else (Some False, item)) (\<lambda>critical item.
      rbind (if \<not> atEnd item then readOctetString item else (Some [], item)) (\<lambda>val item.
        (Some \<lparr>lc_oid = lc_oid c, lc_critical = critical, lc_value = val\<rparr>, item)))) (?crit @ ?v) c"
    by (rule decodes_optional_critical) auto
  then show ?thesis
    unfolding control_bytes_def decodeControl_def [abs_def]
    by (intro inner_decodes [OF all] decodes_bind [OF octets [OF oid]])
qed

lemma encodeControls_concat: "encodeControls cs = tlv kBerControls (concat (map control_bytes cs))"
  using foldl_append_concat [of encodeControl control_bytes "[]" cs]
  by (simp add: encodeControls_def encodeControl_def control_bytes_def write_simps Let_def)

lemma decodes_decodeControls:
  "fits (concat (map control_bytes cs)) \<Longrightarrow> decodes (decodeControls []) (concat (map control_bytes cs)) cs"
  using control_loop.loop_decodes [of cs control_bytes "[]"]
  by (auto intro!: parses_decodeControl dest: fits_concat)

section \<open>The message round trip\<close>

definition bind_normal :: "BindRequestData \<Rightarrow> bool" where
  "bind_normal b \<longleftrightarrow>
     (if bd_simple b then bd_sasl_mechanism b = [] \<and> bd_sasl_credentials b = [] else bd_password b = [])"

definition search_normal :: "SearchRequestData \<Rightarrow> bool" where
  "search_normal s \<longleftrightarrow> scope_ok (sd_scope s) \<and> sf_valid (sd_filter s) \<and>
     node_normal (sf_root (sd_filter s)) \<and> sf_text (sd_filter s) = ''(decoded)''"

text \<open>A message in which only the members of its operation differ from their defaults.\<close>

definition message_normal :: "LdapMessage \<Rightarrow> bool" where
  "message_normal m \<longleftrightarrow>
     (let base = defaultMessage\<lparr>msg_id := msg_id m, msg_op := msg_op m, msg_controls := msg_controls m\<rparr>;
          res = base\<lparr>msg_result := msg_result m, msg_matched_dn := msg_matched_dn m,
                     msg_diagnostic := msg_diagnostic m\<rparr>
      in case msg_op m of
        BindRequest \<Rightarrow> m = base\<lparr>msg_bind := msg_bind m\<rparr> \<and> bind_normal (msg_bind m)
      | BindResponse \<Rightarrow> m = res\<lparr>msg_server_sasl_creds := msg_server_sasl_creds m\<rparr> \<and>
          resultCode_ok (msg_result m)
      | UnbindRequest \<Rightarrow> m = base
      | SearchRequest \<Rightarrow> m = base\<lparr>msg_search := msg_search m\<rparr> \<and> search_normal (msg_search m)
      | SearchResultEntry \<Rightarrow> m = base\<lparr>msg_entry := msg_entry m\<rparr>
      | ModifyRequest \<Rightarrow> m = base\<lparr>msg_modify := msg_modify m\<rparr> \<and>
          (\<forall>c \<in> set (md_changes (msg_modify m)). op_ok (am_op c))
      | AddRequest \<Rightarrow> m = base\<lparr>msg_add := msg_add m\<rparr>
      | DelRequest \<Rightarrow> m = base\<lparr>msg_delete_dn := msg_delete_dn m\<rparr>
      | ModifyDNRequest \<Rightarrow> m = base\<lparr>msg_modify_dn := msg_modify_dn m\<rparr>
      | CompareRequest \<Rightarrow> m = base\<lparr>msg_compare := msg_compare m\<rparr>
      | ExtendedRequest \<Rightarrow> m = base\<lparr>msg_extended_oid := msg_extended_oid m,
          msg_extended_value := msg_extended_value m\<rparr>
      | ExtendedResponse \<Rightarrow> m = res\<lparr>msg_extended_oid := msg_extended_oid m,
          msg_extended_value := msg_extended_value m\<rparr> \<and> resultCode_ok (msg_result m)
      | Unknown \<Rightarrow> False
      | _ \<Rightarrow> m = res \<and> resultCode_ok (msg_result m))"

lemma scast_ucast_id [simp]: "ucast (scast (n :: int32) :: int64) = n"
  by (rule bit_word_eqI) (auto simp: bit_simps)

lemma decodes_optional:
  assumes "c \<Longrightarrow> parses p (tlv tag x) v" and "\<not> c \<Longrightarrow> decodes q [] v"
    and "\<And>r. peekTag r = tag \<Longrightarrow> P r"
  shows "decodes (\<lambda>r. if \<not> atEnd r \<and> P r then p r else q r) (if c then tlv tag x else []) v"
proof (cases c)
  case True
  have "parses (\<lambda>r. if \<not> atEnd r \<and> P r then p r else q r) (tlv tag x) v"
    by (rule parses_tagged [where q = p, OF _ assms(1) [OF True]]) (simp add: assms(3))
  with True show ?thesis by (simp add: parses_decodes)
next
  case False
  show ?thesis
  proof (rule decodesI)
    fix r assume r: "rd_wf r" "rest r = (if c then tlv tag x else [])"
    with False assms(2) rest_empty [of r]
    show "\<exists>r'. (if \<not> atEnd r \<and> P r then p r else q r) = (Some v, r') \<and> rd_wf r' \<and> rest r' = []"
      by (auto elim!: decodesE)
  qed
qed

lemma parses_ok: "parses (\<lambda>r. if rd_ok r then (Some v, r) else (None, r)) [] v"
  by (auto simp: parses_def rd_wf_def)

lemma parses_octetsTag_return:
  "fits (bytes_of s) \<Longrightarrow> f s = v \<Longrightarrow>
     parses (\<lambda>r. rbind (readOctetStringTag tag r) (\<lambda>s r. (Some (f s), r))) (tlv tag (bytes_of s)) v"
  by (rule parses_bind0 [OF octetsTag]) (simp_all add: parses_return)

lemma fits_if: "fits (if c then tlv tag (bytes_of s) else []) \<Longrightarrow> c \<Longrightarrow> fits (bytes_of s)"
  by (simp split: if_splits add: fits_tlv)

text \<open>Bind requests.\<close>

lemma decodes_sasl:
  assumes "fits (tlv kBerOctetString (bytes_of mech) @
      (if creds \<noteq> [] then tlv kBerOctetString (bytes_of creds) else []))"
  shows "decodes (\<lambda>sasl. rbind (readOctetString sasl) (\<lambda>mech sasl.
           let bind = b\<lparr>bd_sasl_mechanism := mech\<rparr> in
           if \<not> atEnd sasl then
             rbind (readOctetString sasl) (\<lambda>creds sasl.
               if rd_ok sasl then (Some (bind\<lparr>bd_sasl_credentials := creds\<rparr>), sasl) else (None, sasl))
           else if rd_ok sasl then (Some bind, sasl) else (None, sasl)))
     (tlv kBerOctetString (bytes_of mech) @
      (if creds \<noteq> [] then tlv kBerOctetString (bytes_of creds) else []))
     (if creds \<noteq> [] then b\<lparr>bd_sasl_mechanism := mech, bd_sasl_credentials := creds\<rparr>
      else b\<lparr>bd_sasl_mechanism := mech\<rparr>)"
proof -
  let ?c = "if creds \<noteq> [] then tlv kBerOctetString (bytes_of creds) else []"
  from assms have mech: "fits (bytes_of mech)" and "fits ?c" by (blast dest: fitsD)+
  then have creds: "creds \<noteq> [] \<Longrightarrow> fits (bytes_of creds)" by (simp add: fits_tlv)
  have "decodes (\<lambda>r. if \<not> atEnd r \<and> True then
       rbind (readOctetString r) (\<lambda>creds r.
         if rd_ok r then (Some (b\<lparr>bd_sasl_mechanism := mech, bd_sasl_credentials := creds\<rparr>), r) else (None, r))
     else if rd_ok r then (Some (b\<lparr>bd_sasl_mechanism := mech\<rparr>), r) else (None, r)) ?c
     (if creds \<noteq> [] then b\<lparr>bd_sasl_mechanism := mech, bd_sasl_credentials := creds\<rparr>
      else b\<lparr>bd_sasl_mechanism := mech\<rparr>)"
    by (rule decodes_optional) (auto intro: parses_bind0 [OF octets [OF creds]] parses_ok decodes_okD)
  then show ?thesis
    unfolding Let_def by (intro decodes_bind [OF octets [OF mech]]) simp
qed

text \<open>Bind requests.\<close>

lemma parses_decodeBindRequest:
  assumes "fits (encodeBindRequest b)" and "bind_normal b"
  shows "\<exists>c. encodeBindRequest b = tlv kBerBindRequest c \<and> decodes (decodeBindRequest defaultBind) c b"
proof -
  let ?v = "tlv kBerInteger (encodeInteger (scast (bd_version b)))"
  let ?dn = "tlv kBerOctetString (bytes_of (bd_dn b))"
  show ?thesis
  proof (cases "bd_simple b")
    case True
    let ?pw = "tlv kBerSimpleAuth (bytes_of (bd_password b))"
    have enc: "encodeBindRequest b = tlv kBerBindRequest (?v @ ?dn @ ?pw)"
      using True by (simp add: encodeBindRequest_def write_simps Let_def)
    with assms(1) have "fits (?v @ ?dn @ ?pw)" by (simp only: fits_tlv)
    then have dn: "fits (bytes_of (bd_dn b))" and pw: "fits (bytes_of (bd_password b))"
      by (blast dest: fitsD)+
    let ?b = "defaultBind\<lparr>bd_dn := bd_dn b, bd_version := bd_version b, bd_simple := True\<rparr>"
    have "parses (\<lambda>r. rbind (readOctetStringTag kBerSimpleAuth r)
        (\<lambda>pw r. (Some (?b\<lparr>bd_password := pw\<rparr>), r))) ?pw b"
      by (rule parses_bind0 [OF octetsTag [OF pw]])
         (use True assms(2) in \<open>cases b; simp add: bind_normal_def defaultBind_def parses_return\<close>)
    then have "decodes (decodeBindRequest defaultBind) (?v @ ?dn @ ?pw) b"
      unfolding decodeBindRequest_def [abs_def] Let_def
      by (intro decodes_bind [OF parses_readInteger] decodes_bind [OF octets [OF dn]]
          parses_decodes [OF parses_tagged]) simp_all
    with enc show ?thesis by blast
  next
    case False
    let ?s = "tlv kBerOctetString (bytes_of (bd_sasl_mechanism b)) @
      (if bd_sasl_credentials b \<noteq> [] then tlv kBerOctetString (bytes_of (bd_sasl_credentials b)) else [])"
    have enc: "encodeBindRequest b = tlv kBerBindRequest (?v @ ?dn @ tlv kBerSaslAuth ?s)"
      using False by (simp add: encodeBindRequest_def write_simps Let_def)
    with assms(1) have "fits (?v @ ?dn @ tlv kBerSaslAuth ?s)" by (simp only: fits_tlv)
    then have dn: "fits (bytes_of (bd_dn b))" and s: "fits ?s" by (blast dest: fitsD)+
    let ?b = "defaultBind\<lparr>bd_dn := bd_dn b, bd_version := bd_version b, bd_simple := False\<rparr>"
    have res: "(if bd_sasl_credentials b \<noteq> []
        then ?b\<lparr>bd_sasl_mechanism := bd_sasl_mechanism b, bd_sasl_credentials := bd_sasl_credentials b\<rparr>
        else ?b\<lparr>bd_sasl_mechanism := bd_sasl_mechanism b\<rparr>) = b"
      using False assms(2) by (cases b) (simp add: bind_normal_def defaultBind_def)
    have "decodes (decodeBindRequest defaultBind) (?v @ ?dn @ tlv kBerSaslAuth ?s) b"
      unfolding decodeBindRequest_def [abs_def]
      by (rule decodes_bind [OF parses_readInteger], rule decodes_bind [OF octets [OF dn]],
          rule parses_decodes, rule parses_tagged [OF _ inner_decodes [OF s decodes_sasl [OF s, of ?b, unfolded res]]])
         (simp add: Let_def)
    with enc show ?thesis by blast
  qed
qed

text \<open>Results.\<close>

abbreviation result_content :: "LdapMessage \<Rightarrow> bytes" where
  "result_content m \<equiv>
     tlv kBerEnumerated (encodeInteger (scast (ucast (resultCodeByte (msg_result m)) :: int32))) @
     tlv kBerOctetString (bytes_of (msg_matched_dn m)) @
     tlv kBerOctetString (bytes_of (msg_diagnostic m))"

lemma decodes_decodeResult:
  assumes "fits (result_content m @ extra)" and "resultCode_ok (msg_result m)"
    and "decodes (decodeResultExtras (m0\<lparr>msg_matched_dn := msg_matched_dn m,
       msg_diagnostic := msg_diagnostic m, msg_result := msg_result m\<rparr>)) extra m'"
  shows "decodes (decodeResult m0) (result_content m @ extra) m'"
proof -
  let ?n = "ucast (resultCodeByte (msg_result m)) :: int32"
  have nonneg: "\<not> bit ?n 31"
    using bit_imp_le_length [of "resultCodeByte (msg_result m)" 31] by (auto simp: bit_simps)
  from assms(1) have "fits (bytes_of (msg_matched_dn m))" "fits (bytes_of (msg_diagnostic m))"
    by (blast dest: fitsD)+
  with assms(2,3) show ?thesis
    unfolding decodeResult_def [abs_def] append_assoc
    by (intro decodes_bind [OF parses_readEnumerated [OF nonneg]] decodes_bind [OF octets])
       (simp_all add: resultCodeOf_byte)
qed

lemma decodes_extras_end: "decodes (decodeResultExtras m) [] m"
proof (rule decodesI)
  fix r assume "rd_wf r" "rest r = []"
  then show "\<exists>r'. decodeResultExtras m r = (Some m, r') \<and> rd_wf r' \<and> rest r' = []"
    using rest_empty [of r] by (simp add: decodeResultExtras.simps rd_wf_def)
qed

lemma decodes_extras_step:
  assumes "fits (bytes_of s)" and "decodes (decodeResultExtras m') bs v"
    and "\<And>r. \<not> atEnd r \<Longrightarrow> peekTag r = tag \<Longrightarrow> decodeResultExtras m r =
       rbind (readOctetStringTag tag r) (\<lambda>s r. decodeResultExtras (upd s) r)" and "upd s = m'"
  shows "decodes (decodeResultExtras m) (tlv tag (bytes_of s) @ bs) v"
proof (rule decodesI)
  fix r assume r: "rd_wf r" "rest r = tlv tag (bytes_of s) @ bs"
  from octetsTag [OF assms(1)] r obtain r1 where "readOctetStringTag tag r = (Some s, r1)"
    "rd_wf r1" "rest r1 = bs" by (rule parsesE)
  with rest_tlv [OF r] assms(2-4) show "\<exists>r'. decodeResultExtras m r = (Some v, r') \<and> rd_wf r' \<and> rest r' = []"
    by (auto elim: decodesE)
qed

lemma decodes_result_plain:
  assumes "fits (result_content m)" and "resultCode_ok (msg_result m)"
  shows "decodes (decodeResult m0) (result_content m)
     (m0\<lparr>msg_matched_dn := msg_matched_dn m, msg_diagnostic := msg_diagnostic m, msg_result := msg_result m\<rparr>)"
  using decodes_decodeResult [of m "[]" m0] assms decodes_extras_end by simp

lemma decodes_result_sasl:
  assumes fits: "fits (result_content m @ (if msg_server_sasl_creds m \<noteq> []
      then tlv kBerServerSaslCreds (bytes_of (msg_server_sasl_creds m)) else []))"
    and ok: "resultCode_ok (msg_result m)" and m0: "msg_server_sasl_creds m0 = []"
  shows "decodes (decodeResult m0) (result_content m @ (if msg_server_sasl_creds m \<noteq> []
      then tlv kBerServerSaslCreds (bytes_of (msg_server_sasl_creds m)) else []))
     (m0\<lparr>msg_matched_dn := msg_matched_dn m, msg_diagnostic := msg_diagnostic m, msg_result := msg_result m,
        msg_server_sasl_creds := msg_server_sasl_creds m\<rparr>)"
proof (rule decodes_decodeResult [OF fits ok])
  let ?m = "m0\<lparr>msg_matched_dn := msg_matched_dn m, msg_diagnostic := msg_diagnostic m, msg_result := msg_result m\<rparr>"
  let ?c = "msg_server_sasl_creds m"
  show "decodes (decodeResultExtras ?m) (if ?c \<noteq> [] then tlv kBerServerSaslCreds (bytes_of ?c) else [])
     (?m\<lparr>msg_server_sasl_creds := ?c\<rparr>)"
  proof (cases "?c = []")
    case True
    with m0 have "?m\<lparr>msg_server_sasl_creds := ?c\<rparr> = ?m" by (cases m0) simp
    with True decodes_extras_end [of ?m] show ?thesis by simp
  next
    case False
    with fits have "fits (bytes_of ?c)" by (auto dest: fits_append fits_tlv)
    then have "decodes (decodeResultExtras ?m) (tlv kBerServerSaslCreds (bytes_of ?c) @ [])
       (?m\<lparr>msg_server_sasl_creds := ?c\<rparr>)"
      by (rule decodes_extras_step [OF _ decodes_extras_end, where upd = "\<lambda>s. ?m\<lparr>msg_server_sasl_creds := s\<rparr>"])
         (simp_all add: decodeResultExtras.simps [of ?m])
    with False show ?thesis by simp
  qed
qed

abbreviation extended_extra :: "LdapMessage \<Rightarrow> bytes" where
  "extended_extra m \<equiv>
     (if msg_extended_oid m \<noteq> [] then tlv kBerContext10 (bytes_of (msg_extended_oid m)) else []) @
     tlv kBerContext11 (bytes_of (msg_extended_value m))"

lemma decodes_result_extended:
  assumes fits: "fits (result_content m @ extended_extra m)"
    and ok: "resultCode_ok (msg_result m)" and m0: "msg_extended_oid m0 = []"
  shows "decodes (decodeResult m0) (result_content m @ extended_extra m)
     (m0\<lparr>msg_matched_dn := msg_matched_dn m, msg_diagnostic := msg_diagnostic m, msg_result := msg_result m,
        msg_extended_oid := msg_extended_oid m, msg_extended_value := msg_extended_value m\<rparr>)"
proof (rule decodes_decodeResult [OF fits ok])
  let ?m = "m0\<lparr>msg_matched_dn := msg_matched_dn m, msg_diagnostic := msg_diagnostic m, msg_result := msg_result m\<rparr>"
  let ?o = "msg_extended_oid m" and ?v = "msg_extended_value m"
  from fits have v: "fits (bytes_of ?v)" and o: "?o \<noteq> [] \<Longrightarrow> fits (bytes_of ?o)"
    by (auto dest!: fits_append fits_tlv split: if_splits)
  have val: "decodes (decodeResultExtras n) (tlv kBerContext11 (bytes_of ?v)) (n\<lparr>msg_extended_value := ?v\<rparr>)" for n
  proof -
    have "decodes (decodeResultExtras n) (tlv kBerContext11 (bytes_of ?v) @ []) (n\<lparr>msg_extended_value := ?v\<rparr>)"
      by (rule decodes_extras_step [OF v decodes_extras_end, where upd = "\<lambda>s. n\<lparr>msg_extended_value := s\<rparr>"])
         (simp_all add: decodeResultExtras.simps [of n])
    then show ?thesis by simp
  qed
  show "decodes (decodeResultExtras ?m) (extended_extra m)
     (?m\<lparr>msg_extended_oid := ?o, msg_extended_value := ?v\<rparr>)"
  proof (cases "?o = []")
    case True
    with m0 have "?m\<lparr>msg_extended_oid := ?o, msg_extended_value := ?v\<rparr> = ?m\<lparr>msg_extended_value := ?v\<rparr>"
      by (cases m0) simp
    with val [of ?m] True show ?thesis by (simp only: append_Nil simp_thms if_False)
  next
    case False
    from val [of "?m\<lparr>msg_extended_oid := ?o\<rparr>"]
    have "decodes (decodeResultExtras ?m) (tlv kBerContext10 (bytes_of ?o) @ tlv kBerContext11 (bytes_of ?v))
       (?m\<lparr>msg_extended_oid := ?o, msg_extended_value := ?v\<rparr>)"
      by (rule decodes_extras_step [OF o [OF False], where upd = "\<lambda>s. ?m\<lparr>msg_extended_oid := s\<rparr>"])
         (simp_all add: decodeResultExtras.simps [of ?m])
    with False show ?thesis by simp
  qed
qed

text \<open>Requests.\<close>

lemma decodes_decodeSearchRequest:
  assumes "fits (encodeSearchRequest s)" and "search_normal s"
  shows "\<exists>c. encodeSearchRequest s = tlv kBerSearchRequest c \<and> decodes (decodeSearchRequest defaultSearch) c s"
proof -
  let ?pre = "tlv kBerOctetString (bytes_of (sd_base_dn s)) @
      tlv kBerEnumerated (encodeInteger (scast (scopeInt (sd_scope s)))) @
      tlv kBerEnumerated (encodeInteger (scast (0 :: int32))) @
      tlv kBerInteger (encodeInteger (scast (sd_size_limit s))) @
      tlv kBerInteger (encodeInteger (scast (sd_time_limit s))) @
      tlv kBerBoolean [if sd_types_only s then 0xff else 0] @
      encodeBer (sd_filter s) @ tlv kBerSequence (writeStrings (sd_attributes s))"
  have enc: "encodeSearchRequest s = tlv kBerSearchRequest ?pre"
    by (simp only: encodeSearchRequest_def write_simps Let_def writeBytes_def append_assoc append_Nil)
  with assms(1) have "fits ?pre" by (simp only: fits_tlv)
  then have base: "fits (bytes_of (sd_base_dn s))" and filt: "fits (encodeBer (sd_filter s))"
    and attrs: "fits (writeStrings (sd_attributes s))" by (blast dest: fitsD)+
  from assms(2) have scope: "\<not> bit (scopeInt (sd_scope s)) 31" "scopeOf (scopeInt (sd_scope s)) = sd_scope s"
    and f: "sf_valid (sd_filter s)" "node_normal (sf_root (sd_filter s))" "sf_text (sd_filter s) = ''(decoded)''"
    by (simp_all add: search_normal_def scope_ok_def)
  have zero: "\<not> bit (0 :: int32) 31" by simp
  from parses_decodeBer [OF f(1,2) fits_length [OF filt]] f(3)
  have filter: "parses decodeBer (encodeBer (sd_filter s)) (sd_filter s)" by (cases "sd_filter s") simp
  have strings: "decodes (\<lambda>attrs. rbind (readStrings (sd_attributes defaultSearch) attrs) (\<lambda>names attrs.
         (Some (defaultSearch\<lparr>sd_base_dn := sd_base_dn s, sd_scope := scopeOf (scopeInt (sd_scope s)),
           sd_size_limit := ucast (scast (sd_size_limit s) :: int64),
           sd_time_limit := ucast (scast (sd_time_limit s) :: int64),
           sd_types_only := sd_types_only s, sd_filter := sd_filter s, sd_attributes := names\<rparr>), attrs)))
       (writeStrings (sd_attributes s)) s"
  proof (rule decodes_bind0)
    show "decodes (readStrings (sd_attributes defaultSearch)) (writeStrings (sd_attributes s)) (sd_attributes s)"
      using decodes_readStrings [OF attrs] by (simp add: defaultSearch_def)
  qed (simp add: scope defaultSearch_def)
  have "decodes (decodeSearchRequest defaultSearch) ?pre s"
    unfolding decodeSearchRequest_def [abs_def]
    by (rule decodes_bind [OF octets [OF base]] decodes_bind [OF parses_readEnumerated [OF scope(1)]]
        decodes_bind [OF parses_readEnumerated [OF zero]] decodes_bind [OF parses_readInteger]
        decodes_bind [OF parses_readBoolean] decodes_bind [OF filter]
        parses_decodes [OF inner_decodes [OF attrs strings]])+
  with enc show ?thesis by blast
qed

lemma decodes_okI: "v = v' \<Longrightarrow> decodes (\<lambda>r. if rd_ok r then (Some v, r) else (None, r)) [] v'"
  by (erule subst) (rule decodes_okD)

lemma decodes_named_attributes:
  assumes "fits (tlv kBerOctetString (bytes_of dn) @ tlv kBerSequence (encodeAttributes as))"
    and "\<And>r. f dn as r = (Some v, r)"
  shows "decodes (\<lambda>r. rbind (readOctetString r) (\<lambda>dn r.
     rbind (readConstructed kBerSequence r) (\<lambda>attrs r.
       within (rbind (decodeAttributes [] attrs) (\<lambda>as attrs. f dn as attrs)) r)))
     (tlv kBerOctetString (bytes_of dn) @ tlv kBerSequence (encodeAttributes as)) v"
proof -
  from assms(1) have fits: "fits (bytes_of dn)" "fits (encodeAttributes as)" by (blast dest: fitsD)+
  then show ?thesis
    by (intro decodes_bind [OF octets] parses_decodes [OF inner_decodes] decodes_bind0
        [OF decodes_decodeAttributes] assms(2))
qed

lemma decodes_decodeSearchEntry:
  assumes "fits (encodeSearchEntry e)"
  shows "\<exists>c. encodeSearchEntry e = tlv kBerSearchResultEntry c \<and>
    decodes (decodeSearchEntry \<lparr>ed_dn = [], ed_attributes = []\<rparr>) c e"
proof -
  have "encodeSearchEntry e = tlv kBerSearchResultEntry
      (tlv kBerOctetString (bytes_of (ed_dn e)) @ tlv kBerSequence (encodeAttributes (ed_attributes e)))"
    by (simp add: encodeSearchEntry_def write_simps)
  with assms show ?thesis
    unfolding decodeSearchEntry_def [abs_def]
    by (intro exI conjI) (assumption, auto intro!: decodes_named_attributes dest: fits_tlv)
qed

lemma decodes_decodeAddRequest:
  assumes "fits (encodeAddRequest a)"
  shows "\<exists>c. encodeAddRequest a = tlv kBerAddRequest c \<and>
    decodes (decodeAddRequest \<lparr>ad_dn = [], ad_attributes = []\<rparr>) c a"
proof -
  have "encodeAddRequest a = tlv kBerAddRequest
      (tlv kBerOctetString (bytes_of (ad_dn a)) @ tlv kBerSequence (encodeAttributes (ad_attributes a)))"
    by (simp add: encodeAddRequest_def write_simps)
  with assms show ?thesis
    unfolding decodeAddRequest_def [abs_def]
    by (intro exI conjI) (assumption, auto intro!: decodes_named_attributes dest: fits_tlv)
qed

lemma decodes_decodeModifyRequest:
  assumes "fits (encodeModifyRequest m)" and "\<forall>c \<in> set (md_changes m). op_ok (am_op c)"
  shows "\<exists>c. encodeModifyRequest m = tlv kBerModifyRequest c \<and>
    decodes (decodeModifyRequest \<lparr>md_dn = [], md_changes = []\<rparr>) c m"
proof -
  let ?cs = "concat (map change_bytes (md_changes m))"
  let ?c = "tlv kBerOctetString (bytes_of (md_dn m)) @ tlv kBerSequence ?cs"
  have enc: "encodeModifyRequest m = tlv kBerModifyRequest ?c"
    by (simp add: encodeModifyRequest_def write_simps Let_def encodeChanges_concat)
  with assms(1) have "fits ?c" by (simp only: fits_tlv)
  then have fits: "fits (bytes_of (md_dn m))" "fits ?cs" by (blast dest: fitsD)+
  have "decodes (\<lambda>changes. rbind (decodeChanges [] changes) (\<lambda>cs changes.
         (Some (\<lparr>md_dn = [], md_changes = []\<rparr>\<lparr>md_dn := md_dn m, md_changes := cs\<rparr>), changes))) ?cs m"
    by (rule decodes_bind0 [OF decodes_decodeChanges [OF fits(2) assms(2)]]) simp
  then have "decodes (decodeModifyRequest \<lparr>md_dn = [], md_changes = []\<rparr>) ?c m"
    unfolding decodeModifyRequest_def [abs_def] ModifyRequestData.simps
    by (intro decodes_bind [OF octets [OF fits(1)]] parses_decodes [OF inner_decodes [OF fits(2)]])
  with enc show ?thesis by blast
qed

lemma decodes_decodeModifyDnRequest:
  assumes "fits (encodeModifyDnRequest d)"
  shows "\<exists>c. encodeModifyDnRequest d = tlv kBerModifyDNRequest c \<and>
    decodes (decodeModifyDnRequest defaultModifyDn) c d"
proof -
  let ?s = "if dd_new_superior d \<noteq> [] then tlv kBerSimpleAuth (bytes_of (dd_new_superior d)) else []"
  let ?c = "tlv kBerOctetString (bytes_of (dd_dn d)) @ tlv kBerOctetString (bytes_of (dd_new_rdn d)) @
      tlv kBerBoolean [if dd_delete_old_rdn d then 0xff else 0] @ ?s"
  have enc: "encodeModifyDnRequest d = tlv kBerModifyDNRequest ?c"
    by (simp add: encodeModifyDnRequest_def write_simps Let_def)
  with assms have "fits ?c" by (simp only: fits_tlv)
  then have fits: "fits (bytes_of (dd_dn d))" "fits (bytes_of (dd_new_rdn d))" and "fits ?s"
    by (blast dest: fitsD)+
  then have sup: "dd_new_superior d \<noteq> [] \<Longrightarrow> fits (bytes_of (dd_new_superior d))" by (simp add: fits_tlv)
  let ?d = "defaultModifyDn\<lparr>dd_dn := dd_dn d, dd_new_rdn := dd_new_rdn d,
      dd_delete_old_rdn := dd_delete_old_rdn d\<rparr>"
  have fin: "dd_new_superior d = [] \<Longrightarrow> ?d = d" by (cases d) (simp add: defaultModifyDn_def)
  have "decodes (\<lambda>r. if \<not> atEnd r \<and> peekTag r = kBerSimpleAuth then
         rbind (readOctetStringTag kBerSimpleAuth r) (\<lambda>sup r. (Some (?d\<lparr>dd_new_superior := sup\<rparr>), r))
       else if rd_ok r then (Some ?d, r) else (None, r)) ?s d"
  proof (rule decodes_optional)
    assume "dd_new_superior d \<noteq> []"
    then show "parses (\<lambda>r. rbind (readOctetStringTag kBerSimpleAuth r)
        (\<lambda>sup r. (Some (?d\<lparr>dd_new_superior := sup\<rparr>), r))) (tlv kBerSimpleAuth (bytes_of (dd_new_superior d))) d"
      by (intro parses_octetsTag_return sup) (simp_all add: defaultModifyDn_def)
  qed (simp_all add: decodes_okI fin)
  then have "decodes (decodeModifyDnRequest defaultModifyDn) ?c d"
    unfolding decodeModifyDnRequest_def [abs_def] Let_def
    by (intro decodes_bind [OF octets [OF fits(1)]] decodes_bind [OF octets [OF fits(2)]]
        decodes_bind [OF parses_readBoolean])
  with enc show ?thesis by blast
qed

lemma decodes_decodeCompareRequest:
  assumes "fits (encodeCompareRequest c)"
  shows "\<exists>bs. encodeCompareRequest c = tlv kBerCompareRequest bs \<and>
    decodes (decodeCompareRequest \<lparr>cd_dn = [], cd_attribute = [], cd_value = []\<rparr>) bs c"
proof -
  let ?a = "tlv kBerOctetString (bytes_of (cd_attribute c)) @ tlv kBerOctetString (bytes_of (cd_value c))"
  let ?c = "tlv kBerOctetString (bytes_of (cd_dn c)) @ tlv kBerSequence ?a"
  have enc: "encodeCompareRequest c = tlv kBerCompareRequest ?c"
    by (simp add: encodeCompareRequest_def write_simps Let_def)
  with assms have "fits ?c" by (simp only: fits_tlv)
  then have fits: "fits (bytes_of (cd_dn c))" "fits (bytes_of (cd_attribute c))"
    "fits (bytes_of (cd_value c))" "fits ?a" by (blast dest: fitsD)+
  have ava: "decodes (\<lambda>ava. rbind (readOctetString ava) (\<lambda>attr ava.
         rbind (readOctetString ava) (\<lambda>val ava. (Some (attr, val), ava)))) ?a (cd_attribute c, cd_value c)"
    by (intro decodes_bind [OF octets [OF fits(2)]] decodes_bind_nil [OF octets [OF fits(3)]] decodes_return)
  have "decodes (decodeCompareRequest \<lparr>cd_dn = [], cd_attribute = [], cd_value = []\<rparr>) ?c c"
    unfolding decodeCompareRequest_def [abs_def]
    by (rule decodes_bind [OF octets [OF fits(1)]], rule decodes_bind_nil [OF constructed [OF fits(4)]])
       (simp add: within_decodes [OF ava] decodes_okI)
  with enc show ?thesis by blast
qed

lemma decodes_decodeExtendedRequest:
  assumes "fits (encodeExtendedRequest oid val)"
  shows "\<exists>c. encodeExtendedRequest oid val = tlv kBerExtendedRequest c \<and>
    decodes (decodeExtendedRequest []) c (oid, val)"
proof -
  let ?v = "if val \<noteq> [] then tlv kBerContext1 (bytes_of val) else []"
  have enc: "encodeExtendedRequest oid val = tlv kBerExtendedRequest (tlv kBerSimpleAuth (bytes_of oid) @ ?v)"
    by (simp add: encodeExtendedRequest_def write_simps Let_def)
  with assms have "fits (tlv kBerSimpleAuth (bytes_of oid) @ ?v)" by (simp only: fits_tlv)
  then have oid: "fits (bytes_of oid)" and "fits ?v" by (blast dest: fitsD)+
  then have val: "val \<noteq> [] \<Longrightarrow> fits (bytes_of val)" by (simp add: fits_tlv)
  have "decodes (\<lambda>r. if \<not> atEnd r \<and> peekTag r = kBerContext1 then
         rbind (readOctetStringTag kBerContext1 r) (\<lambda>val r. (Some (oid, val), r))
       else if rd_ok r then (Some (oid, []), r) else (None, r)) ?v (oid, val)"
    by (rule decodes_optional) (auto intro: parses_octetsTag_return val decodes_okD)
  then have "decodes (decodeExtendedRequest []) (tlv kBerSimpleAuth (bytes_of oid) @ ?v) (oid, val)"
    unfolding decodeExtendedRequest_def [abs_def] by (intro decodes_bind [OF octetsTag [OF oid]])
  with enc show ?thesis by blast
qed

text \<open>The operation: every tag selects its decoder.\<close>

lemma parses_op:
  assumes "fits c" and "decodes dec c v" and "f v = m'"
    and "\<And>r. peekTag r = tag \<Longrightarrow> decodeOp m r = rbind (readOp tag dec r) (\<lambda>v r. (Some (f v), r))"
  shows "parses (decodeOp m) (tlv tag c) m'"
proof -
  have "parses (\<lambda>r. rbind (readOp tag dec r) (\<lambda>v r. (Some (f v), r))) (tlv tag c) m'"
    by (rule parses_bind0 [OF parses_readOp [OF assms(1,2)]]) (simp add: assms(3) parses_return)
  then show ?thesis by (rule parses_tagged [rotated]) (rule assms(4))
qed

lemma parses_result_op:
  assumes "fits c" and "decodes (decodeResult m0) c m'"
    and "\<And>r. peekTag r = tag \<Longrightarrow> decodeOp m r = readOp tag (decodeResult m0) r"
  shows "parses (decodeOp m) (tlv tag c) m'"
  using parses_readOp [OF assms(1,2)] by (rule parses_tagged [rotated]) (rule assms(3))

lemma resultOp_plain:
  "tag \<noteq> kBerExtendedResponse \<Longrightarrow> resultOp m tag = tlv tag (result_content m)"
  by (simp add: resultOp_def encodeResult_def write_simps Let_def)

lemma resultOp_extended:
  "resultOp m kBerExtendedResponse = tlv kBerExtendedResponse (result_content m @
     (if msg_extended_oid m \<noteq> [] \<or> msg_extended_value m \<noteq> [] then extended_extra m else []))"
  by (simp add: resultOp_def encodeResult_def write_simps writeBytes_def Let_def)

lemma encodeBindResponse_tlv:
  "encodeBindResponse m = tlv kBerBindResponse (result_content m @
     (if msg_server_sasl_creds m \<noteq> [] then tlv kBerServerSaslCreds (bytes_of (msg_server_sasl_creds m)) else []))"
  by (simp add: encodeBindResponse_def write_simps Let_def)

lemma parses_plain_result_op:
  assumes "fits (tlv tag (result_content m))" and "resultCode_ok (msg_result m)"
    and "\<And>r. peekTag r = tag \<Longrightarrow> decodeOp m0 r = readOp tag (decodeResult (m0\<lparr>msg_op := msg_op m\<rparr>)) r"
    and "m\<lparr>msg_controls := []\<rparr> = m0\<lparr>msg_op := msg_op m, msg_matched_dn := msg_matched_dn m,
       msg_diagnostic := msg_diagnostic m, msg_result := msg_result m\<rparr>"
  shows "parses (decodeOp m0) (tlv tag (result_content m)) (m\<lparr>msg_controls := []\<rparr>)"
  unfolding assms(4)
  by (rule parses_result_op [OF fits_tlv [OF assms(1)] decodes_result_plain [OF fits_tlv [OF assms(1)] assms(2)] assms(3)])

text \<open>The message the decoder starts from.\<close>

abbreviation start :: "int32 \<Rightarrow> LdapMessage" where
  "start i \<equiv> defaultMessage\<lparr>msg_id := i\<rparr>"

lemma default_fields [simp]:
  "msg_bind defaultMessage = defaultBind" "msg_search defaultMessage = defaultSearch"
  "msg_entry defaultMessage = \<lparr>ed_dn = [], ed_attributes = []\<rparr>"
  "msg_add defaultMessage = \<lparr>ad_dn = [], ad_attributes = []\<rparr>"
  "msg_modify defaultMessage = \<lparr>md_dn = [], md_changes = []\<rparr>" "msg_modify_dn defaultMessage = defaultModifyDn"
  "msg_compare defaultMessage = \<lparr>cd_dn = [], cd_attribute = [], cd_value = []\<rparr>"
  "msg_extended_value defaultMessage = []" "msg_extended_oid defaultMessage = []"
  "msg_server_sasl_creds defaultMessage = []" "msg_controls defaultMessage = []"
  by (simp_all add: defaultMessage_def)

lemma parses_decodeOp_result:
  assumes op: "(msg_op m, tag) \<in> {(SearchResultDone, kBerSearchResultDone), (ModifyResponse, kBerModifyResponse),
      (AddResponse, kBerAddResponse), (DelResponse, kBerDelResponse), (ModifyDNResponse, kBerModifyDNResponse),
      (CompareResponse, kBerCompareResponse)}"
    and "message_normal m" and "fits (encodeOp m)"
  shows "parses (decodeOp (start (msg_id m))) (encodeOp m) (m\<lparr>msg_controls := []\<rparr>)"
proof -
  from op have enc: "encodeOp m = tlv tag (result_content m)"
    by (auto simp: encodeOp_def resultOp_plain)
  from op assms(2) have m: "resultCode_ok (msg_result m)"
    "m\<lparr>msg_controls := []\<rparr> = (start (msg_id m))\<lparr>msg_op := msg_op m, msg_matched_dn := msg_matched_dn m,
       msg_diagnostic := msg_diagnostic m, msg_result := msg_result m\<rparr>"
    by (cases m; auto simp: message_normal_def Let_def defaultMessage_def)+
  from assms(3) have "fits (tlv tag (result_content m))" by (simp only: enc)
  from this m(1) _ m(2) show ?thesis
    unfolding enc by (rule parses_plain_result_op) (use op in \<open>auto simp: decodeOp_def Let_def\<close>)
qed

lemma parses_decodeOp_with:
  assumes "encodeOp m = tlv tag c" and "decodes d c v" and "fits (encodeOp m)"
    and "f v = m\<lparr>msg_controls := []\<rparr>"
    and "\<And>r. peekTag r = tag \<Longrightarrow> decodeOp (start (msg_id m)) r = rbind (readOp tag d r) (\<lambda>v r. (Some (f v), r))"
  shows "parses (decodeOp (start (msg_id m))) (encodeOp m) (m\<lparr>msg_controls := []\<rparr>)"
  using parses_op [OF _ assms(2), of f "m\<lparr>msg_controls := []\<rparr>" tag "start (msg_id m)"] assms
  by (simp add: fits_tlv)

text \<open>What a normal message is, without its controls.\<close>

lemma message_normal_eq:
  assumes "message_normal m"
  shows "m\<lparr>msg_controls := []\<rparr> = (case msg_op m of
      BindRequest \<Rightarrow> (start (msg_id m))\<lparr>msg_op := BindRequest, msg_bind := msg_bind m\<rparr>
    | BindResponse \<Rightarrow> (start (msg_id m))\<lparr>msg_op := BindResponse, msg_matched_dn := msg_matched_dn m,
        msg_diagnostic := msg_diagnostic m, msg_result := msg_result m,
        msg_server_sasl_creds := msg_server_sasl_creds m\<rparr>
    | UnbindRequest \<Rightarrow> (start (msg_id m))\<lparr>msg_op := UnbindRequest\<rparr>
    | SearchRequest \<Rightarrow> (start (msg_id m))\<lparr>msg_op := SearchRequest, msg_search := msg_search m\<rparr>
    | SearchResultEntry \<Rightarrow> (start (msg_id m))\<lparr>msg_op := SearchResultEntry, msg_entry := msg_entry m\<rparr>
    | ModifyRequest \<Rightarrow> (start (msg_id m))\<lparr>msg_op := ModifyRequest, msg_modify := msg_modify m\<rparr>
    | AddRequest \<Rightarrow> (start (msg_id m))\<lparr>msg_op := AddRequest, msg_add := msg_add m\<rparr>
    | DelRequest \<Rightarrow> (start (msg_id m))\<lparr>msg_op := DelRequest, msg_delete_dn := msg_delete_dn m\<rparr>
    | ModifyDNRequest \<Rightarrow> (start (msg_id m))\<lparr>msg_op := ModifyDNRequest, msg_modify_dn := msg_modify_dn m\<rparr>
    | CompareRequest \<Rightarrow> (start (msg_id m))\<lparr>msg_op := CompareRequest, msg_compare := msg_compare m\<rparr>
    | ExtendedRequest \<Rightarrow> (start (msg_id m))\<lparr>msg_op := ExtendedRequest,
        msg_extended_oid := msg_extended_oid m, msg_extended_value := msg_extended_value m\<rparr>
    | ExtendedResponse \<Rightarrow> (start (msg_id m))\<lparr>msg_op := ExtendedResponse, msg_matched_dn := msg_matched_dn m,
        msg_diagnostic := msg_diagnostic m, msg_result := msg_result m,
        msg_extended_oid := msg_extended_oid m, msg_extended_value := msg_extended_value m\<rparr>
    | op \<Rightarrow> (start (msg_id m))\<lparr>msg_op := op, msg_matched_dn := msg_matched_dn m,
        msg_diagnostic := msg_diagnostic m, msg_result := msg_result m\<rparr>)"
  using assms by (cases m; cases "msg_op m") (simp_all add: message_normal_def Let_def defaultMessage_def)

lemma decodeOp_request:
  "peekTag r = kBerBindRequest \<Longrightarrow> decodeOp m r =
     rbind (readOp kBerBindRequest (decodeBindRequest (msg_bind m)) r) (\<lambda>x r. (Some (m\<lparr>msg_op := BindRequest, msg_bind := x\<rparr>), r))"
  "peekTag r = kBerSearchRequest \<Longrightarrow> decodeOp m r =
     rbind (readOp kBerSearchRequest (decodeSearchRequest (msg_search m)) r) (\<lambda>x r. (Some (m\<lparr>msg_op := SearchRequest, msg_search := x\<rparr>), r))"
  "peekTag r = kBerSearchResultEntry \<Longrightarrow> decodeOp m r =
     rbind (readOp kBerSearchResultEntry (decodeSearchEntry (msg_entry m)) r) (\<lambda>x r. (Some (m\<lparr>msg_op := SearchResultEntry, msg_entry := x\<rparr>), r))"
  "peekTag r = kBerModifyRequest \<Longrightarrow> decodeOp m r =
     rbind (readOp kBerModifyRequest (decodeModifyRequest (msg_modify m)) r) (\<lambda>x r. (Some (m\<lparr>msg_op := ModifyRequest, msg_modify := x\<rparr>), r))"
  "peekTag r = kBerAddRequest \<Longrightarrow> decodeOp m r =
     rbind (readOp kBerAddRequest (decodeAddRequest (msg_add m)) r) (\<lambda>x r. (Some (m\<lparr>msg_op := AddRequest, msg_add := x\<rparr>), r))"
  "peekTag r = kBerModifyDNRequest \<Longrightarrow> decodeOp m r =
     rbind (readOp kBerModifyDNRequest (decodeModifyDnRequest (msg_modify_dn m)) r) (\<lambda>x r. (Some (m\<lparr>msg_op := ModifyDNRequest, msg_modify_dn := x\<rparr>), r))"
  "peekTag r = kBerCompareRequest \<Longrightarrow> decodeOp m r =
     rbind (readOp kBerCompareRequest (decodeCompareRequest (msg_compare m)) r) (\<lambda>x r. (Some (m\<lparr>msg_op := CompareRequest, msg_compare := x\<rparr>), r))"
  by (simp_all add: decodeOp_def Let_def)

lemma decodeOp_extended:
  "peekTag r = kBerExtendedRequest \<Longrightarrow> decodeOp m r =
     rbind (readOp kBerExtendedRequest (decodeExtendedRequest (msg_extended_value m)) r)
       (\<lambda>x r. (Some (case x of (oid, val) \<Rightarrow>
          m\<lparr>msg_op := ExtendedRequest, msg_extended_oid := oid, msg_extended_value := val\<rparr>), r))"
  by (simp add: decodeOp_def Let_def) (rule arg_cong [where f = "rbind _"], auto simp: fun_eq_iff)

lemma parses_decodeOp_request:
  assumes "message_normal m" and "fits (encodeOp m)"
    and "msg_op m \<in> {BindRequest, SearchRequest, SearchResultEntry, ModifyRequest, AddRequest,
      ModifyDNRequest, CompareRequest}"
  shows "parses (decodeOp (start (msg_id m))) (encodeOp m) (m\<lparr>msg_controls := []\<rparr>)"
proof -
  note m = message_normal_eq [OF assms(1)]
  show ?thesis
  proof (cases "msg_op m")
    case BindRequest
    with assms have "fits (encodeBindRequest (msg_bind m))" "bind_normal (msg_bind m)"
      by (simp_all add: encodeOp_def message_normal_def Let_def)
    then obtain c where c: "encodeBindRequest (msg_bind m) = tlv kBerBindRequest c" "decodes (decodeBindRequest defaultBind) c (msg_bind m)"
      using parses_decodeBindRequest by blast
    show ?thesis
      by (rule parses_decodeOp_with [OF _ c(2) assms(2), where f = "\<lambda>x. (start (msg_id m))\<lparr>msg_op := BindRequest, msg_bind := x\<rparr>"])
         (use BindRequest c(1) m decodeOp_request(1) [of _ "start (msg_id m)"] in \<open>simp_all add: encodeOp_def\<close>)
  next
    case SearchRequest
    with assms have "fits (encodeSearchRequest (msg_search m))" "search_normal (msg_search m)"
      by (simp_all add: encodeOp_def message_normal_def Let_def)
    then obtain c where c: "encodeSearchRequest (msg_search m) = tlv kBerSearchRequest c" "decodes (decodeSearchRequest defaultSearch) c (msg_search m)"
      using decodes_decodeSearchRequest by blast
    show ?thesis
      by (rule parses_decodeOp_with [OF _ c(2) assms(2), where f = "\<lambda>x. (start (msg_id m))\<lparr>msg_op := SearchRequest, msg_search := x\<rparr>"])
         (use SearchRequest c(1) m decodeOp_request(2) [of _ "start (msg_id m)"] in \<open>simp_all add: encodeOp_def\<close>)
  next
    case SearchResultEntry
    with assms have "fits (encodeSearchEntry (msg_entry m))" 
      by (simp_all add: encodeOp_def message_normal_def Let_def)
    then obtain c where c: "encodeSearchEntry (msg_entry m) = tlv kBerSearchResultEntry c" "decodes (decodeSearchEntry \<lparr>ed_dn = [], ed_attributes = []\<rparr>) c (msg_entry m)"
      using decodes_decodeSearchEntry by blast
    show ?thesis
      by (rule parses_decodeOp_with [OF _ c(2) assms(2), where f = "\<lambda>x. (start (msg_id m))\<lparr>msg_op := SearchResultEntry, msg_entry := x\<rparr>"])
         (use SearchResultEntry c(1) m decodeOp_request(3) [of _ "start (msg_id m)"] in \<open>simp_all add: encodeOp_def\<close>)
  next
    case ModifyRequest
    with assms have "fits (encodeModifyRequest (msg_modify m))" "\<forall>c \<in> set (md_changes (msg_modify m)). op_ok (am_op c)"
      by (simp_all add: encodeOp_def message_normal_def Let_def)
    then obtain c where c: "encodeModifyRequest (msg_modify m) = tlv kBerModifyRequest c" "decodes (decodeModifyRequest \<lparr>md_dn = [], md_changes = []\<rparr>) c (msg_modify m)"
      using decodes_decodeModifyRequest by blast
    show ?thesis
      by (rule parses_decodeOp_with [OF _ c(2) assms(2), where f = "\<lambda>x. (start (msg_id m))\<lparr>msg_op := ModifyRequest, msg_modify := x\<rparr>"])
         (use ModifyRequest c(1) m decodeOp_request(4) [of _ "start (msg_id m)"] in \<open>simp_all add: encodeOp_def\<close>)
  next
    case AddRequest
    with assms have "fits (encodeAddRequest (msg_add m))" 
      by (simp_all add: encodeOp_def message_normal_def Let_def)
    then obtain c where c: "encodeAddRequest (msg_add m) = tlv kBerAddRequest c" "decodes (decodeAddRequest \<lparr>ad_dn = [], ad_attributes = []\<rparr>) c (msg_add m)"
      using decodes_decodeAddRequest by blast
    show ?thesis
      by (rule parses_decodeOp_with [OF _ c(2) assms(2), where f = "\<lambda>x. (start (msg_id m))\<lparr>msg_op := AddRequest, msg_add := x\<rparr>"])
         (use AddRequest c(1) m decodeOp_request(5) [of _ "start (msg_id m)"] in \<open>simp_all add: encodeOp_def\<close>)
  next
    case ModifyDNRequest
    with assms have "fits (encodeModifyDnRequest (msg_modify_dn m))" 
      by (simp_all add: encodeOp_def message_normal_def Let_def)
    then obtain c where c: "encodeModifyDnRequest (msg_modify_dn m) = tlv kBerModifyDNRequest c" "decodes (decodeModifyDnRequest defaultModifyDn) c (msg_modify_dn m)"
      using decodes_decodeModifyDnRequest by blast
    show ?thesis
      by (rule parses_decodeOp_with [OF _ c(2) assms(2), where f = "\<lambda>x. (start (msg_id m))\<lparr>msg_op := ModifyDNRequest, msg_modify_dn := x\<rparr>"])
         (use ModifyDNRequest c(1) m decodeOp_request(6) [of _ "start (msg_id m)"] in \<open>simp_all add: encodeOp_def\<close>)
  next
    case CompareRequest
    with assms have "fits (encodeCompareRequest (msg_compare m))" 
      by (simp_all add: encodeOp_def message_normal_def Let_def)
    then obtain c where c: "encodeCompareRequest (msg_compare m) = tlv kBerCompareRequest c" "decodes (decodeCompareRequest \<lparr>cd_dn = [], cd_attribute = [], cd_value = []\<rparr>) c (msg_compare m)"
      using decodes_decodeCompareRequest by blast
    show ?thesis
      by (rule parses_decodeOp_with [OF _ c(2) assms(2), where f = "\<lambda>x. (start (msg_id m))\<lparr>msg_op := CompareRequest, msg_compare := x\<rparr>"])
         (use CompareRequest c(1) m decodeOp_request(7) [of _ "start (msg_id m)"] in \<open>simp_all add: encodeOp_def\<close>)
  qed (use assms(3) in simp_all)
qed

lemma parses_decodeOp_response:
  assumes "message_normal m" and "fits (encodeOp m)" and "msg_op m \<in> {BindResponse, ExtendedResponse}"
  shows "parses (decodeOp (start (msg_id m))) (encodeOp m) (m\<lparr>msg_controls := []\<rparr>)"
proof -
  note m = message_normal_eq [OF assms(1)]
  have ok: "resultCode_ok (msg_result m)" using assms(1,3) by (auto simp: message_normal_def Let_def)
  consider "msg_op m = BindResponse" | "msg_op m = ExtendedResponse" using assms(3) by blast
  then show ?thesis
  proof cases
    case 1
    from 1 have enc: "encodeOp m = encodeBindResponse m" by (simp add: encodeOp_def)
    from assms(2) have fits: "fits (result_content m @ (if msg_server_sasl_creds m \<noteq> []
        then tlv kBerServerSaslCreds (bytes_of (msg_server_sasl_creds m)) else []))"
      unfolding enc encodeBindResponse_tlv by (rule fits_tlv)
    show ?thesis
      unfolding enc encodeBindResponse_tlv m 1 ProtocolOp.case
      by (rule parses_result_op [OF fits decodes_result_sasl [OF fits ok]])
         (simp_all add: decodeOp_def Let_def)
  next
    case 2
    from 2 have enc: "encodeOp m = resultOp m kBerExtendedResponse" by (simp add: encodeOp_def)
    show ?thesis
    proof (cases "msg_extended_oid m \<noteq> [] \<or> msg_extended_value m \<noteq> []")
      case True
      from assms(2) have fits: "fits (result_content m @ extended_extra m)"
        unfolding enc resultOp_extended if_P [OF True] by (rule fits_tlv)
      show ?thesis
        unfolding enc resultOp_extended m 2 ProtocolOp.case if_P [OF True]
        by (rule parses_result_op [OF fits decodes_result_extended [OF fits ok]])
           (simp_all add: decodeOp_def Let_def)
    next
      case False
      then have "resultOp m kBerExtendedResponse = tlv kBerExtendedResponse (result_content m)"
        by (simp add: resultOp_extended)
      with assms(2) enc have "fits (tlv kBerExtendedResponse (result_content m))"
        and e: "encodeOp m = tlv kBerExtendedResponse (result_content m)" by simp_all
      from this(1) ok show ?thesis
        unfolding e by (rule parses_plain_result_op)
          (use False 2 m in \<open>simp_all add: decodeOp_def Let_def\<close>)
    qed
  qed
qed

lemma parses_decodeOp:
  assumes "message_normal m" and "fits (encodeOp m)"
  shows "parses (decodeOp (start (msg_id m))) (encodeOp m) (m\<lparr>msg_controls := []\<rparr>)"
proof -
  note m = message_normal_eq [OF assms(1)]
  consider (unbind) "msg_op m = UnbindRequest" | (del) "msg_op m = DelRequest" | (ext) "msg_op m = ExtendedRequest"
    | (request) "msg_op m \<in> {BindRequest, SearchRequest, SearchResultEntry, ModifyRequest, AddRequest,
        ModifyDNRequest, CompareRequest}"
    | (response) "msg_op m \<in> {BindResponse, ExtendedResponse}" | (unknown) "msg_op m = Unknown"
    | (result) tag where "(msg_op m, tag) \<in> {(SearchResultDone, kBerSearchResultDone),
        (ModifyResponse, kBerModifyResponse), (AddResponse, kBerAddResponse), (DelResponse, kBerDelResponse),
        (ModifyDNResponse, kBerModifyDNResponse), (CompareResponse, kBerCompareResponse)}"
    by (cases "msg_op m") auto
  then show ?thesis
  proof cases
    case unbind
    have "parses (\<lambda>r. rbind (skip r) (\<lambda>_ r. (Some ((start (msg_id m))\<lparr>msg_op := UnbindRequest\<rparr>), r)))
        (tlv kBerUnbindRequest []) (m\<lparr>msg_controls := []\<rparr>)"
      by (rule parses_bind0 [OF parses_skip]) (use unbind m in \<open>simp_all add: parses_return\<close>)
    then have "parses (decodeOp (start (msg_id m))) (tlv kBerUnbindRequest []) (m\<lparr>msg_controls := []\<rparr>)"
      by (rule parses_tagged [rotated]) (simp add: decodeOp_def Let_def)
    with unbind show ?thesis by (simp add: encodeOp_def write_simps)
  next
    case del
    then have enc: "encodeOp m = tlv kBerDelRequest (bytes_of (msg_delete_dn m))"
      by (simp add: encodeOp_def write_simps)
    have "parses (\<lambda>r. rbind (readOctetStringTag kBerDelRequest r)
        (\<lambda>dn r. (Some ((start (msg_id m))\<lparr>msg_op := DelRequest, msg_delete_dn := dn\<rparr>), r)))
        (tlv kBerDelRequest (bytes_of (msg_delete_dn m))) (m\<lparr>msg_controls := []\<rparr>)"
      by (rule parses_octetsTag_return) (use assms(2) enc del m in \<open>simp_all add: fits_tlv\<close>)
    then show ?thesis
      unfolding enc by (rule parses_tagged [rotated]) (simp add: decodeOp_def Let_def)
  next
    case ext
    with assms(2) have "fits (encodeExtendedRequest (msg_extended_oid m) (msg_extended_value m))"
      by (simp add: encodeOp_def)
    then obtain c where c: "encodeExtendedRequest (msg_extended_oid m) (msg_extended_value m) =
        tlv kBerExtendedRequest c"
      "decodes (decodeExtendedRequest []) c (msg_extended_oid m, msg_extended_value m)"
      using decodes_decodeExtendedRequest by blast
    show ?thesis
      by (rule parses_decodeOp_with [OF _ c(2) assms(2), where f = "\<lambda>(oid, val). (start (msg_id m))\<lparr>
          msg_op := ExtendedRequest, msg_extended_oid := oid, msg_extended_value := val\<rparr>"])
         (use ext c(1) m decodeOp_extended [of _ "start (msg_id m)"] in \<open>simp_all add: encodeOp_def\<close>)
  next
    case request
    with assms show ?thesis by (rule parses_decodeOp_request)
  next
    case response
    with assms show ?thesis by (rule parses_decodeOp_response)
  next
    case unknown
    with assms(1) show ?thesis by (simp add: message_normal_def Let_def)
  next
    case (result tag)
    from result assms show ?thesis by (rule parses_decodeOp_result)
  qed
qed

lemma decodes_controls_part:
  assumes "fits (if cs \<noteq> [] then encodeControls cs else [])" and "msg_controls m = []"
  shows "decodes (\<lambda>body. if \<not> atEnd body \<and> peekTag body = kBerControls then
           rbind (readOp kBerControls (decodeControls (msg_controls m)) body) (\<lambda>cs body.
             (Some (m\<lparr>msg_controls := cs\<rparr>), body))
         else (Some m, body))
     (if cs \<noteq> [] then encodeControls cs else []) (m\<lparr>msg_controls := cs\<rparr>)"
  unfolding encodeControls_concat
proof (rule decodes_optional)
  assume "cs \<noteq> []"
  with assms(1) have fits: "fits (concat (map control_bytes cs))"
    by (simp add: encodeControls_concat fits_tlv)
  show "parses (\<lambda>body. rbind (readOp kBerControls (decodeControls (msg_controls m)) body) (\<lambda>cs body.
       (Some (m\<lparr>msg_controls := cs\<rparr>), body))) (tlv kBerControls (concat (map control_bytes cs)))
       (m\<lparr>msg_controls := cs\<rparr>)"
    unfolding assms(2)
    by (rule parses_bind0 [OF parses_readOp [OF fits decodes_decodeControls [OF fits]]]) (rule parses_return)
next
  assume "\<not> cs \<noteq> []"
  with assms(2) have "m\<lparr>msg_controls := cs\<rparr> = m" by (cases m) simp
  then show "decodes (\<lambda>body. (Some m, body)) [] (m\<lparr>msg_controls := cs\<rparr>)"
    using decodes_return [of m] by simp
qed

lemma decode_encode_message:
  assumes normal: "message_normal m" and fits: "fits (encodeLdapMessage m)"
  shows "decodeLdapMessage (encodeLdapMessage m) = Some m"
proof -
  let ?cs = "if msg_controls m \<noteq> [] then encodeControls (msg_controls m) else []"
  let ?body = "tlv kBerInteger (encodeInteger (scast (msg_id m))) @ encodeOp m @ ?cs"
  have enc: "encodeLdapMessage m = tlv kBerSequence ?body"
    by (simp add: encodeLdapMessage_def write_simps writeBytes_def Let_def)
  with fits have body: "fits ?body" by (simp only: fits_tlv)
  then have f: "fits (encodeOp m)" "fits ?cs" by (blast dest: fits_append)+
  from decodes_controls_part [OF f(2), of "m\<lparr>msg_controls := []\<rparr>"]
  have cs: "decodes (\<lambda>body. if \<not> atEnd body \<and> peekTag body = kBerControls then
           rbind (readOp kBerControls (decodeControls (msg_controls (m\<lparr>msg_controls := []\<rparr>))) body) (\<lambda>cs body.
             (Some (m\<lparr>msg_controls := []\<rparr>\<lparr>msg_controls := cs\<rparr>), body))
         else (Some (m\<lparr>msg_controls := []\<rparr>), body)) ?cs m" by simp
  have "decodes (\<lambda>body. rbind (readInteger body) (\<lambda>message_id body.
       rbind (decodeOp (defaultMessage\<lparr>msg_id := ucast message_id\<rparr>) body) (\<lambda>m body.
         if \<not> atEnd body \<and> peekTag body = kBerControls then
           rbind (readOp kBerControls (decodeControls (msg_controls m)) body) (\<lambda>cs body.
             (Some (m\<lparr>msg_controls := cs\<rparr>), body))
         else (Some m, body)))) ?body m"
    by (rule decodes_bind [OF parses_readInteger], unfold scast_ucast_id,
        rule decodes_bind [OF parses_decodeOp [OF normal f(1)]], rule cs)
  then have inner: "fst ((\<lambda>body. rbind (readInteger body) (\<lambda>message_id body.
       rbind (decodeOp (defaultMessage\<lparr>msg_id := ucast message_id\<rparr>) body) (\<lambda>m body.
         if \<not> atEnd body \<and> peekTag body = kBerControls then
           rbind (readOp kBerControls (decodeControls (msg_controls m)) body) (\<lambda>cs body.
             (Some (m\<lparr>msg_controls := cs\<rparr>), body))
         else (Some m, body)))) (mkReader ?body)) = Some m" by (rule decodes_run)
  have "fst (readConstructed kBerSequence (mkReader (tlv kBerSequence ?body))) = Some (mkReader ?body)"
    by (rule parses_run) (rule constructed [OF body])
  then obtain top where "readConstructed kBerSequence (mkReader (tlv kBerSequence ?body)) = (Some (mkReader ?body), top)"
    by (metis prod.collapse)
  with inner show ?thesis by (simp only: decodeLdapMessage_def enc rbind_simps)
qed

lemma parses_okI: "v = v' \<Longrightarrow> parses (\<lambda>r. if rd_ok r then (Some v, r) else (None, r)) [] v'"
  by (erule subst) (rule parses_ok)

lemma smap_put_snoc:
  "smap_ok (m @ [(k, v)]) \<Longrightarrow> smap_put k v m = m @ [(k, v)]"
proof (induction m)
  case (Cons p m)
  obtain k' v' where p: "p = (k', v')" by (cases p)
  with Cons.prems have "smap_ok (m @ [(k, v)])" "k' < k" by (auto simp: smap_ok_Cons)
  with Cons.IH p show ?case by auto
qed simp

lemma smap_ok_append1: "smap_ok (a @ b) \<Longrightarrow> smap_ok a"
  by (simp add: smap_ok_def sorted_wrt_append)

lemma foldl_smap_put:
  "smap_ok (acc @ m) \<Longrightarrow> foldl (\<lambda>m p. smap_put (fst p) (snd p) m) acc m = acc @ m"
proof (induction m arbitrary: acc)
  case (Cons p m)
  then have "smap_ok ((acc @ [p]) @ m)" by simp
  with Cons.IH [of "acc @ [p]"] smap_put_snoc [of acc "fst p" "snd p"] smap_ok_append1 [of "acc @ [p]" m]
  show ?case by simp
qed simp

lemma toDirectoryEntry_toAddRequest:
  assumes "smap_ok (de_attributes e)"
  shows "toDirectoryEntry (toAddRequest e) = e"
  using foldl_smap_put [of "[]" "de_attributes e"] assms
  by (simp add: toDirectoryEntry_def toAddRequest_def foldl_map split_beta)

lemma password_fields_decode:
  assumes id: "fits (bytes_of i)" and old: "\<And>p. po = Some p \<Longrightarrow> fits (bytes_of p)"
    and new: "\<And>p. pn = Some p \<Longrightarrow> fits (bytes_of p)"
  shows "decodes (decodePasswordFields defaultPasswordModify)
     ((if i \<noteq> [] then tlv kBerSimpleAuth (bytes_of i) else []) @
      (case po of None \<Rightarrow> [] | Some p \<Rightarrow> tlv kBerContext1 (bytes_of p)) @
      (case pn of None \<Rightarrow> [] | Some p \<Rightarrow> tlv kBerContext2 (bytes_of p)))
     \<lparr>pm_user_identity = i, pm_old_password = po, pm_new_password = pn\<rparr>"
proof -
  have step: "decodes (decodePasswordFields q) (tlv tag (bytes_of s) @ bs) v"
    if "fits (bytes_of s)" "decodes (decodePasswordFields (upd s)) bs v"
      "\<And>r. \<not> atEnd r \<Longrightarrow> peekTag r = tag \<Longrightarrow> decodePasswordFields q r =
         rbind (readOctetStringTag tag r) (\<lambda>s r. decodePasswordFields (upd s) r)" for q tag s bs v upd
  proof (rule decodesI)
    fix r assume r: "rd_wf r" "rest r = tlv tag (bytes_of s) @ bs"
    from octetsTag [OF that(1)] r obtain r1 where "readOctetStringTag tag r = (Some s, r1)"
      "rd_wf r1" "rest r1 = bs" by (rule parsesE)
    with rest_tlv [OF r] that(2,3) show "\<exists>r'. decodePasswordFields q r = (Some v, r') \<and> rd_wf r' \<and> rest r' = []"
      by (auto elim: decodesE)
  qed
  have stop: "decodes (decodePasswordFields q) [] q" for q
    using rest_empty by (auto intro!: decodesI simp: decodePasswordFields.simps rd_wf_def)
  let ?n = "case pn of None \<Rightarrow> [] | Some p \<Rightarrow> tlv kBerContext2 (bytes_of p)"
  have n: "decodes (decodePasswordFields q) ?n (q\<lparr>pm_new_password := pn\<rparr>)" if "pm_new_password q = None" for q
  proof (cases pn)
    case None
    with that stop [of q] show ?thesis by (cases q) simp
  next
    case (Some p)
    have "decodes (decodePasswordFields q) (tlv kBerContext2 (bytes_of p) @ []) (q\<lparr>pm_new_password := Some p\<rparr>)"
      by (rule step [OF new [OF Some] stop]) (simp add: decodePasswordFields.simps [of q])
    with Some show ?thesis by simp
  qed
  let ?o = "case po of None \<Rightarrow> [] | Some p \<Rightarrow> tlv kBerContext1 (bytes_of p)"
  have o: "decodes (decodePasswordFields q) (?o @ ?n) (q\<lparr>pm_old_password := po, pm_new_password := pn\<rparr>)"
    if "pm_new_password q = None" "pm_old_password q = None" for q
  proof (cases po)
    case None
    with that n [of q] show ?thesis by (cases q) simp
  next
    case (Some p)
    have "decodes (decodePasswordFields q) (tlv kBerContext1 (bytes_of p) @ ?n)
        (q\<lparr>pm_old_password := Some p, pm_new_password := pn\<rparr>)"
      by (rule step [OF old [OF Some] n]) (use that in \<open>simp_all add: decodePasswordFields.simps [of q]\<close>)
    with Some show ?thesis by simp
  qed
  show ?thesis
  proof (cases "i = []")
    case True
    with o [of defaultPasswordModify] show ?thesis by (simp add: defaultPasswordModify_def)
  next
    case False
    have "decodes (decodePasswordFields defaultPasswordModify) (tlv kBerSimpleAuth (bytes_of i) @ ?o @ ?n)
        (defaultPasswordModify\<lparr>pm_user_identity := i, pm_old_password := po, pm_new_password := pn\<rparr>)"
      by (rule step [OF id o])
         (simp_all add: decodePasswordFields.simps [of defaultPasswordModify], simp_all add: defaultPasswordModify_def)
    with False show ?thesis by (simp add: defaultPasswordModify_def)
  qed
qed

section \<open>Properties\<close>

text \<open>C20: Encoding a message and decoding the bytes gives the message back, for every request and
  response the protocol has, with any number of controls, whenever the members that do not
  belong to the operation have their defaults and the encoding is below four gigabytes.\<close>

theorem message_roundtrip:
  assumes "message_normal m" and "length (encodeLdapMessage m) < 2 ^ 32"
  shows "decodeLdapMessage (encodeLdapMessage m) = Some m"
  by (rule decode_encode_message) (use assms in \<open>simp_all add: fits_def\<close>)

theorem message_roundtrip_witness:
  "decodeLdapMessage (encodeLdapMessage (makeBindRequest 7 ''cn=a'' ''secret'')) =
     Some (makeBindRequest 7 ''cn=a'' ''secret'')"
proof (rule message_roundtrip)
  show "message_normal (makeBindRequest 7 ''cn=a'' ''secret'')"
    by (simp add: message_normal_def makeBindRequest_def bind_normal_def defaultBind_def defaultMessage_def)
  have "length (encodeLdapMessage (makeBindRequest 7 ''cn=a'' ''secret'')) = 24" by code_simp
  then show "length (encodeLdapMessage (makeBindRequest 7 ''cn=a'' ''secret'')) < 2 ^ 32" by simp
qed

text \<open>The value of the paged-results control is read back, for every page size (a signed
  32-bit number) and every cookie below four gigabytes.\<close>

lemma paged_results_roundtrip:
  assumes "length (encodePagedResultsValue sz cookie) < 2 ^ 32"
  shows "decodePagedResultsValue (encodePagedResultsValue sz cookie) = Some (sz, cookie)"
proof -
  let ?c = "tlv kBerInteger (encodeInteger (scast sz)) @ tlv kBerOctetString (bytes_of cookie)"
  have enc: "encodePagedResultsValue sz cookie = string_of (tlv kBerSequence ?c)"
    by (simp add: encodePagedResultsValue_def write_simps)
  from assms have "fits (tlv kBerSequence ?c)" by (simp add: enc fits_def)
  then have fits: "fits ?c" "fits (bytes_of cookie)" by (blast dest: fitsD)+
  have inner: "decodes (\<lambda>inner. rbind (readInteger inner) (\<lambda>parsed inner.
         rbind (readOctetString inner) (\<lambda>cookie inner. (Some (parsed, cookie), inner)))) ?c (scast sz, cookie)"
    by (intro decodes_bind [OF parses_readInteger] decodes_bind_nil [OF octets [OF fits(2)]] decodes_return)
  have "fst (rbind (readConstructed kBerSequence (mkReader (tlv kBerSequence ?c))) (\<lambda>inner r.
       rbind (within (rbind (readInteger inner) (\<lambda>parsed inner.
         rbind (readOctetString inner) (\<lambda>cookie inner. (Some (parsed, cookie), inner)))) r)
         (\<lambda>(parsed, cookie) r. if rd_ok r then (Some (ucast parsed, cookie), r) else (None, r)))) = Some (sz, cookie)"
    by (rule parses_run, rule parses_bind0 [OF constructed [OF fits(1)]])
       (simp add: within_decodes [OF inner] parses_okI)
  then show ?thesis by (simp add: decodePagedResultsValue_def enc)
qed

text \<open>The value of a password modify request is read back: the user identity and the
  presence and contents of the two passwords.\<close>

lemma password_modify_roundtrip:
  assumes "length (encodePasswordModifyValue q) < 2 ^ 32"
  shows "decodePasswordModifyValue (encodePasswordModifyValue q) = Some q"
proof -
  let ?i = "if pm_user_identity q \<noteq> [] then tlv kBerSimpleAuth (bytes_of (pm_user_identity q)) else []"
  let ?o = "case pm_old_password q of None \<Rightarrow> [] | Some p \<Rightarrow> tlv kBerContext1 (bytes_of p)"
  let ?n = "case pm_new_password q of None \<Rightarrow> [] | Some p \<Rightarrow> tlv kBerContext2 (bytes_of p)"
  have enc: "encodePasswordModifyValue q = string_of (tlv kBerSequence (?i @ ?o @ ?n))"
    by (simp add: encodePasswordModifyValue_def write_simps Let_def split: option.split)
  from assms have "fits (tlv kBerSequence (?i @ ?o @ ?n))" by (simp add: enc fits_def)
  then have fits: "fits (?i @ ?o @ ?n)" by (rule fits_tlv)
  then have parts: "fits ?i" "fits ?o" "fits ?n" by (blast dest: fits_append)+
  have "decodes (decodePasswordFields defaultPasswordModify) (?i @ ?o @ ?n) q"
  proof -
    have "fits (bytes_of (pm_user_identity q))"
      using parts(1) by (cases "pm_user_identity q = []") (auto dest: fits_tlv)
    moreover have "fits (bytes_of p)" if "pm_old_password q = Some p" for p
      using parts(2) that by (auto dest: fits_tlv)
    moreover have "fits (bytes_of p)" if "pm_new_password q = Some p" for p
      using parts(3) that by (auto dest: fits_tlv)
    ultimately have "decodes (decodePasswordFields defaultPasswordModify) (?i @ ?o @ ?n)
        \<lparr>pm_user_identity = pm_user_identity q, pm_old_password = pm_old_password q,
          pm_new_password = pm_new_password q\<rparr>" by (rule password_fields_decode)
    moreover have "\<lparr>pm_user_identity = pm_user_identity q, pm_old_password = pm_old_password q,
          pm_new_password = pm_new_password q\<rparr> = q" by simp
    ultimately show ?thesis by (simp only:)
  qed
  from parses_run [OF parses_readOp [OF fits this, of kBerSequence]] show ?thesis
    by (simp add: decodePasswordModifyValue_def enc)
qed

end
