(* ===== verification/Sasl.thy ===== *)
theory Sasl
  imports Gssapi Bind Message
begin

text \<open>
  SASL binds, \<^verbatim>\<open>src/simple-ldapd/auth/sasl.cpp\<close>: the mechanism names, the PLAIN credentials, the
  DIGEST-MD5 exchange of both sides, EXTERNAL and GSSAPI tickets.  The class keeps the list of
  enabled mechanisms; the nonce of a digest exchange belongs to the session and is passed in and
  returned.  A build without OpenSSL is not modelled here: the functions are those of the
  \<^verbatim>\<open>SIMPLE_LDAPD_SSL\<close> branches, with OpenSSL as the parameter \<open>cr\<close>.  The clock and the reading of
  the keytab file are arguments.
\<close>

section \<open>Mechanisms\<close>

datatype SaslMechanism = AnonymousMech | PlainMech | DigestMd5 | GssapiMech | External

definition mechanismName :: "SaslMechanism \<Rightarrow> string" where
  "mechanismName m =
     (case m of
        AnonymousMech \<Rightarrow> ''ANONYMOUS''
      | PlainMech \<Rightarrow> ''PLAIN''
      | DigestMd5 \<Rightarrow> ''DIGEST-MD5''
      | GssapiMech \<Rightarrow> ''GSSAPI''
      | External \<Rightarrow> ''EXTERNAL'')"

definition parseSaslMechanism :: "string \<Rightarrow> SaslMechanism option" where
  "parseSaslMechanism name =
     (if iequals name ''PLAIN'' then Some PlainMech
      else if iequals name ''DIGEST-MD5'' then Some DigestMd5
      else if iequals name ''EXTERNAL'' then Some External
      else if iequals name ''GSSAPI'' then Some GssapiMech
      else if iequals name ''ANONYMOUS'' then Some AnonymousMech
      else None)"

type_synonym SaslAuthenticator = "SaslMechanism list"

definition enable :: "SaslMechanism \<Rightarrow> SaslAuthenticator \<Rightarrow> SaslAuthenticator" where
  "enable m enabled = (if m \<in> set enabled then enabled else enabled @ [m])"

definition supports :: "SaslAuthenticator \<Rightarrow> SaslMechanism \<Rightarrow> bool" where
  "supports enabled m \<longleftrightarrow> m \<in> set enabled"

definition advertised :: "SaslAuthenticator \<Rightarrow> string list" where
  "advertised enabled = map mechanismName enabled"

text \<open>\<^verbatim>\<open>SaslAuthenticator::step\<close>: the output is cleared and nothing is done.\<close>

definition saslStep :: "SaslAuthenticator \<Rightarrow> SaslMechanism \<Rightarrow> string \<Rightarrow> ResultCode \<times> string" where
  "saslStep enabled m input =
     (if supports enabled m then UnwillingToPerform else AuthMethodNotSupported, [])"

section \<open>Credentials\<close>

text \<open>A failed digest leaves the length at zero.\<close>

definition md5Raw :: "Crypto \<Rightarrow> string \<Rightarrow> string" where
  "md5Raw cr dat = (case cr_md5 cr (bytes_of dat) of None \<Rightarrow> [] | Some d \<Rightarrow> string_of d)"

definition md5Hex :: "Crypto \<Rightarrow> string \<Rightarrow> string" where
  "md5Hex cr dat = toHex (bytes_of (md5Raw cr dat))"

definition randomNonce :: "Crypto \<Rightarrow> rng \<Rightarrow> string \<times> rng" where
  "randomNonce cr r = (case cr_rand cr r 16 of None \<Rightarrow> [] | Some bs \<Rightarrow> toHex bs, Suc r)"

definition realmFromBase :: "string \<Rightarrow> string" where
  "realmFromBase base_dn = (let realm = realmLoop base_dn [] in if realm = [] then ''simple-ldapd'' else realm)"

text \<open>The three parts of PLAIN credentials: authorisation identity, login name, password.\<close>

definition parsePlain :: "string \<Rightarrow> (string \<times> string \<times> string) option" where
  "parsePlain credentials =
     (case find_char (CHR 0x00) credentials of
        None \<Rightarrow> None
      | Some first \<Rightarrow>
          (case find_from (CHR 0x00) credentials (first + 1) of
             None \<Rightarrow> None
           | Some second \<Rightarrow>
               let authzid = take first credentials;
                   authcid = take (second - first - 1) (drop (first + 1) credentials);
                   password = drop (second + 1) credentials
               in if authcid = [] then None else Some (authzid, authcid, password)))"

definition saslPlainCredentials :: "string \<Rightarrow> string \<Rightarrow> string \<Rightarrow> string" where
  "saslPlainCredentials authzid authcid password = authzid @ [CHR 0x00] @ authcid @ [CHR 0x00] @ password"

definition parseDigestPairs :: "string \<Rightarrow> string smap" where
  "parseDigestPairs t = pairsLoop toLowerAscii t 0 []"

text \<open>The hash computed by both sides, from the session key on.\<close>

definition digestHa1 :: "Crypto \<Rightarrow> string \<Rightarrow> string \<Rightarrow> string \<Rightarrow> string \<Rightarrow> string \<Rightarrow> string" where
  "digestHa1 cr username realm password nonce cnonce =
     md5Hex cr (md5Raw cr (username @ '':'' @ realm @ '':'' @ password) @ '':'' @ nonce @ '':'' @ cnonce)"

definition digestResponse ::
  "Crypto \<Rightarrow> string \<Rightarrow> string \<Rightarrow> string \<Rightarrow> string \<Rightarrow> string \<Rightarrow> string \<Rightarrow> string" where
  "digestResponse cr ha1 nonce nc cnonce qop ha2 =
     md5Hex cr (ha1 @ '':'' @ nonce @ '':'' @ nc @ '':'' @ cnonce @ '':'' @ qop @ '':'' @ ha2)"

text \<open>The client's answer to a challenge, or the error text.\<close>

definition saslDigestClientResponse ::
  "Crypto \<Rightarrow> string \<Rightarrow> string \<Rightarrow> string \<Rightarrow> string \<Rightarrow> rng \<Rightarrow> (string + string) \<times> rng" where
  "saslDigestClientResponse cr challenge username password digest_uri r =
     (let pairs = parseDigestPairs challenge;
          realm = unquote (pairOr pairs ''realm'' []);
          nonce = unquote (pairOr pairs ''nonce'' []);
          qop = unquote (pairOr pairs ''qop'' ''auth'')
      in if nonce = [] \<or> username = [] then (Inl ''invalid DIGEST-MD5 challenge'', r)
         else case randomNonce cr r of (cnonce, r) \<Rightarrow>
           let nc = ''00000001'';
               uri = (if digest_uri = [] then ''ldap/'' else digest_uri);
               ha1 = digestHa1 cr username realm password nonce cnonce;
               ha2 = md5Hex cr (''AUTHENTICATE:'' @ uri);
               response = digestResponse cr ha1 nonce nc cnonce qop ha2
           in (Inr (''username='' @ quoteMark @ username @ quoteMark @ '',realm='' @ quoteMark @ realm @ quoteMark @
                  '',nonce='' @ quoteMark @ nonce @ quoteMark @ '',cnonce='' @ quoteMark @ cnonce @ quoteMark @
                  '',nc='' @ nc @ '',qop='' @ qop @ '',digest-uri='' @ quoteMark @ uri @ quoteMark @
                  '',response='' @ response @ '',charset=utf-8''), r))"

section \<open>The bind\<close>

record SaslBindResult =
  sb_result :: ResultCode
  sb_bind_dn :: string
  sb_server_creds :: string
  sb_diagnostic :: string

definition saslFail :: "ResultCode \<Rightarrow> string \<Rightarrow> SaslBindResult" where
  "saslFail code diagnostic =
     \<lparr>sb_result = code, sb_bind_dn = [], sb_server_creds = [], sb_diagnostic = diagnostic\<rparr>"

definition saslOk :: "string \<Rightarrow> string \<Rightarrow> SaslBindResult" where
  "saslOk dn creds = \<lparr>sb_result = Success, sb_bind_dn = dn, sb_server_creds = creds, sb_diagnostic = []\<rparr>"

definition saslContinue :: "string \<Rightarrow> SaslBindResult" where
  "saslContinue creds =
     \<lparr>sb_result = SaslBindInProgress, sb_bind_dn = [], sb_server_creds = creds, sb_diagnostic = []\<rparr>"

text \<open>What the connection knows of the TLS peer.\<close>

record TlsPeer =
  tp_tls :: bool
  tp_verified :: bool
  tp_identity :: string

definition bindPlain ::
  "Crypto \<Rightarrow> LdapConfig \<Rightarrow> 's Backend \<Rightarrow> 's \<Rightarrow> BindRequestData \<Rightarrow> bool \<Rightarrow> SaslBindResult" where
  "bindPlain cr c B s request tls =
     (if cf_require_confidentiality c \<and> \<not> tls then
        saslFail ConfidentialityRequired ''confidentiality required''
      else case parsePlain (bd_sasl_credentials request) of
        None \<Rightarrow> saslFail InvalidCredentials ''invalid PLAIN credentials''
      | Some (authzid, authcid, password) \<Rightarrow>
          (case resolveName c B s authcid of
             None \<Rightarrow> saslFail InvalidCredentials ''invalid credentials''
           | Some dn \<Rightarrow>
               if authzid \<noteq> [] \<and> \<not> iequals authzid authcid \<and> \<not> dnEquals authzid dn then
                 saslFail InsufficientAccessRights ''proxy authorization is not allowed''
               else if authBind cr c B s dn password \<noteq> Success then
                 saslFail InvalidCredentials ''invalid credentials''
               else saslOk dn []))"

definition digestChallenge :: "string \<Rightarrow> string \<Rightarrow> string" where
  "digestChallenge realm nonce =
     ''realm='' @ quoteMark @ realm @ quoteMark @ '',nonce='' @ quoteMark @ nonce @ quoteMark @
     '',qop='' @ quoteMark @ ''auth'' @ quoteMark @ '',algorithm=md5-sess,charset=utf-8''"

text \<open>The second round, with the client's response: the result and the nonce the session keeps.\<close>

definition digestFinish ::
  "Crypto \<Rightarrow> LdapConfig \<Rightarrow> 's Backend \<Rightarrow> 's \<Rightarrow> string \<Rightarrow> string \<Rightarrow> SaslBindResult \<times> string" where
  "digestFinish cr c B s credentials digest_nonce =
     (let pairs = parseDigestPairs credentials;
          username = unquote (pairOr pairs ''username'' []);
          realm = unquote (pairOr pairs ''realm'' []);
          nonce = unquote (pairOr pairs ''nonce'' []);
          cnonce = unquote (pairOr pairs ''cnonce'' []);
          nc = pairOr pairs ''nc'' [];
          qop = unquote (pairOr pairs ''qop'' ''auth'');
          uri = unquote (pairOr pairs ''digest-uri'' []);
          response = unquote (pairOr pairs ''response'' [])
      in if username = [] \<or> nonce \<noteq> digest_nonce \<or> cnonce = [] \<or> response = [] then
           (saslFail InvalidCredentials ''invalid DIGEST-MD5 response'', [])
         else case resolveName c B s username of
           None \<Rightarrow> (saslFail InvalidCredentials ''invalid credentials'', [])
         | Some dn \<Rightarrow>
             if isAccountDisabled c B s dn then (saslFail InvalidCredentials ''invalid credentials'', [])
             else case passwordFor c B s dn of
               None \<Rightarrow> (saslFail InvalidCredentials ''invalid credentials'', [])
             | Some password \<Rightarrow>
                 let ha1 = digestHa1 cr username realm password nonce cnonce;
                     ha2 = md5Hex cr (''AUTHENTICATE:'' @ uri);
                     expected = digestResponse cr ha1 nonce nc cnonce qop ha2
                 in if \<not> iequals expected response then
                      (saslFail InvalidCredentials ''invalid credentials'', [])
                    else (saslOk dn (''rspauth='' @
                            digestResponse cr ha1 nonce nc cnonce qop (md5Hex cr ('':'' @ uri))), []))"

text \<open>The result, the nonce the session keeps and the random generator.\<close>

definition bindDigest ::
  "Crypto \<Rightarrow> LdapConfig \<Rightarrow> 's Backend \<Rightarrow> 's \<Rightarrow> BindRequestData \<Rightarrow> string \<Rightarrow> rng \<Rightarrow>
     SaslBindResult \<times> string \<times> rng" where
  "bindDigest cr c B s request digest_nonce r =
     (if digest_nonce = [] \<or> bd_sasl_credentials request = [] then
        (case randomNonce cr r of (nonce, r) \<Rightarrow>
           if nonce = [] then (saslFail OperationsError ''DIGEST-MD5 nonce failed'', nonce, r)
           else (saslContinue (digestChallenge (realmFromBase (cf_base_dn c)) nonce), nonce, r))
      else case digestFinish cr c B s (bd_sasl_credentials request) digest_nonce of
        (res, nonce) \<Rightarrow> (res, nonce, r))"

definition bindExternal ::
  "LdapConfig \<Rightarrow> 's Backend \<Rightarrow> 's \<Rightarrow> BindRequestData \<Rightarrow> TlsPeer \<Rightarrow> SaslBindResult" where
  "bindExternal c B s request peer =
     (if \<not> tp_tls peer then saslFail ConfidentialityRequired ''EXTERNAL requires TLS''
      else if \<not> tp_verified peer \<or> tp_identity peer = [] then
        saslFail InvalidCredentials ''EXTERNAL requires a verified client certificate''
      else case resolveName c B s (tp_identity peer) of
        None \<Rightarrow> saslFail InvalidCredentials ''EXTERNAL identity is unknown''
      | Some cert_dn \<Rightarrow>
          let requested = (if bd_sasl_credentials request \<noteq> [] then bd_sasl_credentials request
                           else bd_dn request)
          in if requested \<noteq> [] \<and>
                (case resolveName c B s requested of
                   None \<Rightarrow> True
                 | Some requested_dn \<Rightarrow> \<not> dnEquals requested_dn cert_dn)
             then saslFail InvalidCredentials ''EXTERNAL identity does not match certificate''
             else if isAccountDisabled c B s cert_dn then
               saslFail InvalidCredentials ''invalid credentials''
             else saslOk cert_dn [])"

text \<open>What the keytab file leaves open comes from the configuration.\<close>

definition completeKeytab :: "LdapConfig \<Rightarrow> GssapiKeytab \<Rightarrow> GssapiKeytab" where
  "completeKeytab c keytab =
     (let keytab = (if kt_realm keytab = []
                    then keytab\<lparr>kt_realm := if cf_krb_realm c \<noteq> [] then cf_krb_realm c
                                           else kerberosRealmFromBase (cf_base_dn c)\<rparr>
                    else keytab)
      in if kt_service keytab = []
         then keytab\<lparr>kt_service := if cf_gssapi_service c \<noteq> [] then cf_gssapi_service c else ''ldap/localhost''\<rparr>
         else keytab)"

text \<open>The keytab is read through \<open>read_file\<close>, the time of day is \<open>now\<close>.\<close>

definition bindGssapi ::
  "Crypto \<Rightarrow> (string \<Rightarrow> string option) \<Rightarrow> LdapConfig \<Rightarrow> 's Backend \<Rightarrow> 's \<Rightarrow> BindRequestData \<Rightarrow> int \<Rightarrow>
     SaslBindResult" where
  "bindGssapi cr read_file c B s request now =
     (if cf_gssapi_keytab c = [] then
        saslFail AuthMethodNotSupported ''GSSAPI requires gssapi_keytab (see v0.7.0)''
      else case loadGssapiKeytab (read_file (cf_gssapi_keytab c)) of
        Inl ticket_error \<Rightarrow> saslFail OperationsError ticket_error
      | Inr keytab \<Rightarrow>
          let keytab = completeKeytab c keytab
          in if bd_sasl_credentials request = [] then
               saslContinue (''realm='' @ quoteMark @ kt_realm keytab @ quoteMark @ '',service='' @ quoteMark @
                 kt_service keytab @ quoteMark)
             else case verifyGssapiTicket cr keytab (bd_sasl_credentials request) now of
               Inl _ \<Rightarrow> saslFail InvalidCredentials ''invalid credentials''
             | Inr princ \<Rightarrow>
                 (case resolveName c B s princ of
                    None \<Rightarrow> saslFail InvalidCredentials ''invalid credentials''
                  | Some dn \<Rightarrow>
                      if isAccountDisabled c B s dn then saslFail InvalidCredentials ''invalid credentials''
                      else saslOk dn []))"

definition saslBind ::
  "Crypto \<Rightarrow> (string \<Rightarrow> string option) \<Rightarrow> SaslAuthenticator \<Rightarrow> LdapConfig \<Rightarrow> 's Backend \<Rightarrow> 's \<Rightarrow>
     BindRequestData \<Rightarrow> TlsPeer \<Rightarrow> string \<Rightarrow> int \<Rightarrow> rng \<Rightarrow> SaslBindResult \<times> string \<times> rng" where
  "saslBind cr read_file enabled c B s request peer digest_nonce now r =
     (case parseSaslMechanism (bd_sasl_mechanism request) of
        None \<Rightarrow> (saslFail AuthMethodNotSupported ''unsupported SASL mechanism'', digest_nonce, r)
      | Some mechanism \<Rightarrow>
          if \<not> supports enabled mechanism then
            (saslFail AuthMethodNotSupported ''unsupported SASL mechanism'', digest_nonce, r)
          else case mechanism of
            PlainMech \<Rightarrow> (bindPlain cr c B s request (tp_tls peer), digest_nonce, r)
          | DigestMd5 \<Rightarrow> bindDigest cr c B s request digest_nonce r
          | External \<Rightarrow> (bindExternal c B s request peer, digest_nonce, r)
          | GssapiMech \<Rightarrow> (bindGssapi cr read_file c B s request now, digest_nonce, r)
          | AnonymousMech \<Rightarrow>
              (saslFail AuthMethodNotSupported ''unsupported SASL mechanism'', digest_nonce, r))"


section \<open>PLAIN\<close>

lemma parsePlain_credentials:
  assumes "CHR 0x00 \<notin> set authzid" "CHR 0x00 \<notin> set authcid" "authcid \<noteq> []"
  shows "parsePlain (saslPlainCredentials authzid authcid password) = Some (authzid, authcid, password)"
proof -
  let ?t = "authzid @ CHR 0x00 # authcid @ CHR 0x00 # password"
  have first: "find_char (CHR 0x00) ?t = Some (length authzid)"
    using find_char_append [OF assms(1)] by simp
  have second: "find_from (CHR 0x00) ?t (length authzid + 1) = Some (length authzid + 1 + length authcid)"
    using find_from_append [OF assms(2), of "authzid @ [CHR 0x00]" password] by simp
  show ?thesis
    using assms(3) by (simp add: parsePlain_def saslPlainCredentials_def first second [simplified])
qed

section \<open>DIGEST-MD5\<close>

text \<open>A response uses up the nonce, whether it is accepted or not.\<close>

lemma digestFinish_nonce: "snd (digestFinish cr c B s credentials digest_nonce) = []"
  unfolding digestFinish_def Let_def by (simp split: option.split)

lemma sasl_result_simps [simp]:
  "sb_result (saslFail code d) = code" "sb_bind_dn (saslFail code d) = []"
  "sb_result (saslOk dn creds) = Success" "sb_bind_dn (saslOk dn creds) = dn"
  "sb_result (saslContinue creds) = SaslBindInProgress" "sb_bind_dn (saslContinue creds) = []"
  by (simp_all add: saslFail_def saslOk_def saslContinue_def)

text \<open>What an accepted response proves.\<close>

lemma digestFinish_success:
  assumes "sb_result (fst (digestFinish cr c B s credentials digest_nonce)) = Success"
    and ps: "ps = parseDigestPairs credentials"
  shows "unquote (pairOr ps ''nonce'' []) = digest_nonce"
    and "\<exists>dn password. resolveName c B s (unquote (pairOr ps ''username'' [])) = Some dn \<and>
       sb_bind_dn (fst (digestFinish cr c B s credentials digest_nonce)) = dn \<and>
       \<not> isAccountDisabled c B s dn \<and> passwordFor c B s dn = Some password \<and>
       iequals (digestResponse cr (digestHa1 cr (unquote (pairOr ps ''username'' [])) (unquote (pairOr ps ''realm'' []))
           password digest_nonce (unquote (pairOr ps ''cnonce'' []))) digest_nonce (pairOr ps ''nc'' [])
           (unquote (pairOr ps ''cnonce'' [])) (unquote (pairOr ps ''qop'' ''auth''))
           (md5Hex cr (''AUTHENTICATE:'' @ unquote (pairOr ps ''digest-uri'' []))))
         (unquote (pairOr ps ''response'' []))"
proof -
  define guard where "guard \<longleftrightarrow> unquote (pairOr ps ''username'' []) = [] \<or> unquote (pairOr ps ''nonce'' []) \<noteq> digest_nonce \<or>
    unquote (pairOr ps ''cnonce'' []) = [] \<or> unquote (pairOr ps ''response'' []) = []"
  note run = assms(1) [unfolded digestFinish_def Let_def ps [symmetric], folded guard_def]
  from run have g: "\<not> guard" by (cases guard) simp_all
  then show nonce: "unquote (pairOr ps ''nonce'' []) = digest_nonce" by (simp add: guard_def)
  from run g obtain dn where dn: "resolveName c B s (unquote (pairOr ps ''username'' [])) = Some dn"
    by (cases "resolveName c B s (unquote (pairOr ps ''username'' []))") simp_all
  from run g dn have en: "\<not> isAccountDisabled c B s dn" by (cases "isAccountDisabled c B s dn") simp_all
  from run g dn en obtain password where pw: "passwordFor c B s dn = Some password"
    by (cases "passwordFor c B s dn") simp_all
  let ?exp = "\<lambda>password. digestResponse cr (digestHa1 cr (unquote (pairOr ps ''username'' [])) (unquote (pairOr ps ''realm'' []))
           password digest_nonce (unquote (pairOr ps ''cnonce'' []))) digest_nonce (pairOr ps ''nc'' [])
           (unquote (pairOr ps ''cnonce'' [])) (unquote (pairOr ps ''qop'' ''auth''))
           (md5Hex cr (''AUTHENTICATE:'' @ unquote (pairOr ps ''digest-uri'' [])))"
  have ok: "iequals (?exp password) (unquote (pairOr ps ''response'' []))"
    using run g dn en pw
    by (cases "iequals (?exp password) (unquote (pairOr ps ''response'' []))") (simp_all add: nonce)
  have "sb_bind_dn (fst (digestFinish cr c B s credentials digest_nonce)) = dn"
    unfolding digestFinish_def Let_def ps [symmetric] guard_def [symmetric] using g dn en pw ok
    by (simp add: nonce)
  with dn en pw ok show "\<exists>dn password. resolveName c B s (unquote (pairOr ps ''username'' [])) = Some dn \<and>
       sb_bind_dn (fst (digestFinish cr c B s credentials digest_nonce)) = dn \<and>
       \<not> isAccountDisabled c B s dn \<and> passwordFor c B s dn = Some password \<and>
       iequals (?exp password) (unquote (pairOr ps ''response'' []))" by blast
qed

lemma digest_keys:
  "toLowerAscii ''realm'' = ''realm''" "toLowerAscii ''nonce'' = ''nonce''" "toLowerAscii ''qop'' = ''qop''"
  "toLowerAscii ''algorithm'' = ''algorithm''" "toLowerAscii ''charset'' = ''charset''"
  "toLowerAscii ''username'' = ''username''" "toLowerAscii ''cnonce'' = ''cnonce''" "toLowerAscii ''nc'' = ''nc''"
  "toLowerAscii ''digest-uri'' = ''digest-uri''" "toLowerAscii ''response'' = ''response''"
  by code_simp+

lemma parse_challenge:
  assumes "quotable realm" "quotable nonce" and ps: "ps = parseDigestPairs (digestChallenge realm nonce)"
  shows "map_of ps ''realm'' = Some realm" "map_of ps ''nonce'' = Some nonce" "map_of ps ''qop'' = Some ''auth''"
proof -
  let ?w = "Quoted ''realm'' realm"
  let ?ws = "[Quoted ''nonce'' nonce, Quoted ''qop'' ''auth'', Plain ''algorithm'' ''md5-sess'', Plain ''charset'' ''utf-8'']"
  have "list_all written_ok (?w # ?ws)"
    using assms by (simp add: quotable_def isPairGap_def isspace_def)
  from pairsLoop_text [OF this, of toLowerAscii]
  have "ps = fold (writtenPut toLowerAscii) (?w # ?ws) []"
    by (simp add: ps parseDigestPairs_def digestChallenge_def)
  then have "ps = smap_put ''charset'' ''utf-8'' (smap_put ''algorithm'' ''md5-sess'' (smap_put ''qop'' ''auth''
     (smap_put ''nonce'' nonce (smap_put ''realm'' realm []))))"
    by (simp only: fold_simps writtenPut.simps digest_keys comp_apply id_apply)
  then show "map_of ps ''realm'' = Some realm" "map_of ps ''nonce'' = Some nonce" "map_of ps ''qop'' = Some ''auth''"
    by (simp_all only: map_of_smap_put) simp_all
qed

lemma toHex_quotable: "bs \<noteq> [] \<Longrightarrow> quotable (toHex bs)"
  using set_toHex [of bs] by (auto simp: quotable_def kDigits_def dest: subsetD)

lemma parse_response:
  assumes "quotable username" "quotable realm" "quotable nonce" "quotable cnonce" "quotable uri" "response = toHex bs"
    and ps: "ps = parseDigestPairs (''username='' @ quoteMark @ username @ quoteMark @ '',realm='' @ quoteMark @ realm @ quoteMark @
                  '',nonce='' @ quoteMark @ nonce @ quoteMark @ '',cnonce='' @ quoteMark @ cnonce @ quoteMark @
                  '',nc='' @ ''00000001'' @ '',qop='' @ ''auth'' @ '',digest-uri='' @ quoteMark @ uri @ quoteMark @
                  '',response='' @ response @ '',charset=utf-8'')"
  shows "map_of ps ''username'' = Some username" "map_of ps ''realm'' = Some realm"
    "map_of ps ''nonce'' = Some nonce" "map_of ps ''cnonce'' = Some cnonce" "map_of ps ''nc'' = Some ''00000001''"
    "map_of ps ''qop'' = Some ''auth''" "map_of ps ''digest-uri'' = Some uri" "map_of ps ''response'' = Some response"
proof -
  let ?w = "Quoted ''username'' username"
  let ?ws = "[Quoted ''realm'' realm, Quoted ''nonce'' nonce, Quoted ''cnonce'' cnonce, Plain ''nc'' ''00000001'',
    Plain ''qop'' ''auth'', Quoted ''digest-uri'' uri, Plain ''response'' response, Plain ''charset'' ''utf-8'']"
  have "CHR '','' \<notin> set response" "CHR 0x22 \<notin> set response"
    unfolding assms(6) using set_toHex [of bs] kDigits_chars by blast+
  then have "list_all written_ok (?w # ?ws)"
    using assms(1-5) by (cases response) (auto simp: quotable_def isPairGap_def isspace_def)
  from pairsLoop_text [OF this, of toLowerAscii]
  have "ps = fold (writtenPut toLowerAscii) (?w # ?ws) []"
    by (simp add: ps parseDigestPairs_def)
  then have "ps = smap_put ''charset'' ''utf-8'' (smap_put ''response'' response (smap_put ''digest-uri'' uri
     (smap_put ''qop'' ''auth'' (smap_put ''nc'' ''00000001'' (smap_put ''cnonce'' cnonce (smap_put ''nonce'' nonce
     (smap_put ''realm'' realm (smap_put ''username'' username []))))))))"
    by (simp only: fold_simps writtenPut.simps digest_keys comp_apply id_apply)
  then show "map_of ps ''username'' = Some username" "map_of ps ''realm'' = Some realm"
    "map_of ps ''nonce'' = Some nonce" "map_of ps ''cnonce'' = Some cnonce" "map_of ps ''nc'' = Some ''00000001''"
    "map_of ps ''qop'' = Some ''auth''" "map_of ps ''digest-uri'' = Some uri" "map_of ps ''response'' = Some response"
    by (simp_all only: map_of_smap_put) simp_all
qed


definition md5_works :: "Crypto \<Rightarrow> bool" where
  "md5_works cr \<longleftrightarrow> (\<forall>d. \<exists>m. cr_md5 cr d = Some m \<and> m \<noteq> [])"

lemma md5Hex_hex: "md5_works cr \<Longrightarrow> \<exists>bs. md5Hex cr d = toHex bs \<and> bs \<noteq> []"
  unfolding md5_works_def md5Hex_def md5Raw_def by (metis bytes_of_string_of option.simps(5))

lemma quotable_unquote: "quotable v \<Longrightarrow> unquote v = v"
  by (simp add: quotable_def unquote_plain)

lemma randomNonce_quotable:
  assumes "cr_rand cr r 16 = Some bs" "bs \<noteq> []"
  shows "randomNonce cr r = (toHex bs, Suc r)" "quotable (toHex bs)"
  using assms by (simp_all add: randomNonce_def toHex_quotable)

lemma bindDigest_start:
  assumes "cr_rand cr r 16 = Some bs" "bs \<noteq> []"
  shows "bindDigest cr c B s request [] r =
    (saslContinue (digestChallenge (realmFromBase (cf_base_dn c)) (toHex bs)), toHex bs, Suc r)"
  using assms by (simp add: bindDigest_def randomNonce_quotable(1) [OF assms])

definition clientText :: "string \<Rightarrow> string \<Rightarrow> string \<Rightarrow> string \<Rightarrow> string \<Rightarrow> string \<Rightarrow> string" where
  "clientText username realm nonce cnonce uri response =
     ''username='' @ quoteMark @ username @ quoteMark @ '',realm='' @ quoteMark @ realm @ quoteMark @
     '',nonce='' @ quoteMark @ nonce @ quoteMark @ '',cnonce='' @ quoteMark @ cnonce @ quoteMark @
     '',nc='' @ ''00000001'' @ '',qop='' @ ''auth'' @ '',digest-uri='' @ quoteMark @ uri @ quoteMark @
     '',response='' @ response @ '',charset=utf-8''"

lemma client_response:
  assumes q: "quotable realm" "quotable nonce" "username \<noteq> []"
    and r: "cr_rand cr r 16 = Some bs" "bs \<noteq> []"
    and uri: "uri = (if digest_uri = [] then ''ldap/'' else digest_uri)"
  shows "saslDigestClientResponse cr (digestChallenge realm nonce) username password digest_uri r =
    (Inr (clientText username realm nonce (toHex bs) uri
       (digestResponse cr (digestHa1 cr username realm password nonce (toHex bs)) nonce ''00000001'' (toHex bs) ''auth''
          (md5Hex cr (''AUTHENTICATE:'' @ uri)))), Suc r)"
proof -
  note ps = parse_challenge [OF q(1,2) refl]
  have auth: "unquote ''auth'' = ''auth''" by (simp add: unquote_def)
  have "nonce \<noteq> []" using q(2) by (simp add: quotable_def)
  with q(3) show ?thesis
    unfolding saslDigestClientResponse_def Let_def pairOr_def ps option.case quotable_unquote [OF q(1)]
      quotable_unquote [OF q(2)] auth randomNonce_quotable(1) [OF r] uri [symmetric] clientText_def
    by simp
qed

lemma digestFinish_client:
  assumes q: "quotable username" "quotable realm" "quotable nonce" "quotable cnonce" "quotable uri"
    and "md5_works cr" and dn: "resolveName c B s username = Some dn" "\<not> isAccountDisabled c B s dn"
      "passwordFor c B s dn = Some password"
    and resp: "response = digestResponse cr (digestHa1 cr username realm password nonce cnonce) nonce ''00000001'' cnonce ''auth''
          (md5Hex cr (''AUTHENTICATE:'' @ uri))"
  shows "sb_result (fst (digestFinish cr c B s (clientText username realm nonce cnonce uri response) nonce)) = Success \<and>
    sb_bind_dn (fst (digestFinish cr c B s (clientText username realm nonce cnonce uri response) nonce)) = dn"
proof -
  obtain bs where bs: "response = toHex bs" "bs \<noteq> []"
    using md5Hex_hex [OF assms(6)] unfolding resp digestResponse_def by blast
  define ps where "ps = parseDigestPairs (clientText username realm nonce cnonce uri response)"
  note look = parse_response [OF q bs(1) ps_def [unfolded clientText_def]]
  have auth: "unquote ''auth'' = ''auth''" by (simp add: unquote_def)
  note un = quotable_unquote [OF q(1)] quotable_unquote [OF q(2)] quotable_unquote [OF q(3)] quotable_unquote [OF q(4)]
    quotable_unquote [OF q(5)] quotable_unquote [OF toHex_quotable [OF bs(2)], folded bs(1)] auth
  have ne: "username \<noteq> []" "cnonce \<noteq> []" "response \<noteq> []" using q bs by (auto simp: quotable_def)
  show ?thesis
    unfolding digestFinish_def Let_def ps_def [symmetric] pairOr_def look option.case un dn(1) dn(3) resp [symmetric]
    using ne dn(2) by simp
qed

section \<open>Success of each mechanism\<close>

lemma bindPlain_success:
  assumes "sb_result (bindPlain cr c B s request tls) = Success"
  shows "(tls \<or> cf_require_confidentiality c = False) \<and>
    (\<exists>authzid authcid password. parsePlain (bd_sasl_credentials request) = Some (authzid, authcid, password) \<and>
       resolveName c B s authcid = Some (sb_bind_dn (bindPlain cr c B s request tls)) \<and>
       authBind cr c B s (sb_bind_dn (bindPlain cr c B s request tls)) password = Success)"
  using assms unfolding bindPlain_def by (auto split: if_splits option.splits)

text \<open>A response that proves the password: the digest over this session's nonce and the other fields of the response.\<close>

definition digest_proves :: "Crypto \<Rightarrow> string \<Rightarrow> string \<Rightarrow> string \<Rightarrow> string \<Rightarrow> bool" where
  "digest_proves cr credentials nonce username password \<longleftrightarrow>
     (let ps = parseDigestPairs credentials; cnonce = unquote (pairOr ps ''cnonce'' []) in
      nonce \<noteq> [] \<and> unquote (pairOr ps ''nonce'' []) = nonce \<and> unquote (pairOr ps ''username'' []) = username \<and>
      iequals (digestResponse cr (digestHa1 cr username (unquote (pairOr ps ''realm'' [])) password nonce cnonce) nonce
          (pairOr ps ''nc'' []) cnonce (unquote (pairOr ps ''qop'' ''auth''))
          (md5Hex cr (''AUTHENTICATE:'' @ unquote (pairOr ps ''digest-uri'' []))))
        (unquote (pairOr ps ''response'' [])))"

text \<open>A ticket signed with the key of the keytab for a principal, valid now up to the clock skew.\<close>

definition ticket_proves :: "Crypto \<Rightarrow> GssapiKeytab \<Rightarrow> string \<Rightarrow> int \<Rightarrow> string \<Rightarrow> bool" where
  "ticket_proves cr kt credentials now princ \<longleftrightarrow>
     (\<exists>issued expiry. issued < expiry \<and> issued \<le> now + kClockSkewSeconds \<and> now \<le> expiry + kClockSkewSeconds \<and>
        macEqual (toLowerAscii (unquote (pairOr (parsePairs credentials) ''mac'' [])))
          (hmacSha256Hex cr (kt_key kt) (canonicalTicket (kt_realm kt) princ (kt_service kt) issued expiry)))"

lemma bindDigest_success:
  assumes "sb_result (fst (bindDigest cr c B s request nonce r)) = Success"
  shows "isAccountDisabled c B s (sb_bind_dn (fst (bindDigest cr c B s request nonce r))) = False \<and>
    (\<exists>username password. resolveName c B s username = Some (sb_bind_dn (fst (bindDigest cr c B s request nonce r))) \<and>
       passwordFor c B s (sb_bind_dn (fst (bindDigest cr c B s request nonce r))) = Some password \<and>
       digest_proves cr (bd_sasl_credentials request) nonce username password)"
proof -
  have ne: "\<not> (nonce = [] \<or> bd_sasl_credentials request = [])"
  proof
    assume start: "nonce = [] \<or> bd_sasl_credentials request = []"
    show False
      using assms start by (cases "randomNonce cr r") (auto simp: bindDigest_def split: if_splits)
  qed
  then have fin: "fst (bindDigest cr c B s request nonce r) = fst (digestFinish cr c B s (bd_sasl_credentials request) nonce)"
    by (cases "digestFinish cr c B s (bd_sasl_credentials request) nonce") (simp add: bindDigest_def)
  from digestFinish_success [OF assms [unfolded fin] refl] ne show ?thesis unfolding fin digest_proves_def Let_def by auto
qed

lemma verifyGssapiTicket_proves:
  assumes "verifyGssapiTicket cr kt credentials now = Inr p"
  shows "ticket_proves cr kt credentials now p"
proof -
  define mac where "mac = toLowerAscii (unquote (pairOr (parsePairs credentials) ''mac'' []))"
  from assms show ?thesis
    unfolding verifyGssapiTicket_def Let_def ticket_proves_def mac_def [symmetric]
    by (auto simp: not_less not_le split: if_splits option.splits intro!: exI)
qed

lemma bindExternal_success:
  assumes "sb_result (bindExternal c B s request peer) = Success"
  shows "tp_tls peer \<and> tp_verified peer \<and>
    resolveName c B s (tp_identity peer) = Some (sb_bind_dn (bindExternal c B s request peer)) \<and>
    isAccountDisabled c B s (sb_bind_dn (bindExternal c B s request peer)) = False"
  using assms unfolding bindExternal_def Let_def by (auto split: if_splits option.splits)

lemma bindGssapi_success:
  assumes "sb_result (bindGssapi cr read_file c B s request now) = Success"
  shows "isAccountDisabled c B s (sb_bind_dn (bindGssapi cr read_file c B s request now)) = False \<and>
    (\<exists>kt p. loadGssapiKeytab (read_file (cf_gssapi_keytab c)) = Inr kt \<and>
       ticket_proves cr (completeKeytab c kt) (bd_sasl_credentials request) now p \<and>
       resolveName c B s p = Some (sb_bind_dn (bindGssapi cr read_file c B s request now)))"
proof -
  obtain kt where kt: "loadGssapiKeytab (read_file (cf_gssapi_keytab c)) = Inr kt" "bd_sasl_credentials request \<noteq> []" "cf_gssapi_keytab c \<noteq> []"
    using assms by (auto simp: bindGssapi_def Let_def split: if_splits sum.splits)
  then obtain p where p: "verifyGssapiTicket cr (completeKeytab c kt) (bd_sasl_credentials request) now = Inr p"
    using assms by (cases "verifyGssapiTicket cr (completeKeytab c kt) (bd_sasl_credentials request) now") (simp_all add: bindGssapi_def)
  with kt assms verifyGssapiTicket_proves [OF p] show ?thesis
    by (auto simp: bindGssapi_def split: if_splits option.splits)
qed

text \<open>Both sides of a digest exchange.\<close>

lemma digest_exchange:
  assumes "quotable username" and "quotable (realmFromBase (cf_base_dn c))"
    and "quotable (if uri = [] then ''ldap/'' else uri)" and "md5_works cr"
    and "cr_rand cr r 16 = Some bs" and "bs \<noteq> []" and "cr_rand cr (Suc r) 16 = Some cs" and "cs \<noteq> []"
    and "resolveName c B s username = Some dn" and "\<not> isAccountDisabled c B s dn"
    and "passwordFor c B s dn = Some password"
  shows "\<exists>challenge nonce r1 credentials r2 res. bindDigest cr c B s request [] r = (saslContinue challenge, nonce, r1) \<and>
    saslDigestClientResponse cr challenge username password uri r1 = (Inr credentials, r2) \<and>
    bindDigest cr c B s (request\<lparr>bd_sasl_credentials := credentials\<rparr>) nonce r2 = (res, [], r2) \<and> sb_result res = Success \<and> sb_bind_dn res = dn"
proof -
  let ?realm = "realmFromBase (cf_base_dn c)" and ?uri = "if uri = [] then ''ldap/'' else uri"
  let ?resp = "digestResponse cr (digestHa1 cr username ?realm password (toHex bs) (toHex cs)) (toHex bs) ''00000001'' (toHex cs) ''auth''
          (md5Hex cr (''AUTHENTICATE:'' @ ?uri))"
  let ?t = "clientText username ?realm (toHex bs) (toHex cs) ?uri ?resp"
  note q = toHex_quotable [OF assms(6)] toHex_quotable [OF assms(8)]
  have u: "username \<noteq> []" using assms(1) by (simp add: quotable_def)
  have "snd (digestFinish cr c B s ?t (toHex bs)) = []" by (rule digestFinish_nonce)
  then have "bindDigest cr c B s (request\<lparr>bd_sasl_credentials := ?t\<rparr>) (toHex bs) r2 = (fst (digestFinish cr c B s ?t (toHex bs)), [], r2)" for r2
    using assms(6) by (cases "digestFinish cr c B s ?t (toHex bs)") (simp add: bindDigest_def clientText_def)
  with digestFinish_client [OF assms(1,2) q(1,2) assms(3,4,9,10,11) refl]
    bindDigest_start [OF assms(5,6), of c B s request] client_response [OF assms(2) q(1) u assms(7,8) refl]
  show ?thesis by metis
qed

definition noPeer :: TlsPeer where
  "noPeer = \<lparr>tp_tls = False, tp_verified = False, tp_identity = []\<rparr>"

section \<open>Properties\<close>

text \<open>C26: A complete DIGEST-MD5 exchange between the client's code and the server's ends with a successful bind as the user's entry.  The
  account is enabled and its password is one that the server can recover (the root password, or one stored in the clear or with a
  \<^verbatim>\<open>{CLEARTEXT}\<close> prefix, never a hash), the client uses that password, user name, realm and URI can be written between quotes, the random
  source gives nonces and MD5 works: then the server reads back what the client writes and both compute the same hash.\<close>

theorem digest_exchange_succeeds:
  assumes "parseSaslMechanism (bd_sasl_mechanism request) = Some DigestMd5" and "DigestMd5 \<in> set enabled"
    and "quotable username" and "quotable (realmFromBase (cf_base_dn c))"
    and "quotable (if uri = [] then ''ldap/'' else uri)" and "md5_works cr"
    and "cr_rand cr r 16 = Some bs" and "bs \<noteq> []" and "cr_rand cr (Suc r) 16 = Some cs" and "cs \<noteq> []"
    and "resolveName c B s username = Some dn" and "\<not> isAccountDisabled c B s dn"
    and "passwordFor c B s dn = Some password"
  shows "\<exists>challenge nonce r1 credentials r2 res.
    saslBind cr read_file enabled c B s request peer [] now r = (saslContinue challenge, nonce, r1) \<and>
    saslDigestClientResponse cr challenge username password uri r1 = (Inr credentials, r2) \<and>
    saslBind cr read_file enabled c B s (request\<lparr>bd_sasl_credentials := credentials\<rparr>) peer nonce now r2 = (res, [], r2) \<and>
    sb_result res = Success \<and> sb_bind_dn res = dn"
  using digest_exchange [OF assms(3-13), of request] assms(1,2)
  by (simp add: saslBind_def supports_def)

theorem digest_exchange_succeeds_witness:
  "\<exists>challenge nonce r1 credentials r2 res.
    saslBind demoCrypto (\<lambda>_. None) [PlainMech, DigestMd5] (defaultConfig\<lparr>cf_root_password := ''pw''\<rparr>) memoryBackend []
      (defaultBind\<lparr>bd_sasl_mechanism := ''DIGEST-MD5''\<rparr>) noPeer [] 0 3 = (saslContinue challenge, nonce, r1) \<and>
    saslDigestClientResponse demoCrypto challenge ''admin'' ''pw'' [] r1 = (Inr credentials, r2) \<and>
    saslBind demoCrypto (\<lambda>_. None) [PlainMech, DigestMd5] (defaultConfig\<lparr>cf_root_password := ''pw''\<rparr>) memoryBackend []
      (defaultBind\<lparr>bd_sasl_mechanism := ''DIGEST-MD5'', bd_sasl_credentials := credentials\<rparr>) noPeer nonce 0 r2 = (res, [], r2) \<and>
    sb_result res = Success \<and> sb_bind_dn res = ''cn=admin,dc=example,dc=com''"
proof -
  have r: "cr_rand demoCrypto 3 16 = Some (replicate 16 3)" "cr_rand demoCrypto (Suc 3) 16 = Some (replicate 16 4)"
    "md5_works demoCrypto" by (simp_all add: demoCrypto_def md5_works_def)
  have "\<exists>challenge nonce r1 credentials r2 res.
    saslBind demoCrypto (\<lambda>_. None) [PlainMech, DigestMd5] (defaultConfig\<lparr>cf_root_password := ''pw''\<rparr>) memoryBackend []
      (defaultBind\<lparr>bd_sasl_mechanism := ''DIGEST-MD5''\<rparr>) noPeer [] 0 3 = (saslContinue challenge, nonce, r1) \<and>
    saslDigestClientResponse demoCrypto challenge ''admin'' ''pw'' [] r1 = (Inr credentials, r2) \<and>
    saslBind demoCrypto (\<lambda>_. None) [PlainMech, DigestMd5] (defaultConfig\<lparr>cf_root_password := ''pw''\<rparr>) memoryBackend []
      ((defaultBind\<lparr>bd_sasl_mechanism := ''DIGEST-MD5''\<rparr>)\<lparr>bd_sasl_credentials := credentials\<rparr>) noPeer nonce 0 r2 = (res, [], r2) \<and>
    sb_result res = Success \<and> sb_bind_dn res = ''cn=admin,dc=example,dc=com''"
    by (rule digest_exchange_succeeds [OF _ _ _ _ _ r(3,1) _ r(2)]) (code_simp | simp)+
  then show ?thesis by simp
qed

text \<open>C27: A digest nonce is good for one response: after a response, accepted or not, the session
  has no nonce, and sending the same credentials again starts over instead of binding.\<close>

theorem digest_nonce_single_use:
  assumes "nonce \<noteq> []" and "bd_sasl_credentials request \<noteq> []"
    and "bindDigest cr c B s request nonce r = (res, nonce', r')"
  shows "nonce' = [] \<and> sb_result (fst (bindDigest cr c B s request nonce' r')) \<noteq> Success"
proof -
  have "nonce' = snd (digestFinish cr c B s (bd_sasl_credentials request) nonce)"
    using assms by (auto simp: bindDigest_def split: prod.splits)
  then have n: "nonce' = []" by (simp add: digestFinish_nonce)
  have "sb_result (fst (bindDigest cr c B s request [] r')) \<noteq> Success"
    by (cases "randomNonce cr r'") (simp add: bindDigest_def)
  with n show ?thesis by simp
qed

theorem digest_nonce_single_use_witness:
  "\<exists>res nonce' r'. bindDigest demoCrypto defaultConfig memoryBackend [] (defaultBind\<lparr>bd_sasl_credentials := ''x''\<rparr>) ''n'' 3
     = (res, nonce', r') \<and> nonce' = []"
proof -
  let ?run = "bindDigest demoCrypto defaultConfig memoryBackend [] (defaultBind\<lparr>bd_sasl_credentials := ''x''\<rparr>) ''n'' 3"
  obtain res nonce' r' where run: "?run = (res, nonce', r')" by (cases ?run)
  with digest_nonce_single_use [OF _ _ run] show ?thesis by simp
qed

text \<open>PLAIN credentials written by the client are read back, with any password, also one that
  contains NUL bytes.\<close>

lemma plain_credentials_roundtrip:
  assumes "CHR 0x00 \<notin> set authzid" and "CHR 0x00 \<notin> set authcid" and "authcid \<noteq> []"
  shows "parsePlain (saslPlainCredentials authzid authcid password) = Some (authzid, authcid, password)"
  using assms by (rule parsePlain_credentials)

text \<open>C25: What a successful SASL bind proves, mechanism by mechanism.  The mechanism was enabled, and either the password verified (PLAIN), on a
  connection that is confidential if that is required; or the response carries the digest, over this session's nonce, of the password
  that the server has for the account (DIGEST-MD5); or a verified client certificate names the account (EXTERNAL); or a ticket that is
  signed with the key of the configured keytab and valid now names it (GSSAPI).  The account is the one the session is bound to, and
  it is not disabled.\<close>

theorem sasl_bind_sound:
  assumes "saslBind cr read_file enabled c B s request peer nonce now r = (res, nonce', r')"
    and "sb_result res = Success"
  shows "\<exists>m \<in> set enabled. parseSaslMechanism (bd_sasl_mechanism request) = Some m \<and>
    (m = PlainMech \<and> (tp_tls peer \<or> cf_require_confidentiality c = False) \<and>
       (\<exists>authzid authcid password. parsePlain (bd_sasl_credentials request) = Some (authzid, authcid, password) \<and>
          resolveName c B s authcid = Some (sb_bind_dn res) \<and> authBind cr c B s (sb_bind_dn res) password = Success)
     \<or> m = DigestMd5 \<and> isAccountDisabled c B s (sb_bind_dn res) = False \<and>
         (\<exists>username password. resolveName c B s username = Some (sb_bind_dn res) \<and>
            passwordFor c B s (sb_bind_dn res) = Some password \<and> digest_proves cr (bd_sasl_credentials request) nonce username password)
     \<or> m = External \<and> tp_tls peer \<and> tp_verified peer \<and> resolveName c B s (tp_identity peer) = Some (sb_bind_dn res) \<and>
         isAccountDisabled c B s (sb_bind_dn res) = False
     \<or> m = GssapiMech \<and> isAccountDisabled c B s (sb_bind_dn res) = False \<and>
         (\<exists>kt p. loadGssapiKeytab (read_file (cf_gssapi_keytab c)) = Inr kt \<and>
            ticket_proves cr (completeKeytab c kt) (bd_sasl_credentials request) now p \<and> resolveName c B s p = Some (sb_bind_dn res)))"
proof -
  obtain m where m: "parseSaslMechanism (bd_sasl_mechanism request) = Some m" "m \<in> set enabled"
    using assms by (cases "parseSaslMechanism (bd_sasl_mechanism request)")
      (auto simp: saslBind_def supports_def split: if_splits)
  then have run: "(res, nonce', r') = (case m of
            PlainMech \<Rightarrow> (bindPlain cr c B s request (tp_tls peer), nonce, r)
          | DigestMd5 \<Rightarrow> bindDigest cr c B s request nonce r
          | External \<Rightarrow> (bindExternal c B s request peer, nonce, r)
          | GssapiMech \<Rightarrow> (bindGssapi cr read_file c B s request now, nonce, r)
          | AnonymousMech \<Rightarrow> (saslFail AuthMethodNotSupported ''unsupported SASL mechanism'', nonce, r))"
    using assms(1) by (simp add: saslBind_def supports_def)
  show ?thesis
  proof (cases m)
    case AnonymousMech
    with run assms(2) show ?thesis by simp
  next
    case PlainMech
    with run have res: "res = bindPlain cr c B s request (tp_tls peer)" by simp
    from bindPlain_success [OF assms(2) [unfolded res], folded res] PlainMech m show ?thesis
      by (intro bexI [of _ m]) simp_all
  next
    case DigestMd5
    with run have "bindDigest cr c B s request nonce r = (res, nonce', r')" by simp
    then have "res = fst (bindDigest cr c B s request nonce r)" by simp
    with bindDigest_success [of cr c B s request nonce r] assms(2) DigestMd5 m show ?thesis by (intro bexI [of _ m]) simp_all
  next
    case GssapiMech
    with run have res: "res = bindGssapi cr read_file c B s request now" by simp
    from bindGssapi_success [OF assms(2) [unfolded res], folded res] GssapiMech m show ?thesis
      by (intro bexI [of _ m]) simp_all
  next
    case External
    with run have res: "res = bindExternal c B s request peer" by simp
    from bindExternal_success [OF assms(2) [unfolded res], folded res] External m show ?thesis
      by (intro bexI [of _ m]) simp_all
  qed
qed

theorem sasl_bind_sound_witness:
  "\<exists>credentials nonce username password.
     resolveName (defaultConfig\<lparr>cf_root_password := ''pw''\<rparr>) memoryBackend [] username = Some ''cn=admin,dc=example,dc=com'' \<and>
     passwordFor (defaultConfig\<lparr>cf_root_password := ''pw''\<rparr>) memoryBackend [] ''cn=admin,dc=example,dc=com'' = Some password \<and>
     digest_proves demoCrypto credentials nonce username password"
proof -
  let ?c = "defaultConfig\<lparr>cf_root_password := ''pw''\<rparr>" and ?q = "defaultBind\<lparr>bd_sasl_mechanism := ''DIGEST-MD5''\<rparr>"
  have rand: "cr_rand demoCrypto 3 16 = Some (replicate 16 3)" "cr_rand demoCrypto (Suc 3) 16 = Some (replicate 16 4)"
    "md5_works demoCrypto" by (simp_all add: demoCrypto_def md5_works_def)
  have "\<exists>challenge nonce r1 credentials r2 res. bindDigest demoCrypto ?c memoryBackend [] ?q [] 3 = (saslContinue challenge, nonce, r1) \<and>
    saslDigestClientResponse demoCrypto challenge ''admin'' ''pw'' [] r1 = (Inr credentials, r2) \<and>
    bindDigest demoCrypto ?c memoryBackend [] (?q\<lparr>bd_sasl_credentials := credentials\<rparr>) nonce r2 = (res, [], r2) \<and>
    sb_result res = Success \<and> sb_bind_dn res = ''cn=admin,dc=example,dc=com''"
    by (rule digest_exchange [OF _ _ _ rand(3,1) _ rand(2)]) (code_simp | simp)+
  then obtain credentials nonce r2 res where
    d: "bindDigest demoCrypto ?c memoryBackend [] (?q\<lparr>bd_sasl_credentials := credentials\<rparr>) nonce r2 = (res, [], r2)"
    and r: "sb_result res = Success" "sb_bind_dn res = ''cn=admin,dc=example,dc=com''" by blast
  have m: "parseSaslMechanism ''DIGEST-MD5'' = Some DigestMd5" by code_simp
  with d have "saslBind demoCrypto (\<lambda>_. None) [DigestMd5] ?c memoryBackend [] (?q\<lparr>bd_sasl_credentials := credentials\<rparr>) noPeer nonce 0 r2 = (res, [], r2)"
    by (simp add: saslBind_def supports_def)
  from sasl_bind_sound [OF this r(1)] r(2) m show ?thesis by auto
qed

text \<open>The configured service name is never used: reading the keytab already fills in
  \<^verbatim>\<open>ldap/localhost\<close> when the file names no service, so the branch that would take it from the
  configuration is dead.\<close>

lemma gssapi_service_ignored:
  "bindGssapi cr read_file (c\<lparr>cf_gssapi_service := service\<rparr>) B s request now =
   bindGssapi cr read_file c B s request now"
proof (cases "loadGssapiKeytab (read_file (cf_gssapi_keytab c))")
  case (Inr keytab)
  then have "kt_service keytab \<noteq> []"
    by (auto simp: loadGssapiKeytab_def Let_def split: option.splits if_splits)
  moreover have fa: "findAccount (c\<lparr>cf_gssapi_service := service\<rparr>) B s = findAccount c B s"
    unfolding fun_eq_iff findAccount_def by simp
  have rn: "resolveName (c\<lparr>cf_gssapi_service := service\<rparr>) B s = resolveName c B s"
    unfolding fun_eq_iff resolveName_def fa by simp
  have dis: "isAccountDisabled (c\<lparr>cf_gssapi_service := service\<rparr>) B s = isAccountDisabled c B s"
    by (simp add: fun_eq_iff isAccountDisabled_def)
  moreover have "kt_service keytab \<noteq> [] \<Longrightarrow> completeKeytab (c\<lparr>cf_gssapi_service := service\<rparr>) keytab = completeKeytab c keytab"
    by (simp add: completeKeytab_def)
  ultimately show ?thesis unfolding bindGssapi_def rn dis using Inr by simp
qed (simp add: bindGssapi_def)

end
