(* ===== verification/Schema.thy ===== *)
theory Schema
  imports SearchFilters CppStd
begin

text \<open>
  The schema registry, \<^verbatim>\<open>src/simple-ldapd/schema/registry.cpp\<close>: the parser of OpenLDAP-style schema
  files, the registry with its two name indices, and the validation of an entry before it is
  written.  Parser functions take the text and a position and return the value with the new
  position, \<open>None\<close> for \<^verbatim>\<open>false\<close>; after a failure the caller gives up, so the position is not
  needed.  Directory listings and file contents are arguments.  The lemmas show that every loop
  ends, that the indices stay consistent, that the work list over superior classes computes
  their closure, also when superiors form a cycle, and what an accepted entry satisfies.
\<close>

section \<open>Comments\<close>

function stripComments :: "string \<Rightarrow> bool \<Rightarrow> string" where
  "stripComments [] in_quote = []"
| "stripComments (ch # cs) in_quote =
     (if ch = CHR 0x27 then ch # stripComments cs (\<not> in_quote)
      else if \<not> in_quote \<and> ch = CHR ''#'' then
        (let others = dropWhile (\<lambda>c. c \<noteq> CHR 0x0A) cs
         in if others = [] then [] else CHR 0x0A # stripComments (tl others) in_quote)
      else ch # stripComments cs in_quote)"
  by pat_completeness auto
termination
proof (relation "measure (\<lambda>(t, q). length t)", goal_cases)
  case (3 ch cs in_quote others)
  have "length (tl (dropWhile (\<lambda>c. c \<noteq> CHR 0x0A) cs)) \<le> length cs"
    using length_dropWhile_le [of "\<lambda>c. c \<noteq> CHR 0x0A" cs] by simp
  with 3 show ?case by simp
qed simp_all

section \<open>Tokens\<close>

definition schemaSkip :: "string \<Rightarrow> nat \<Rightarrow> nat" where
  "schemaSkip t pos = scan_while isspace t pos"

definition peek :: "string \<Rightarrow> nat \<Rightarrow> char" where
  "peek t pos = (let pos = schemaSkip t pos in if pos \<ge> length t then CHR 0x00 else t ! pos)"

definition schemaConsume :: "char \<Rightarrow> string \<Rightarrow> nat \<Rightarrow> nat option" where
  "schemaConsume expected t pos =
     (if peek t pos \<noteq> expected then None else Some (schemaSkip t pos + 1))"

definition readQuoted :: "string \<Rightarrow> nat \<Rightarrow> (string \<times> nat) option" where
  "readQuoted t pos =
     (let pos = schemaSkip t pos in
      if pos \<ge> length t \<or> t ! pos \<noteq> CHR 0x27 then None
      else let start = pos + 1; pos = scan_while (\<lambda>c. c \<noteq> CHR 0x27) t start
        in if pos \<ge> length t then None else Some (take (pos - start) (drop start t), pos + 1))"

definition wordStart :: "char \<Rightarrow> bool" where
  "wordStart c \<longleftrightarrow> isalnum c \<or> c = CHR ''.'' \<or> c = CHR ''-'' \<or> c = CHR ''{''"

definition wordChar :: "char \<Rightarrow> bool" where
  "wordChar c \<longleftrightarrow> isalnum c \<or> c = CHR ''.'' \<or> c = CHR ''-'' \<or> c = CHR ''{'' \<or> c = CHR ''}'' \<or> c = CHR ''_''"

definition readWord :: "string \<Rightarrow> nat \<Rightarrow> (string \<times> nat) option" where
  "readWord t pos =
     (let start = schemaSkip t pos in
      if start \<ge> length t then None
      else if \<not> wordStart (t ! start) then None
      else let pos = scan_while wordChar t start; val = take (pos - start) (drop start t)
        in if val = [] then None else Some (val, pos))"

definition readName :: "string \<Rightarrow> nat \<Rightarrow> (string \<times> nat) option" where
  "readName t pos = (if peek t pos = CHR 0x27 then readQuoted t pos else readWord t pos)"

subsection \<open>Progress\<close>

lemma schemaSkip_ge: "pos \<le> schemaSkip t pos"
  by (simp add: schemaSkip_def scan_while_ge)

lemma peek_end: "peek t pos \<noteq> CHR 0x00 \<Longrightarrow> schemaSkip t pos < length t"
  by (auto simp: peek_def Let_def split: if_splits)

lemma schemaConsume_progress: "schemaConsume c t pos = Some p \<Longrightarrow> pos < p"
  using schemaSkip_ge [of pos t] by (auto simp: schemaConsume_def split: if_splits)

lemma readQuoted_progress: "readQuoted t pos = Some (v, p) \<Longrightarrow> pos < p \<and> p \<le> length t"
  using schemaSkip_ge [of pos t] scan_while_ge [of "schemaSkip t pos + 1" "\<lambda>c. c \<noteq> CHR 0x27" t]
  by (auto simp: readQuoted_def Let_def split: if_splits)

lemma readWord_progress: "readWord t pos = Some (v, p) \<Longrightarrow> pos < p \<and> p \<le> length t"
  using schemaSkip_ge [of pos t] scan_while_ge [of "schemaSkip t pos" wordChar t]
    scan_while_le [of "schemaSkip t pos" t wordChar]
  by (auto simp: readWord_def Let_def split: if_splits)

lemma readName_progress: "readName t pos = Some (v, p) \<Longrightarrow> pos < p \<and> p \<le> length t"
  using readQuoted_progress readWord_progress by (simp add: readName_def split: if_splits)

section \<open>Lists of names\<close>

text \<open>The loops inside the parentheses.\<close>

function nameLoop :: "string \<Rightarrow> nat \<Rightarrow> string list \<Rightarrow> (string list \<times> nat) option" where
  "nameLoop t pos names =
     (if peek t pos \<noteq> CHR '')'' \<and> peek t pos \<noteq> CHR 0x00 then
        (case readName t pos of
           None \<Rightarrow> None
         | Some (name, pos) \<Rightarrow> nameLoop t pos (names @ [name]))
      else map_option (\<lambda>pos. (names, pos)) (schemaConsume (CHR '')'') t pos))"
  by pat_completeness auto
termination
  by (relation "measure (\<lambda>(t, pos, names). length t - pos)") (auto dest: readName_progress)

definition readNameList :: "string \<Rightarrow> nat \<Rightarrow> (string list \<times> nat) option" where
  "readNameList t pos =
     (if peek t pos = CHR ''('' then nameLoop t (schemaSkip t pos + 1) []
      else map_option (\<lambda>(name, pos). ([name], pos)) (readName t pos))"

function dollarLoop :: "string \<Rightarrow> nat \<Rightarrow> string list \<Rightarrow> (string list \<times> nat) option" where
  "dollarLoop t pos names =
     (if peek t pos \<noteq> CHR '')'' \<and> peek t pos \<noteq> CHR 0x00 then
        (if peek t pos = CHR ''$'' then dollarLoop t (schemaSkip t pos + 1) names
         else case readName t pos of
           None \<Rightarrow> None
         | Some (name, pos) \<Rightarrow> dollarLoop t pos (names @ [name]))
      else map_option (\<lambda>pos. (names, pos)) (schemaConsume (CHR '')'') t pos))"
  by pat_completeness auto
termination
proof (relation "measure (\<lambda>(t, pos, names). length t - pos)", goal_cases)
  case (2 t pos names)
  then have "schemaSkip t pos < length t" by (intro peek_end) simp
  with schemaSkip_ge [of pos t] show ?case by simp
qed (auto dest: readName_progress)

definition readDollarList :: "string \<Rightarrow> nat \<Rightarrow> (string list \<times> nat) option" where
  "readDollarList t pos =
     (if peek t pos = CHR ''('' then dollarLoop t (schemaSkip t pos + 1) []
      else map_option (\<lambda>(name, pos). ([name], pos)) (readName t pos))"

declare nameLoop.simps [simp del] dollarLoop.simps [simp del]

lemma nameLoop_progress: "nameLoop t pos names = Some (ns, p) \<Longrightarrow> pos < p"
proof (induction t pos names rule: nameLoop.induct)
  case (1 t pos names)
  show ?case
  proof (cases "peek t pos \<noteq> CHR '')'' \<and> peek t pos \<noteq> CHR 0x00")
    case True
    with "1.prems" obtain name q where q: "readName t pos = Some (name, q)" "nameLoop t q (names @ [name]) = Some (ns, p)"
      by (auto simp: nameLoop.simps [of t pos] split: option.splits)
    from "1.IH" [OF True q(1) refl q(2)] readName_progress [OF q(1)] show ?thesis by simp
  next
    case False
    with "1.prems" show ?thesis by (auto simp: nameLoop.simps [of t pos] dest: schemaConsume_progress)
  qed
qed

lemma dollarLoop_progress: "dollarLoop t pos names = Some (ns, p) \<Longrightarrow> pos < p"
proof (induction t pos names rule: dollarLoop.induct)
  case (1 t pos names)
  show ?case
  proof (cases "peek t pos \<noteq> CHR '')'' \<and> peek t pos \<noteq> CHR 0x00")
    case guard: True
    show ?thesis
    proof (cases "peek t pos = CHR ''$''")
      case True
      with "1.prems" guard have "dollarLoop t (schemaSkip t pos + 1) names = Some (ns, p)"
        by (simp add: dollarLoop.simps [of t pos])
      from "1.IH"(1) [OF guard True this] schemaSkip_ge [of pos t] show ?thesis by simp
    next
      case False
      with "1.prems" guard obtain name q where q: "readName t pos = Some (name, q)"
          "dollarLoop t q (names @ [name]) = Some (ns, p)"
        by (auto simp: dollarLoop.simps [of t pos] split: option.splits)
      from "1.IH"(2) [OF guard False q(1) refl q(2)] readName_progress [OF q(1)] show ?thesis by simp
    qed
  next
    case False
    with "1.prems" show ?thesis by (auto simp: dollarLoop.simps [of t pos] dest: schemaConsume_progress)
  qed
qed

lemma readNameList_progress: "readNameList t pos = Some (ns, p) \<Longrightarrow> pos < p"
  using schemaSkip_ge [of pos t]
  by (auto simp: readNameList_def dest: nameLoop_progress readName_progress split: if_splits)

lemma readDollarList_progress: "readDollarList t pos = Some (ns, p) \<Longrightarrow> pos < p"
  using schemaSkip_ge [of pos t]
  by (auto simp: readDollarList_def dest: dollarLoop_progress readName_progress split: if_splits)


section \<open>Definitions\<close>

datatype ObjectClassKind = Abstract | Structural | Auxiliary

record SchemaAttribute =
  sa_oid :: string
  sa_names :: "string list"
  sa_superior :: string
  sa_equality :: string
  sa_syntax :: string
  sa_single_value :: bool

record SchemaObjectClass =
  so_oid :: string
  so_names :: "string list"
  so_superiors :: "string list"
  so_kind :: ObjectClassKind
  so_must :: "string list"
  so_may :: "string list"

definition newAttribute :: SchemaAttribute where
  "newAttribute = \<lparr>sa_oid = [], sa_names = [], sa_superior = [], sa_equality = [], sa_syntax = [],
     sa_single_value = False\<rparr>"

definition newObjectClass :: SchemaObjectClass where
  "newObjectClass = \<lparr>so_oid = [], so_names = [], so_superiors = [], so_kind = Structural, so_must = [],
     so_may = []\<rparr>"

text \<open>One keyword of an attribute type with its argument.\<close>

definition attributeKey :: "string \<Rightarrow> string \<Rightarrow> nat \<Rightarrow> SchemaAttribute \<Rightarrow> (SchemaAttribute \<times> nat) option" where
  "attributeKey t key pos a =
     (if iequals key ''NAME'' then map_option (\<lambda>(ns, pos). (a\<lparr>sa_names := ns\<rparr>, pos)) (readNameList t pos)
      else if iequals key ''DESC'' then map_option (\<lambda>(_, pos). (a, pos)) (readQuoted t pos)
      else if iequals key ''SUP'' then map_option (\<lambda>(v, pos). (a\<lparr>sa_superior := v\<rparr>, pos)) (readName t pos)
      else if iequals key ''EQUALITY'' then map_option (\<lambda>(v, pos). (a\<lparr>sa_equality := v\<rparr>, pos)) (readWord t pos)
      else if iequals key ''ORDERING'' \<or> iequals key ''SUBSTR'' \<or> iequals key ''USAGE'' then
        map_option (\<lambda>(_, pos). (a, pos)) (readWord t pos)
      else if iequals key ''SYNTAX'' then map_option (\<lambda>(v, pos). (a\<lparr>sa_syntax := v\<rparr>, pos)) (readWord t pos)
      else if iequals key ''SINGLE-VALUE'' then Some (a\<lparr>sa_single_value := True\<rparr>, pos)
      else if iequals key ''COLLECTIVE'' \<or> iequals key ''NO-USER-MODIFICATION'' \<or> iequals key ''OBSOLETE'' then
        Some (a, pos)
      else None)"

lemma attributeKey_ge: "attributeKey t key pos a = Some (a', p) \<Longrightarrow> pos \<le> p"
  by (auto simp: attributeKey_def dest: readNameList_progress readQuoted_progress readName_progress
      readWord_progress split: if_splits)

function attributeLoop :: "string \<Rightarrow> nat \<Rightarrow> SchemaAttribute \<Rightarrow> (SchemaAttribute \<times> nat) option" where
  "attributeLoop t pos a =
     (if peek t pos \<noteq> CHR '')'' \<and> peek t pos \<noteq> CHR 0x00 then
        (case readWord t pos of
           None \<Rightarrow> None
         | Some (key, pos) \<Rightarrow>
             (case attributeKey t key pos a of
                None \<Rightarrow> None
              | Some (a, pos) \<Rightarrow> attributeLoop t pos a))
      else case schemaConsume (CHR '')'') t pos of
        None \<Rightarrow> None
      | Some pos \<Rightarrow> if sa_names a = [] then None else Some (a, pos))"
  by pat_completeness auto
termination
  by (relation "measure (\<lambda>(t, pos, a). length t - pos)")
    (auto dest!: readWord_progress attributeKey_ge)

definition parseAttribute :: "string \<Rightarrow> nat \<Rightarrow> (SchemaAttribute \<times> nat) option" where
  "parseAttribute t pos =
     (case schemaConsume (CHR ''('') t pos of
        None \<Rightarrow> None
      | Some pos \<Rightarrow>
          (case readWord t pos of
             None \<Rightarrow> None
           | Some (oid, pos) \<Rightarrow> attributeLoop t pos (newAttribute\<lparr>sa_oid := oid\<rparr>)))"

text \<open>One keyword of an object class with its argument.\<close>

definition objectClassKey :: "string \<Rightarrow> string \<Rightarrow> nat \<Rightarrow> SchemaObjectClass \<Rightarrow> (SchemaObjectClass \<times> nat) option" where
  "objectClassKey t key pos oc =
     (if iequals key ''NAME'' then map_option (\<lambda>(ns, pos). (oc\<lparr>so_names := ns\<rparr>, pos)) (readNameList t pos)
      else if iequals key ''DESC'' then map_option (\<lambda>(_, pos). (oc, pos)) (readQuoted t pos)
      else if iequals key ''SUP'' then map_option (\<lambda>(ns, pos). (oc\<lparr>so_superiors := ns\<rparr>, pos)) (readDollarList t pos)
      else if iequals key ''MUST'' then map_option (\<lambda>(ns, pos). (oc\<lparr>so_must := ns\<rparr>, pos)) (readDollarList t pos)
      else if iequals key ''MAY'' then map_option (\<lambda>(ns, pos). (oc\<lparr>so_may := ns\<rparr>, pos)) (readDollarList t pos)
      else if iequals key ''ABSTRACT'' then Some (oc\<lparr>so_kind := Abstract\<rparr>, pos)
      else if iequals key ''STRUCTURAL'' then Some (oc\<lparr>so_kind := Structural\<rparr>, pos)
      else if iequals key ''AUXILIARY'' then Some (oc\<lparr>so_kind := Auxiliary\<rparr>, pos)
      else if iequals key ''OBSOLETE'' then Some (oc, pos)
      else None)"

lemma objectClassKey_ge: "objectClassKey t key pos oc = Some (oc', p) \<Longrightarrow> pos \<le> p"
  by (auto simp: objectClassKey_def dest: readNameList_progress readQuoted_progress readDollarList_progress
      split: if_splits)

function objectClassLoop :: "string \<Rightarrow> nat \<Rightarrow> SchemaObjectClass \<Rightarrow> (SchemaObjectClass \<times> nat) option" where
  "objectClassLoop t pos oc =
     (if peek t pos \<noteq> CHR '')'' \<and> peek t pos \<noteq> CHR 0x00 then
        (case readWord t pos of
           None \<Rightarrow> None
         | Some (key, pos) \<Rightarrow>
             (case objectClassKey t key pos oc of
                None \<Rightarrow> None
              | Some (oc, pos) \<Rightarrow> objectClassLoop t pos oc))
      else case schemaConsume (CHR '')'') t pos of
        None \<Rightarrow> None
      | Some pos \<Rightarrow> if so_names oc = [] then None else Some (oc, pos))"
  by pat_completeness auto
termination
  by (relation "measure (\<lambda>(t, pos, oc). length t - pos)")
    (auto dest!: readWord_progress objectClassKey_ge)

definition parseObjectClass :: "string \<Rightarrow> nat \<Rightarrow> (SchemaObjectClass \<times> nat) option" where
  "parseObjectClass t pos =
     (case schemaConsume (CHR ''('') t pos of
        None \<Rightarrow> None
      | Some pos \<Rightarrow>
          (case readWord t pos of
             None \<Rightarrow> None
           | Some (oid, pos) \<Rightarrow> objectClassLoop t pos (newObjectClass\<lparr>so_oid := oid\<rparr>)))"

declare attributeLoop.simps [simp del] objectClassLoop.simps [simp del]

lemma attributeLoop_result: "attributeLoop t pos a = Some (a', p) \<Longrightarrow> pos < p \<and> sa_names a' \<noteq> []"
proof (induction t pos a rule: attributeLoop.induct)
  case (1 t pos a)
  show ?case
  proof (cases "peek t pos \<noteq> CHR '')'' \<and> peek t pos \<noteq> CHR 0x00")
    case True
    with "1.prems" obtain key q a1 q1 where q: "readWord t pos = Some (key, q)"
        "attributeKey t key q a = Some (a1, q1)" "attributeLoop t q1 a1 = Some (a', p)"
      by (auto simp: attributeLoop.simps [of t pos] split: option.splits)
    from "1.IH" [OF True q(1) refl q(2) refl q(3)] readWord_progress [OF q(1)] attributeKey_ge [OF q(2)]
    show ?thesis by simp
  next
    case False
    with "1.prems" show ?thesis
      by (auto simp: attributeLoop.simps [of t pos] dest: schemaConsume_progress split: option.splits if_splits)
  qed
qed

lemma objectClassLoop_result: "objectClassLoop t pos oc = Some (oc', p) \<Longrightarrow> pos < p \<and> so_names oc' \<noteq> []"
proof (induction t pos oc rule: objectClassLoop.induct)
  case (1 t pos oc)
  show ?case
  proof (cases "peek t pos \<noteq> CHR '')'' \<and> peek t pos \<noteq> CHR 0x00")
    case True
    with "1.prems" obtain key q o1 q1 where q: "readWord t pos = Some (key, q)"
        "objectClassKey t key q oc = Some (o1, q1)" "objectClassLoop t q1 o1 = Some (oc', p)"
      by (auto simp: objectClassLoop.simps [of t pos] split: option.splits)
    from "1.IH" [OF True q(1) refl q(2) refl q(3)] readWord_progress [OF q(1)] objectClassKey_ge [OF q(2)]
    show ?thesis by simp
  next
    case False
    with "1.prems" show ?thesis
      by (auto simp: objectClassLoop.simps [of t pos] dest: schemaConsume_progress split: option.splits if_splits)
  qed
qed

lemma parseAttribute_result: "parseAttribute t pos = Some (a, p) \<Longrightarrow> pos < p \<and> sa_names a \<noteq> []"
  by (auto simp: parseAttribute_def dest!: attributeLoop_result schemaConsume_progress readWord_progress
      split: option.splits)

lemma parseObjectClass_result: "parseObjectClass t pos = Some (oc, p) \<Longrightarrow> pos < p \<and> so_names oc \<noteq> []"
  by (auto simp: parseObjectClass_def dest!: objectClassLoop_result schemaConsume_progress readWord_progress
      split: option.splits)

section \<open>The registry\<close>

record SchemaRegistry =
  sr_attributes :: "SchemaAttribute list"
  sr_object_classes :: "SchemaObjectClass list"
  sr_attribute_index :: "nat smap"
  sr_object_class_index :: "nat smap"

definition emptyRegistry :: SchemaRegistry where
  "emptyRegistry = \<lparr>sr_attributes = [], sr_object_classes = [], sr_attribute_index = [], sr_object_class_index = []\<rparr>"

definition loaded :: "SchemaRegistry \<Rightarrow> bool" where
  "loaded reg \<longleftrightarrow> sr_object_classes reg \<noteq> []"

definition indexAttribute :: "nat \<Rightarrow> SchemaRegistry \<Rightarrow> SchemaRegistry" where
  "indexAttribute i reg =
     reg\<lparr>sr_attribute_index :=
       fold (\<lambda>name m. smap_put (toLowerAscii name) i m) (sa_names (sr_attributes reg ! i)) (sr_attribute_index reg)\<rparr>"

definition indexObjectClass :: "nat \<Rightarrow> SchemaRegistry \<Rightarrow> SchemaRegistry" where
  "indexObjectClass i reg =
     reg\<lparr>sr_object_class_index :=
       fold (\<lambda>name m. smap_put (toLowerAscii name) i m) (so_names (sr_object_classes reg ! i)) (sr_object_class_index reg)\<rparr>"

definition addAttribute :: "SchemaAttribute \<Rightarrow> SchemaRegistry \<Rightarrow> SchemaRegistry" where
  "addAttribute a reg =
     (let reg = reg\<lparr>sr_attributes := sr_attributes reg @ [a]\<rparr> in indexAttribute (length (sr_attributes reg) - 1) reg)"

definition addObjectClass :: "SchemaObjectClass \<Rightarrow> SchemaRegistry \<Rightarrow> SchemaRegistry" where
  "addObjectClass oc reg =
     (let reg = reg\<lparr>sr_object_classes := sr_object_classes reg @ [oc]\<rparr>
      in indexObjectClass (length (sr_object_classes reg) - 1) reg)"

text \<open>The loop over one file's text; the flag is \<^verbatim>\<open>ok\<close>.\<close>

function loadLoop :: "string \<Rightarrow> nat \<Rightarrow> SchemaRegistry \<Rightarrow> bool \<times> SchemaRegistry" where
  "loadLoop t pos reg =
     (if pos \<ge> length t then (True, reg)
      else let pos = schemaSkip t pos in
        if pos \<ge> length t then (True, reg)
        else case readWord t pos of
          None \<Rightarrow> loadLoop t (pos + 1) reg
        | Some (keyword, pos) \<Rightarrow>
            if iequals keyword ''attributetype'' \<or> iequals keyword ''attributetypes'' then
              (case parseAttribute t pos of
                 None \<Rightarrow> (False, reg)
               | Some (a, pos) \<Rightarrow> loadLoop t pos (addAttribute a reg))
            else if iequals keyword ''objectclass'' \<or> iequals keyword ''objectclasses'' then
              (case parseObjectClass t pos of
                 None \<Rightarrow> (False, reg)
               | Some (oc, pos) \<Rightarrow> loadLoop t pos (addObjectClass oc reg))
            else loadLoop t pos reg)"
  by pat_completeness auto
termination
proof (relation "measure (\<lambda>(t, pos, reg). length t - pos)", goal_cases)
  case (2 t pos reg q)
  with schemaSkip_ge [of pos t] show ?case by simp
next
  case (3 t pos reg q kp keyword p ap a p')
  then have "q < p" "p \<le> length t" "p < p'" using readWord_progress parseAttribute_result by blast+
  with 3 schemaSkip_ge [of pos t] show ?case by simp
next
  case (4 t pos reg q kp keyword p op oc p')
  then have "q < p" "p \<le> length t" "p < p'" using readWord_progress parseObjectClass_result by blast+
  with 4 schemaSkip_ge [of pos t] show ?case by simp
next
  case (5 t pos reg q kp keyword p)
  then have "q < p" "p \<le> length t" using readWord_progress by blast+
  with 5 schemaSkip_ge [of pos t] show ?case by simp
qed simp

declare loadLoop.simps [simp del]

text \<open>The file is its contents, \<open>None\<close> when it cannot be opened.\<close>

definition loadFile :: "string option \<Rightarrow> SchemaRegistry \<Rightarrow> bool \<times> SchemaRegistry" where
  "loadFile file reg =
     (case file of None \<Rightarrow> (False, reg) | Some t \<Rightarrow> loadLoop (stripComments t False) 0 reg)"

text \<open>The paths of the schema files of a directory, in order; the listing is \<open>None\<close> when the
  directory cannot be opened.\<close>

definition schemaFiles :: "string \<Rightarrow> string list option \<Rightarrow> string list" where
  "schemaFiles directory listing =
     (case listing of
        None \<Rightarrow> []
      | Some names \<Rightarrow>
          sort (map (\<lambda>name. directory @ ''/'' @ name)
            (filter (\<lambda>name. length name > 7 \<and> drop (length name - 7) name = ''.schema'') names)))"

fun loadFiles :: "(string \<Rightarrow> string option) \<Rightarrow> string list \<Rightarrow> bool \<Rightarrow> SchemaRegistry \<Rightarrow> bool \<times> SchemaRegistry" where
  "loadFiles read_file [] ok reg = (ok, reg)"
| "loadFiles read_file (path # paths) ok reg =
     (case loadFile (read_file path) reg of (ok', reg) \<Rightarrow> loadFiles read_file paths (ok' \<and> ok) reg)"

definition loadDirectory ::
  "(string \<Rightarrow> string option) \<Rightarrow> string list option \<Rightarrow> string \<Rightarrow> SchemaRegistry \<Rightarrow> bool \<times> SchemaRegistry" where
  "loadDirectory read_file listing directory reg =
     (let files = schemaFiles directory listing
      in if files = [] then (False, reg) else loadFiles read_file files True reg)"

definition schemaAttribute :: "SchemaRegistry \<Rightarrow> string \<Rightarrow> SchemaAttribute option" where
  "schemaAttribute reg name =
     map_option (\<lambda>i. sr_attributes reg ! i) (map_of (sr_attribute_index reg) (toLowerAscii name))"

definition findObjectClass :: "SchemaRegistry \<Rightarrow> string \<Rightarrow> SchemaObjectClass option" where
  "findObjectClass reg name =
     map_option (\<lambda>i. sr_object_classes reg ! i) (map_of (sr_object_class_index reg) (toLowerAscii name))"

definition hasAttribute :: "SchemaRegistry \<Rightarrow> string \<Rightarrow> bool" where
  "hasAttribute reg name \<longleftrightarrow> schemaAttribute reg name \<noteq> None"

definition hasObjectClass :: "SchemaRegistry \<Rightarrow> string \<Rightarrow> bool" where
  "hasObjectClass reg name \<longleftrightarrow> findObjectClass reg name \<noteq> None"

text \<open>The walk to a superior with a syntax, at most 32 steps; \<open>None\<close> is the null pointer.\<close>

fun syntaxLoop :: "SchemaRegistry \<Rightarrow> SchemaAttribute option \<Rightarrow> nat \<Rightarrow> SchemaAttribute option" where
  "syntaxLoop reg current 0 = current"
| "syntaxLoop reg current (Suc depth) =
     (case current of
        None \<Rightarrow> None
      | Some a \<Rightarrow>
          if sa_syntax a = [] \<and> sa_superior a \<noteq> [] then syntaxLoop reg (schemaAttribute reg (sa_superior a)) depth
          else current)"

definition attributeSyntax :: "SchemaRegistry \<Rightarrow> SchemaAttribute \<Rightarrow> SchemaAttribute option" where
  "attributeSyntax reg a = syntaxLoop reg (Some a) 32"


section \<open>Superior classes\<close>

lemma findObjectClass_key:
  "findObjectClass reg name = Some oc \<Longrightarrow> toLowerAscii name \<in> fst ` set (sr_object_class_index reg)"
  by (auto simp: findObjectClass_def dest: map_of_SomeD intro: rev_image_eqI)

text \<open>The work list; the last element is taken first.\<close>

function collectLoop ::
  "SchemaRegistry \<Rightarrow> string list \<Rightarrow> string set \<Rightarrow> SchemaObjectClass list \<Rightarrow> string + SchemaObjectClass list" where
  "collectLoop reg pending seen classes =
     (if pending = [] then Inr classes
      else let name = last pending; pending = butlast pending; key = toLowerAscii name in
        if key \<in> seen then collectLoop reg pending seen classes
        else case findObjectClass reg name of
          None \<Rightarrow> Inl (''unknown object class '' @ name)
        | Some oc \<Rightarrow> collectLoop reg (pending @ so_superiors oc) (insert key seen) (classes @ [oc]))"
  by pat_completeness auto
termination
proof (relation "measures [\<lambda>(reg, pending, seen, classes). card (fst ` set (sr_object_class_index reg) - seen),
    \<lambda>(reg, pending, seen, classes). length pending]", goal_cases)
  case (3 reg pending seen classes name others key oc)
  let ?key = "toLowerAscii (last pending)" and ?keys = "fst ` set (sr_object_class_index reg)"
  from 3 have "?key \<in> ?keys - seen" using findObjectClass_key by simp
  then have "card (?keys - seen - {?key}) < card (?keys - seen)"
    by (intro card_Diff1_less) simp_all
  moreover have "?keys - seen - {?key} = ?keys - insert ?key seen" by blast
  ultimately have "card (?keys - insert ?key seen) < card (?keys - seen)" by simp
  then show ?case by (simp only: 3(2-4) in_measures split_conv simp_thms)
qed simp_all

declare collectLoop.simps [simp del]

definition collectObjectClasses :: "SchemaRegistry \<Rightarrow> string list \<Rightarrow> string + SchemaObjectClass list" where
  "collectObjectClasses reg names = collectLoop reg names {} []"

section \<open>Validation\<close>

definition hasNonEmpty :: "DirectoryEntry \<Rightarrow> string \<Rightarrow> bool" where
  "hasNonEmpty entry name =
     (case findValues entry name of None \<Rightarrow> False | Some values \<Rightarrow> list_ex (\<lambda>v. v \<noteq> []) values)"

definition syntaxOid :: "string \<Rightarrow> string" where
  "syntaxOid syntax = (case find_char (CHR ''{'') syntax of None \<Rightarrow> syntax | Some brace \<Rightarrow> take brace syntax)"

definition isDigits :: "string \<Rightarrow> nat \<Rightarrow> bool" where
  "isDigits val start = (if start \<ge> length val then False else list_all isdigit (drop start val))"

definition valueMatchesSyntax :: "string \<Rightarrow> string \<Rightarrow> bool" where
  "valueMatchesSyntax syntax val =
     (let oid = syntaxOid syntax in
      if oid = ''1.3.6.1.4.1.1466.115.121.1.27'' then
        isDigits val (if val \<noteq> [] \<and> hd val = CHR ''-'' then 1 else 0)
      else if oid = ''1.3.6.1.4.1.1466.115.121.1.7'' then val = ''TRUE'' \<or> val = ''FALSE''
      else if oid = ''1.3.6.1.4.1.1466.115.121.1.12'' then find_char (CHR ''='') val \<noteq> None
      else if oid = ''1.3.6.1.4.1.1466.115.121.1.38'' then
        val \<noteq> [] \<and> find_str ''..'' val 0 = None \<and> list_all (\<lambda>ch. isdigit ch \<or> ch = CHR ''.'') val
      else if oid = ''1.3.6.1.4.1.1466.115.121.1.26'' then list_all (\<lambda>ch. char_code ch \<le> 127) val
      else True)"

definition primaryName :: "SchemaObjectClass \<Rightarrow> string" where
  "primaryName oc = toLowerAscii (hd (so_names oc))"

text \<open>The sets that the loop over the classes collects.\<close>

definition structuralNames :: "SchemaObjectClass list \<Rightarrow> string set" where
  "structuralNames classes = set (map primaryName (filter (\<lambda>oc. so_kind oc = Structural) classes))"

definition structuralSuperiors :: "SchemaRegistry \<Rightarrow> SchemaObjectClass list \<Rightarrow> string set" where
  "structuralSuperiors reg classes =
     set (map primaryName (filter (\<lambda>p. so_kind p = Structural)
       (List.map_filter (findObjectClass reg)
         (concat (map so_superiors (filter (\<lambda>oc. so_kind oc = Structural) classes))))))"

definition requiredNames :: "SchemaObjectClass list \<Rightarrow> string list" where
  "requiredNames classes = sort (remdups (concat (map (\<lambda>oc. map toLowerAscii (so_must oc)) classes)))"

definition allowedNames :: "SchemaObjectClass list \<Rightarrow> string set" where
  "allowedNames classes =
     insert ''objectclass'' (set (concat (map (\<lambda>oc. map toLowerAscii (so_must oc @ so_may oc)) classes)))"

text \<open>One attribute of the entry.\<close>

definition validateAttribute ::
  "SchemaRegistry \<Rightarrow> string set \<Rightarrow> string \<times> string list \<Rightarrow> ResultCode \<times> string" where
  "validateAttribute reg allowed pair =
     (let key = toLowerAscii (fst pair) in
      if key = ''objectclass'' then (Success, [])
      else case schemaAttribute reg (fst pair) of
        None \<Rightarrow> (UndefinedAttributeType, ''undefined attribute type '' @ fst pair)
      | Some a \<Rightarrow>
          if key \<notin> allowed then
            (ObjectClassViolation, ''attribute '' @ fst pair @ '' is not allowed by object class'')
          else if sa_single_value a \<and> length (snd pair) > 1 then
            (ConstraintViolation, ''attribute '' @ fst pair @ '' is single-valued'')
          else let syntax = (case attributeSyntax reg a of None \<Rightarrow> sa_syntax a | Some source \<Rightarrow> sa_syntax source)
            in if syntax \<noteq> [] \<and> \<not> list_all (valueMatchesSyntax syntax) (snd pair) then
                 (InvalidAttributeSyntax, ''invalid syntax for '' @ fst pair)
               else (Success, []))"

fun validateAttributes ::
  "SchemaRegistry \<Rightarrow> string set \<Rightarrow> string list smap \<Rightarrow> ResultCode \<times> string" where
  "validateAttributes reg allowed [] = (Success, [])"
| "validateAttributes reg allowed (pair # pairs) =
     (let r = validateAttribute reg allowed pair
      in if fst r \<noteq> Success then r else validateAttributes reg allowed pairs)"

definition validateEntry :: "SchemaRegistry \<Rightarrow> DirectoryEntry \<Rightarrow> ResultCode \<times> string" where
  "validateEntry reg entry =
     (if \<not> loaded reg then (Success, [])
      else case findValues entry ''objectClass'' of
        None \<Rightarrow> (ObjectClassViolation, ''objectClass is required'')
      | Some values \<Rightarrow>
          if values = [] then (ObjectClassViolation, ''objectClass is required'')
          else case collectObjectClasses reg values of
            Inl diagnostic \<Rightarrow> (ObjectClassViolation, diagnostic)
          | Inr classes \<Rightarrow>
              let leaves = structuralNames classes - structuralSuperiors reg classes
              in if card leaves \<noteq> 1 then
                   (ObjectClassViolation, ''entry must have exactly one structural object class'')
                 else case find (\<lambda>name. \<not> hasNonEmpty entry name) (requiredNames classes) of
                   Some name \<Rightarrow> (ObjectClassViolation, ''missing required attribute '' @ name)
                 | None \<Rightarrow> validateAttributes reg (allowedNames classes) (de_attributes entry))"


section \<open>The closure of superior classes\<close>

text \<open>The names an entry's classes reach through their superiors.\<close>

inductive superClosure :: "SchemaRegistry \<Rightarrow> string list \<Rightarrow> string \<Rightarrow> bool" for reg names where
  own: "n \<in> set names \<Longrightarrow> superClosure reg names n"
| sup: "superClosure reg names n \<Longrightarrow> findObjectClass reg n = Some oc \<Longrightarrow> s \<in> set (so_superiors oc) \<Longrightarrow>
    superClosure reg names s"

definition closureClasses :: "SchemaRegistry \<Rightarrow> string list \<Rightarrow> SchemaObjectClass set" where
  "closureClasses reg names = {oc. \<exists>n. superClosure reg names n \<and> findObjectClass reg n = Some oc}"

lemma findObjectClass_fold: "toLowerAscii m = toLowerAscii n \<Longrightarrow> findObjectClass reg m = findObjectClass reg n"
  by (simp add: findObjectClass_def)

text \<open>What holds at every round of the work list.\<close>

definition collect_inv ::
  "SchemaRegistry \<Rightarrow> string list \<Rightarrow> string list \<Rightarrow> string set \<Rightarrow> SchemaObjectClass list \<Rightarrow> bool" where
  "collect_inv reg names pending seen classes \<longleftrightarrow>
     (\<forall>n \<in> set pending. superClosure reg names n) \<and>
     set classes \<subseteq> closureClasses reg names \<and>
     (\<forall>k \<in> seen. \<exists>n oc. toLowerAscii n = k \<and> findObjectClass reg n = Some oc \<and> oc \<in> set classes \<and>
        toLowerAscii ` set (so_superiors oc) \<subseteq> seen \<union> toLowerAscii ` set pending) \<and>
     toLowerAscii ` set names \<subseteq> seen \<union> toLowerAscii ` set pending"

lemma collect_inv_end:
  assumes "collect_inv reg names [] seen classes"
  shows "set classes = closureClasses reg names \<and> (\<forall>n. superClosure reg names n \<longrightarrow> findObjectClass reg n \<noteq> None)"
proof -
  have seen: "toLowerAscii n \<in> seen" if "superClosure reg names n" for n
    using that
  proof (induction rule: superClosure.induct)
    case (own n)
    then show ?case using assms by (auto simp: collect_inv_def)
  next
    case (sup n oc s)
    then obtain n' oc' where "toLowerAscii n' = toLowerAscii n" "findObjectClass reg n' = Some oc'"
        "toLowerAscii ` set (so_superiors oc') \<subseteq> seen"
      using assms by (fastforce simp: collect_inv_def)
    moreover from this sup(2) have "oc' = oc" using findObjectClass_fold [of n' n reg] by simp
    ultimately show ?case using sup(3) by blast
  qed
  have found: "\<exists>oc \<in> set classes. findObjectClass reg n = Some oc" if n: "superClosure reg names n" for n
  proof -
    from seen [OF n] assms obtain n' oc where "toLowerAscii n' = toLowerAscii n" "findObjectClass reg n' = Some oc" "oc \<in> set classes"
      unfolding collect_inv_def by meson
    then show ?thesis using findObjectClass_fold [of n' n reg] by auto
  qed
  have "closureClasses reg names \<subseteq> set classes" using found by (fastforce simp: closureClasses_def)
  with assms have "set classes = closureClasses reg names" by (auto simp: collect_inv_def)
  with found show ?thesis by fastforce
qed

lemma collect_inv_pop:
  assumes "collect_inv reg names pending seen classes" "pending \<noteq> []" "toLowerAscii (last pending) \<in> seen"
  shows "collect_inv reg names (butlast pending) seen classes"
proof -
  have p: "pending = butlast pending @ [last pending]" using assms(2) by simp
  have "set pending = insert (last pending) (set (butlast pending))" by (subst p) simp
  with assms(1,3) have "seen \<union> toLowerAscii ` set pending = seen \<union> toLowerAscii ` set (butlast pending)" by auto
  with assms(1) show ?thesis
    unfolding collect_inv_def by (metis in_set_butlastD)
qed

lemma collect_inv_push:
  assumes inv: "collect_inv reg names pending seen classes" and "pending \<noteq> []"
    and oc: "findObjectClass reg (last pending) = Some oc"
  shows "collect_inv reg names (butlast pending @ so_superiors oc) (insert (toLowerAscii (last pending)) seen) (classes @ [oc])"
proof -
  let ?seen = "insert (toLowerAscii (last pending)) seen" and ?pending = "butlast pending @ so_superiors oc"
  have p: "pending = butlast pending @ [last pending]" using assms(2) by simp
  have last: "superClosure reg names (last pending)" using inv assms(2) by (simp add: collect_inv_def)
  have "set pending = insert (last pending) (set (butlast pending))" by (subst p) simp
  then have grow: "seen \<union> toLowerAscii ` set pending \<subseteq> ?seen \<union> toLowerAscii ` set ?pending" by auto
  have "\<forall>n \<in> set ?pending. superClosure reg names n"
    using inv superClosure.sup [OF last oc] by (auto simp: collect_inv_def dest: in_set_butlastD)
  moreover have "set (classes @ [oc]) \<subseteq> closureClasses reg names"
    using inv last oc by (auto simp: collect_inv_def closureClasses_def)
  moreover have "\<exists>n oc'. toLowerAscii n = k \<and> findObjectClass reg n = Some oc' \<and> oc' \<in> set (classes @ [oc]) \<and>
      toLowerAscii ` set (so_superiors oc') \<subseteq> ?seen \<union> toLowerAscii ` set ?pending" if k: "k \<in> ?seen" for k
  proof (cases "k = toLowerAscii (last pending)")
    case True
    with oc show ?thesis by (intro exI [of _ "last pending"] exI [of _ oc]) auto
  next
    case False
    with k have "k \<in> seen" by simp
    with inv obtain n oc' where n: "toLowerAscii n = k" "findObjectClass reg n = Some oc'" "oc' \<in> set classes"
        "toLowerAscii ` set (so_superiors oc') \<subseteq> seen \<union> toLowerAscii ` set pending"
      unfolding collect_inv_def by meson
    from subset_trans [OF n(4) grow] n(1-3) show ?thesis
      by (intro exI [of _ n] exI [of _ oc'] conjI) simp_all
  qed
  moreover have "toLowerAscii ` set names \<subseteq> ?seen \<union> toLowerAscii ` set ?pending"
    using inv by (intro subset_trans [OF _ grow]) (simp add: collect_inv_def)
  ultimately show ?thesis unfolding collect_inv_def by blast
qed

lemma collectLoop_closure:
  "collect_inv reg names pending seen classes \<Longrightarrow>
     (case collectLoop reg pending seen classes of
        Inl d \<Rightarrow> \<exists>n. superClosure reg names n \<and> findObjectClass reg n = None
      | Inr cl \<Rightarrow> set cl = closureClasses reg names \<and>
          (\<forall>n. superClosure reg names n \<longrightarrow> findObjectClass reg n \<noteq> None))"
proof (induction reg pending seen classes rule: collectLoop.induct)
  case (1 reg pending seen classes)
  show ?case
  proof (cases "pending = []")
    case True
    with collect_inv_end [of reg names seen classes] "1.prems" show ?thesis
      by (simp add: collectLoop.simps [of reg "[]"])
  next
    case False
    show ?thesis
    proof (cases "toLowerAscii (last pending) \<in> seen")
      case True
      with "1.IH"(1) [OF False refl refl refl True collect_inv_pop [OF "1.prems" False True]] False
      show ?thesis by (simp add: collectLoop.simps [of reg pending] Let_def)
    next
      case fresh: False
      show ?thesis
      proof (cases "findObjectClass reg (last pending)")
        case None
        moreover have "superClosure reg names (last pending)" using "1.prems" False by (simp add: collect_inv_def)
        ultimately show ?thesis using False fresh by (auto simp: collectLoop.simps [of reg pending] Let_def)
      next
        case (Some oc)
        with "1.IH"(2) [OF False refl refl refl fresh Some collect_inv_push [OF "1.prems" False Some]] False fresh
        show ?thesis by (simp add: collectLoop.simps [of reg pending] Let_def)
      qed
    qed
  qed
qed

lemma collect_inv_start: "collect_inv reg names names {} []"
  by (auto simp: collect_inv_def intro: superClosure.own)

lemmas collect_closure = collectLoop_closure [OF collect_inv_start, folded collectObjectClasses_def]

text \<open>C23: The work list over superior classes ends on every registry, also when superiors form a
  cycle.  When every class that the given names reach through superiors is defined, it returns
  exactly the classes reached, and otherwise it reports an unknown class.\<close>

theorem collectObjectClasses_closure:
  "case collectObjectClasses reg names of
     Inl diagnostic \<Rightarrow> \<exists>n. superClosure reg names n \<and> findObjectClass reg n = None
   | Inr classes \<Rightarrow> set classes = closureClasses reg names \<and>
       Collect (superClosure reg names) \<subseteq> Collect (hasObjectClass reg)"
  using collect_closure [of reg names] by (simp add: hasObjectClass_def subset_iff split: sum.splits)

section \<open>What an accepted entry satisfies\<close>

text \<open>The classes of an entry, as the closure of its values of \<^verbatim>\<open>objectClass\<close>, and the conditions on its
  attributes, without the order in which the code checks them.\<close>

definition attribute_conforms :: "SchemaRegistry \<Rightarrow> SchemaObjectClass set \<Rightarrow> string \<Rightarrow> string list \<Rightarrow> bool" where
  "attribute_conforms reg cls name vals \<longleftrightarrow>
     iequals name ''objectClass'' \<or>
     (\<exists>a. schemaAttribute reg name = Some a \<and>
        (\<exists>oc \<in> cls. \<exists>n \<in> set (so_must oc) \<union> set (so_may oc). iequals n name) \<and>
        (sa_single_value a \<longrightarrow> length vals \<le> 1) \<and>
        (\<forall>source. attributeSyntax reg a = Some source \<longrightarrow> sa_syntax source \<noteq> [] \<longrightarrow>
           (\<forall>v \<in> set vals. valueMatchesSyntax (sa_syntax source) v)))"

definition structural_leaf :: "SchemaRegistry \<Rightarrow> SchemaObjectClass set \<Rightarrow> string \<Rightarrow> bool" where
  "structural_leaf reg cls k \<longleftrightarrow>
     (\<exists>oc \<in> cls. so_kind oc = Structural \<and> primaryName oc = k) \<and>
     \<not> (\<exists>oc \<in> cls. so_kind oc = Structural \<and>
          (\<exists>s \<in> set (so_superiors oc). \<exists>p. findObjectClass reg s = Some p \<and> so_kind p = Structural \<and> primaryName p = k))"

definition entry_conforms :: "SchemaRegistry \<Rightarrow> DirectoryEntry \<Rightarrow> bool" where
  "entry_conforms reg entry \<longleftrightarrow>
     (\<exists>names. findValues entry ''objectClass'' = Some names \<and> names \<noteq> [] \<and>
        (\<forall>n. superClosure reg names n \<longrightarrow> hasObjectClass reg n) \<and>
        (\<exists>!k. structural_leaf reg (closureClasses reg names) k) \<and>
        (\<forall>oc \<in> closureClasses reg names. \<forall>n \<in> set (so_must oc). hasNonEmpty entry (toLowerAscii n)) \<and>
        (\<forall>(name, vals) \<in> set (de_attributes entry). attribute_conforms reg (closureClasses reg names) name vals))"


lemma attributeSyntax_None: "attributeSyntax reg a = None \<Longrightarrow> sa_syntax a = []"
  by (rule ccontr) (simp add: attributeSyntax_def numeral_eq_Suc)

lemma lower_objectClass: "toLowerAscii ''objectClass'' = ''objectclass''"
  by code_simp

lemma allowedNames_iff:
  assumes "\<not> iequals name ''objectClass''"
  shows "toLowerAscii name \<in> allowedNames classes \<longleftrightarrow>
    (\<exists>oc \<in> set classes. \<exists>n \<in> set (so_must oc) \<union> set (so_may oc). iequals n name)"
proof -
  have im: "toLowerAscii name \<in> toLowerAscii ` A \<longleftrightarrow> (\<exists>n \<in> A. toLowerAscii n = toLowerAscii name)" for A
    by (auto simp: image_iff eq_commute [of "toLowerAscii name"])
  from assms show ?thesis
    unfolding allowedNames_def iequals_def lower_objectClass by (simp add: im image_Un [symmetric])
qed

lemma validateAttribute_conforms:
  "fst (validateAttribute reg (allowedNames classes) (name, vals)) = Success \<longleftrightarrow>
     attribute_conforms reg (set classes) name vals"
proof (cases "iequals name ''objectClass''")
  case True
  then show ?thesis by (simp add: validateAttribute_def attribute_conforms_def iequals_def lower_objectClass)
next
  case False
  then have no: "toLowerAscii name \<noteq> ''objectclass''" by (simp add: iequals_def lower_objectClass)
  show ?thesis
  proof (cases "schemaAttribute reg name")
    case None
    with no False show ?thesis by (simp add: validateAttribute_def attribute_conforms_def)
  next
    case (Some a)
    show ?thesis
    proof (cases "attributeSyntax reg a")
      case None
      with Some no False show ?thesis using attributeSyntax_None [OF None]
        by (simp add: validateAttribute_def attribute_conforms_def allowedNames_iff [OF False] not_less)
    next
      case (Some source)
      with \<open>schemaAttribute reg name = Some a\<close> no False show ?thesis
        by (simp add: validateAttribute_def attribute_conforms_def allowedNames_iff [OF False] not_less list_all_iff Let_def)
    qed
  qed
qed

lemma validateAttributes_conforms:
  "fst (validateAttributes reg (allowedNames classes) pairs) = Success \<longleftrightarrow>
     (\<forall>(name, vals) \<in> set pairs. attribute_conforms reg (set classes) name vals)"
  by (induction pairs) (auto simp: Let_def validateAttribute_conforms [symmetric])

lemma structuralSuperiors_iff:
  "k \<in> structuralSuperiors reg classes \<longleftrightarrow>
     (\<exists>oc \<in> set classes. so_kind oc = Structural \<and>
        (\<exists>s \<in> set (so_superiors oc). \<exists>p. findObjectClass reg s = Some p \<and> so_kind p = Structural \<and> primaryName p = k))"
proof
  assume "k \<in> structuralSuperiors reg classes"
  then obtain oc s p where "oc \<in> set classes" "so_kind oc = Structural" "s \<in> set (so_superiors oc)"
      "findObjectClass reg s = Some p" "so_kind p = Structural" "primaryName p = k"
    unfolding structuralSuperiors_def List.map_filter_def by auto
  then show "\<exists>oc \<in> set classes. so_kind oc = Structural \<and>
      (\<exists>s \<in> set (so_superiors oc). \<exists>p. findObjectClass reg s = Some p \<and> so_kind p = Structural \<and> primaryName p = k)"
    by (intro bexI [of _ oc] conjI bexI [of _ s] exI [of _ p]) simp_all
next
  assume "\<exists>oc \<in> set classes. so_kind oc = Structural \<and>
      (\<exists>s \<in> set (so_superiors oc). \<exists>p. findObjectClass reg s = Some p \<and> so_kind p = Structural \<and> primaryName p = k)"
  then obtain oc s p where oc: "oc \<in> set classes" "so_kind oc = Structural" "s \<in> set (so_superiors oc)"
      and p: "findObjectClass reg s = Some p" "so_kind p = Structural" "primaryName p = k"
    by blast
  let ?sups = "concat (map so_superiors (filter (\<lambda>oc. so_kind oc = Structural) classes))"
  from oc have "s \<in> set ?sups" by auto
  with p(1) have "p \<in> set (List.map_filter (findObjectClass reg) ?sups)"
    by (simp only: List.map_filter_def set_map set_filter o_def image_iff mem_Collect_eq)
      (intro bexI [of _ s], simp_all)
  with p(2,3) show "k \<in> structuralSuperiors reg classes" unfolding structuralSuperiors_def by auto
qed

lemma leaves_iff: "structuralNames classes - structuralSuperiors reg classes = {k. structural_leaf reg (set classes) k}"
  by (auto simp: structural_leaf_def structuralSuperiors_iff structuralNames_def)

lemma single_leaf: "card {k. P k} = 1 \<longleftrightarrow> (\<exists>!k. P k)"
  by (auto simp: card_1_singleton_iff set_eq_iff)

lemma requiredNames_present:
  "find (\<lambda>name. \<not> hasNonEmpty entry name) (requiredNames classes) = None \<longleftrightarrow>
     (\<forall>oc \<in> set classes. \<forall>n \<in> set (so_must oc). hasNonEmpty entry (toLowerAscii n))"
  by (auto simp: find_None_iff requiredNames_def)

lemma validateEntry_loaded:
  assumes "loaded reg"
  shows "fst (validateEntry reg entry) = Success \<longleftrightarrow> entry_conforms reg entry"
proof (cases "\<exists>names. findValues entry ''objectClass'' = Some names \<and> names \<noteq> []")
  case False
  then have "validateEntry reg entry = (ObjectClassViolation, ''objectClass is required'')"
    using assms by (auto simp: validateEntry_def split: option.splits)
  with False show ?thesis by (auto simp: entry_conforms_def)
next
  case True
  then obtain names where names: "findValues entry ''objectClass'' = Some names" "names \<noteq> []" by blast
  show ?thesis
  proof (cases "collectObjectClasses reg names")
    case (Inl d)
    with collect_closure [of reg names] obtain n where "superClosure reg names n" "\<not> hasObjectClass reg n"
      by (auto simp: hasObjectClass_def)
    with names have "\<not> entry_conforms reg entry" by (auto simp: entry_conforms_def)
    with assms names Inl show ?thesis by (simp add: validateEntry_def)
  next
    case (Inr classes)
    with collect_closure [of reg names]
    have cl: "closureClasses reg names = set classes" "\<forall>n. superClosure reg names n \<longrightarrow> hasObjectClass reg n"
      by (simp_all add: hasObjectClass_def)
    have "entry_conforms reg entry \<longleftrightarrow> (\<exists>!k. structural_leaf reg (set classes) k) \<and>
        find (\<lambda>name. \<not> hasNonEmpty entry name) (requiredNames classes) = None \<and>
        fst (validateAttributes reg (allowedNames classes) (de_attributes entry)) = Success"
      unfolding requiredNames_present validateAttributes_conforms using names cl
      by (simp add: entry_conforms_def)
    then show ?thesis
      unfolding single_leaf [symmetric] leaves_iff [symmetric] using assms names Inr
      by (simp add: validateEntry_def Let_def split: option.splits)
  qed
qed


text \<open>C22: Once a schema is loaded, an entry is accepted exactly when its classes and all their superiors
  are defined, exactly one structural class is not a superior of another, every required
  attribute has a non-empty value, and every other attribute is defined, allowed by a class,
  within its single-value restriction and of its syntax.  Without a schema every entry is
  accepted.\<close>

theorem validateEntry_conforms:
  "fst (validateEntry reg entry) = Success \<longleftrightarrow> (if loaded reg then entry_conforms reg entry else True)"
  using validateEntry_loaded [of reg entry] by (simp add: validateEntry_def)

section \<open>The indices\<close>

text \<open>A lookup through an index finds the definition with that name that was loaded last, and the
  definitions have names, so that \<^verbatim>\<open>names.front()\<close> is defined.\<close>

definition classNamed :: "string \<Rightarrow> SchemaObjectClass \<Rightarrow> bool" where
  "classNamed name oc \<longleftrightarrow> list_ex (\<lambda>n. iequals n name) (so_names oc)"

definition attributeNamed :: "string \<Rightarrow> SchemaAttribute \<Rightarrow> bool" where
  "attributeNamed name a \<longleftrightarrow> list_ex (\<lambda>n. iequals n name) (sa_names a)"

definition registry_ok :: "SchemaRegistry \<Rightarrow> bool" where
  "registry_ok reg \<longleftrightarrow>
     (\<forall>k i. map_of (sr_attribute_index reg) k = Some i \<longrightarrow> i < length (sr_attributes reg)) \<and>
     (\<forall>k i. map_of (sr_object_class_index reg) k = Some i \<longrightarrow> i < length (sr_object_classes reg)) \<and>
     (\<forall>name. schemaAttribute reg name = find (attributeNamed name) (rev (sr_attributes reg))) \<and>
     (\<forall>name. findObjectClass reg name = find (classNamed name) (rev (sr_object_classes reg))) \<and>
     (\<forall>a \<in> set (sr_attributes reg). sa_names a \<noteq> []) \<and>
     (\<forall>oc \<in> set (sr_object_classes reg). so_names oc \<noteq> [])"

lemma registry_ok_empty: "registry_ok emptyRegistry"
  by (simp add: registry_ok_def emptyRegistry_def schemaAttribute_def findObjectClass_def)

lemma map_of_index_names:
  "map_of (fold (\<lambda>name m. smap_put (toLowerAscii name) i m) names m) k =
     (if k \<in> toLowerAscii ` set names then Some i else map_of m k)"
  by (induction names arbitrary: m) (auto simp: map_of_smap_put)

lemma map_option_nth_append:
  "(\<forall>i. q = Some i \<longrightarrow> i < length xs) \<Longrightarrow> map_option (\<lambda>i. (xs @ ys) ! i) q = map_option (\<lambda>i. xs ! i) q"
  by (cases q) (simp_all add: nth_append)

lemma lower_image_iff: "toLowerAscii name \<in> toLowerAscii ` set ns \<longleftrightarrow> list_ex (\<lambda>n. iequals n name) ns"
  by (auto simp: list_ex_iff iequals_def image_iff eq_commute [of "toLowerAscii name"])

lemma registry_ok_addAttribute: "registry_ok reg \<Longrightarrow> sa_names a \<noteq> [] \<Longrightarrow> registry_ok (addAttribute a reg)"
  unfolding registry_ok_def
  by (auto simp: addAttribute_def indexAttribute_def schemaAttribute_def findObjectClass_def map_of_index_names
      lower_image_iff attributeNamed_def less_Suc_eq map_option_nth_append split: if_splits)

lemma registry_ok_addObjectClass: "registry_ok reg \<Longrightarrow> so_names oc \<noteq> [] \<Longrightarrow> registry_ok (addObjectClass oc reg)"
  unfolding registry_ok_def
  by (auto simp: addObjectClass_def indexObjectClass_def schemaAttribute_def findObjectClass_def map_of_index_names
      lower_image_iff classNamed_def less_Suc_eq map_option_nth_append split: if_splits)

lemma registry_ok_loadLoop: "registry_ok reg \<Longrightarrow> registry_ok (snd (loadLoop t pos reg))"
proof (induction t pos reg rule: loadLoop.induct)
  case (1 t pos reg)
  show ?case
  proof (cases "schemaSkip t pos \<ge> length t \<or> pos \<ge> length t")
    case True
    with "1.prems" show ?thesis by (auto simp: loadLoop.simps [of t pos] Let_def)
  next
    case False
    then have inside: "\<not> length t \<le> pos" "\<not> length t \<le> schemaSkip t pos" by simp_all
    show ?thesis
    proof (cases "readWord t (schemaSkip t pos)")
      case None
      with "1.IH"(1) [OF inside(1) refl inside(2) None "1.prems"] inside show ?thesis
        by (simp add: loadLoop.simps [of t pos] Let_def)
    next
      case (Some kp)
      obtain keyword p where kp: "kp = (keyword, p)" by (cases kp)
      note IH = "1.IH"(2-4) [OF inside(1) refl inside(2) Some kp [symmetric]]
      have "registry_ok (snd (loadLoop t q (addAttribute a reg)))"
        if "iequals keyword ''attributetype'' \<or> iequals keyword ''attributetypes''" "parseAttribute t p = Some (a, q)"
        for a q using IH(1) [OF that refl] parseAttribute_result [OF that(2)] registry_ok_addAttribute "1.prems" by simp
      moreover have "registry_ok (snd (loadLoop t q (addObjectClass oc reg)))"
        if "\<not> (iequals keyword ''attributetype'' \<or> iequals keyword ''attributetypes'')"
          "iequals keyword ''objectclass'' \<or> iequals keyword ''objectclasses''" "parseObjectClass t p = Some (oc, q)"
        for oc q using IH(2) [OF that refl] parseObjectClass_result [OF that(3)] registry_ok_addObjectClass "1.prems"
        by simp
      ultimately show ?thesis using IH(3) "1.prems" Some kp inside
        by (auto simp: loadLoop.simps [of t pos] Let_def split: option.splits)
    qed
  qed
qed

lemma registry_ok_loadFile: "registry_ok reg \<Longrightarrow> registry_ok (snd (loadFile file reg))"
  by (simp add: loadFile_def registry_ok_loadLoop split: option.splits)

lemma registry_ok_loadFiles: "registry_ok reg \<Longrightarrow> registry_ok (snd (loadFiles read_file paths ok reg))"
proof (induction paths arbitrary: ok reg)
  case (Cons path paths)
  then show ?case using registry_ok_loadFile [of reg "read_file path"] by (simp add: case_prod_beta)
qed simp

text \<open>C24: Loading a schema directory into a fresh registry, whatever the files contain and also when
  one of them does not parse, leaves the indices in range and in agreement with the lists: a
  lookup by any name, in any case, finds the definition of that name that was loaded last.\<close>

theorem schema_load_invariant:
  "registry_ok (snd (loadDirectory read_file listing directory emptyRegistry))"
  using registry_ok_empty registry_ok_loadFiles by (simp add: loadDirectory_def Let_def)

end
