(* ===== verification/RateLimiter.thy ===== *)
theory RateLimiter
  imports LdapPrelude
begin

text \<open>
  The bind rate limiter, \<^verbatim>\<open>src/simple-ldapd/security/rate_limiter.cpp\<close>.  Times are nanoseconds of
  the steady clock, an argument of the operations; the mutex makes an operation one step.  The
  buckets are an ordered map, as in the code.  The lemmas show how many binds one client address
  can get through in any minute, whatever other clients do and whenever buckets are pruned.
\<close>

record Bucket =
  bk_window_start :: int
  bk_count :: int32

record RateLimiter =
  rl_max_per_minute :: int32
  rl_buckets :: "Bucket smap"

definition kWindow :: int where
  "kWindow = 60 * 1000000000"

definition newLimiter :: "int32 \<Rightarrow> RateLimiter" where
  "newLimiter max_per_minute = \<lparr>rl_max_per_minute = max_per_minute, rl_buckets = []\<rparr>"

definition setMaxPerMinute :: "int32 \<Rightarrow> RateLimiter \<Rightarrow> RateLimiter" where
  "setMaxPerMinute max_per_minute rl = rl\<lparr>rl_max_per_minute := max_per_minute, rl_buckets := []\<rparr>"

text \<open>The host part of an address: a bracketed literal, or what stands before a single colon.\<close>

definition clientKey :: "string \<Rightarrow> string" where
  "clientKey client_id =
     (case (if client_id \<noteq> [] \<and> hd client_id = CHR ''['' then find_char (CHR '']'') client_id else None) of
        Some close \<Rightarrow> take (close + 1) client_id
      | None \<Rightarrow>
          (case rfind_char (CHR '':'') client_id of
             Some colon \<Rightarrow>
               if find_char (CHR '':'') client_id = Some colon then take colon client_id else client_id
           | None \<Rightarrow> client_id))"

definition pruneLocked :: "int \<Rightarrow> Bucket smap \<Rightarrow> Bucket smap" where
  "pruneLocked now buckets =
     (if length buckets < 4096 then buckets
      else filter (\<lambda>it. \<not> now - bk_window_start (snd it) \<ge> kWindow) buckets)"

definition emptyBucket :: Bucket where
  "emptyBucket = \<lparr>bk_window_start = 0, bk_count = 0\<rparr>"

definition bucketOf :: "Bucket smap \<Rightarrow> string \<Rightarrow> Bucket" where
  "bucketOf buckets key = (case map_of buckets key of None \<Rightarrow> emptyBucket | Some b \<Rightarrow> b)"

definition allow :: "string \<Rightarrow> int \<Rightarrow> RateLimiter \<Rightarrow> bool \<times> RateLimiter" where
  "allow client_id now rl =
     (if rl_max_per_minute rl = 0 then (True, rl)
      else let key = clientKey client_id;
               buckets = pruneLocked now (rl_buckets rl);
               bucket = bucketOf buckets key;
               bucket = (if bk_window_start bucket = 0 \<or> now - bk_window_start bucket \<ge> kWindow
                         then \<lparr>bk_window_start = now, bk_count = 0\<rparr> else bucket)
           in if bk_count bucket \<ge> rl_max_per_minute rl then
                (False, rl\<lparr>rl_buckets := smap_put key bucket buckets\<rparr>)
              else (True, rl\<lparr>rl_buckets := smap_put key (bucket\<lparr>bk_count := bk_count bucket + 1\<rparr>) buckets\<rparr>))"

text \<open>A sequence of calls, and the number of admitted ones from one address.\<close>

fun runAllow :: "(string \<times> int) list \<Rightarrow> RateLimiter \<Rightarrow> bool list \<times> RateLimiter" where
  "runAllow [] rl = ([], rl)"
| "runAllow ((client, now) # calls) rl =
     (case allow client now rl of (ok, rl) \<Rightarrow>
        case runAllow calls rl of (oks, rl) \<Rightarrow> (ok # oks, rl))"

definition admitted :: "string \<Rightarrow> (string \<times> int) list \<Rightarrow> bool list \<Rightarrow> nat" where
  "admitted key calls oks = length (filter (\<lambda>((client, _), ok). ok \<and> clientKey client = key) (zip calls oks))"

section \<open>Buckets\<close>

text \<open>A bucket that is in use has admitted at least one bind and at most the limit.\<close>

definition bucket_ok :: "int32 \<Rightarrow> Bucket \<Rightarrow> bool" where
  "bucket_ok m b \<longleftrightarrow> bk_window_start b \<noteq> 0 \<and> 0 < bk_count b \<and> bk_count b \<le> m"

definition limiter_inv :: "RateLimiter \<Rightarrow> bool" where
  "limiter_inv rl \<longleftrightarrow> smap_ok (rl_buckets rl) \<and>
     (\<forall>key b. map_of (rl_buckets rl) key = Some b \<longrightarrow> bucket_ok (rl_max_per_minute rl) b)"

lemma map_of_prune:
  assumes "smap_ok m"
  shows "map_of (pruneLocked now m) key = map_of m key \<or>
    map_of (pruneLocked now m) key = None \<and> (\<exists>b. map_of m key = Some b \<and> now - bk_window_start b \<ge> kWindow)"
proof (cases "map_of (pruneLocked now m) key = map_of m key")
  case False
  then have *: "pruneLocked now m = filter (\<lambda>it. \<not> now - bk_window_start (snd it) \<ge> kWindow) m"
    by (simp add: pruneLocked_def split: if_splits)
  have d: "distinct (map fst m)" using distinct_smap_keys [OF assms] .
  then have d': "distinct (map fst (pruneLocked now m))" unfolding * by (rule distinct_map_filter)
  show ?thesis
  proof (cases "map_of m key")
    case None
    then have "key \<notin> fst ` set m" by (simp add: map_of_eq_None_iff)
    then have "key \<notin> fst ` set (pruneLocked now m)" unfolding * by auto
    then have "map_of (pruneLocked now m) key = None" by (simp add: map_of_eq_None_iff)
    with None False show ?thesis by simp
  next
    case (Some b)
    then have mem: "(key, b) \<in> set m" by (rule map_of_SomeD)
    have old: "now - bk_window_start b \<ge> kWindow"
    proof (rule ccontr)
      assume "\<not> now - bk_window_start b \<ge> kWindow"
      with mem have "(key, b) \<in> set (pruneLocked now m)" unfolding * by simp
      with d' Some False show False by simp
    qed
    have "map_of (pruneLocked now m) key = None"
    proof (rule ccontr)
      assume "map_of (pruneLocked now m) key \<noteq> None"
      then obtain b' where b': "map_of (pruneLocked now m) key = Some b'" by blast
      then have "(key, b') \<in> set (pruneLocked now m)" by (rule map_of_SomeD)
      then have "(key, b') \<in> set m" unfolding * by simp
      with d have "map_of m key = Some b'" by simp
      with b' False show False by simp
    qed
    with Some old show ?thesis by simp
  qed
qed simp

lemma smap_ok_prune: "smap_ok m \<Longrightarrow> smap_ok (pruneLocked now m)"
  by (simp add: pruneLocked_def smap_ok_def sorted_wrt_filter sorted_wrt_map)

lemma prune_bucket:
  assumes "smap_ok m"
  obtains (kept) "bucketOf (pruneLocked now m) key = bucketOf m key"
    | (expired) "bucketOf (pruneLocked now m) key = emptyBucket" "now - bk_window_start (bucketOf m key) \<ge> kWindow"
  using map_of_prune [OF assms, of now key] by (auto simp: bucketOf_def)

lemma bucketOf_put [simp]:
  "bucketOf (smap_put k b m) key = (if key = k then b else bucketOf m key)"
  by (simp add: bucketOf_def map_of_smap_put)

text \<open>The bucket a call works on, and what the call does to it.\<close>

definition freshen :: "int \<Rightarrow> Bucket \<Rightarrow> Bucket" where
  "freshen now b =
     (if bk_window_start b = 0 \<or> now - bk_window_start b \<ge> kWindow
      then \<lparr>bk_window_start = now, bk_count = 0\<rparr> else b)"

lemma freshen_prune:
  assumes "smap_ok m"
  shows "freshen now (bucketOf (pruneLocked now m) key) = freshen now (bucketOf m key)"
  by (cases rule: prune_bucket [OF assms, of now key]) (auto simp: freshen_def emptyBucket_def)

lemma allow_freshen:
  assumes "rl_max_per_minute rl \<noteq> 0" and "b = freshen now (bucketOf m (clientKey client))"
    and "m = pruneLocked now (rl_buckets rl)"
  shows "allow client now rl =
     (bk_count b < rl_max_per_minute rl,
      rl\<lparr>rl_buckets := smap_put (clientKey client)
         (if bk_count b < rl_max_per_minute rl then b\<lparr>bk_count := bk_count b + 1\<rparr> else b) m\<rparr>)"
proof -
  have "allow client now rl = (if bk_count b \<ge> rl_max_per_minute rl
      then (False, rl\<lparr>rl_buckets := smap_put (clientKey client) b m\<rparr>)
      else (True, rl\<lparr>rl_buckets := smap_put (clientKey client) (b\<lparr>bk_count := bk_count b + 1\<rparr>) m\<rparr>))"
    unfolding assms(2,3) allow_def Let_def freshen_def using assms(1) by (rule if_not_P)
  then show ?thesis by (simp add: not_le [symmetric])
qed

lemma allow_own:
  assumes "smap_ok (rl_buckets rl)" "rl_max_per_minute rl \<noteq> 0" "allow client now rl = (ok, rl')"
    and b: "b = freshen now (bucketOf (rl_buckets rl) (clientKey client))"
  shows "ok = (bk_count b < rl_max_per_minute rl)"
    and "bucketOf (rl_buckets rl') (clientKey client) = (if ok then b\<lparr>bk_count := bk_count b + 1\<rparr> else b)"
  using assms(3)
  unfolding allow_freshen [OF assms(2) b [folded freshen_prune [OF assms(1)]] refl]
  by auto

lemma allow_max: "allow client now rl = (ok, rl') \<Longrightarrow> rl_max_per_minute rl' = rl_max_per_minute rl"
proof (cases "rl_max_per_minute rl = 0")
  case False
  then show "allow client now rl = (ok, rl') \<Longrightarrow> ?thesis" by (auto simp: allow_freshen [OF _ refl refl])
qed (simp add: allow_def)

lemma allow_buckets:
  assumes "rl_max_per_minute rl \<noteq> 0" "allow client now rl = (ok, rl')"
  shows "\<exists>b. rl_buckets rl' = smap_put (clientKey client) b (pruneLocked now (rl_buckets rl))"
  using assms(2) unfolding allow_freshen [OF assms(1) refl refl] by auto

lemma count_Suc: "(n :: int32) < m \<Longrightarrow> unat (n + 1) = Suc (unat n)"
proof -
  assume "n < m"
  then have "unat n + 1 < 2 ^ 32"
    using unsigned_less [of m, where ?'a = nat] by (simp add: word_less_nat_alt)
  then show ?thesis by (simp add: unat_word_ariths(1))
qed

lemma limiter_inv_allow:
  assumes inv: "limiter_inv rl" and "now \<noteq> 0" and res: "allow client now rl = (ok, rl')"
  shows "limiter_inv rl'"
proof (cases "rl_max_per_minute rl = 0")
  case True
  with inv res show ?thesis by (simp add: allow_def)
next
  case False
  let ?k = "clientKey client" and ?b = "freshen now (bucketOf (rl_buckets rl) (clientKey client))"
  have sorted: "smap_ok (rl_buckets rl)" using inv by (simp add: limiter_inv_def)
  obtain b where b: "rl_buckets rl' = smap_put ?k b (pruneLocked now (rl_buckets rl))"
    using allow_buckets [OF False res] by blast
  then have "b = bucketOf (rl_buckets rl') ?k" by simp
  then have bb: "b = (if ok then ?b\<lparr>bk_count := bk_count ?b + 1\<rparr> else ?b)"
    and ok: "ok = (bk_count ?b < rl_max_per_minute rl)"
    using allow_own [OF sorted False res refl] by simp_all
  have old: "bucket_ok (rl_max_per_minute rl) x" if "map_of (pruneLocked now (rl_buckets rl)) k = Some x" for k x
    using that inv map_of_prune [OF sorted, of now k] by (auto simp: limiter_inv_def)
  have freshened: "?b = \<lparr>bk_window_start = now, bk_count = 0\<rparr> \<or> bucket_ok (rl_max_per_minute rl) ?b"
    using inv by (auto simp: freshen_def bucketOf_def emptyBucket_def limiter_inv_def split: option.splits)
  have "bucket_ok (rl_max_per_minute rl) b"
  proof (cases ok)
    case True
    with ok have lt: "bk_count ?b < rl_max_per_minute rl" by simp
    have "bk_window_start ?b \<noteq> 0" using freshened assms(2) by (auto simp: bucket_ok_def)
    moreover have "0 < bk_count ?b + 1" "bk_count ?b + 1 \<le> rl_max_per_minute rl"
      using count_Suc [OF lt] lt by (simp_all add: word_less_nat_alt word_le_nat_alt)
    ultimately show ?thesis using True bb by (simp add: bucket_ok_def)
  next
    case False
    with ok \<open>rl_max_per_minute rl \<noteq> 0\<close> have "?b \<noteq> \<lparr>bk_window_start = now, bk_count = 0\<rparr>"
      by (auto simp: word_gt_0)
    with freshened False bb show ?thesis by auto
  qed
  with old show ?thesis
    unfolding limiter_inv_def b by (auto simp: map_of_smap_put smap_ok_put smap_ok_prune [OF sorted] allow_max [OF res])
qed

section \<open>How many binds a minute admits\<close>

text \<open>What a bucket can still admit for its address while the clock stays within one minute from
  \<open>a\<close> on: nothing beyond its count when its window starts in that minute, and one full window
  more when it started before.\<close>

definition quota :: "nat \<Rightarrow> int \<Rightarrow> Bucket \<Rightarrow> nat" where
  "quota m a b =
     (if bk_window_start b = 0 then m
      else if a \<le> bk_window_start b then m - unat (bk_count b)
      else (m - unat (bk_count b)) + m)"

lemma quota_freshen:
  assumes "a \<le> now" "now < a + kWindow" "now \<noteq> 0"
  shows "quota m a (freshen now b) \<le> quota m a b"
  using assms by (auto simp: quota_def freshen_def)

lemma quota_prune:
  assumes "smap_ok buckets" "a \<le> now" "now < a + kWindow"
  shows "quota m a (bucketOf (pruneLocked now buckets) key) \<le> quota m a (bucketOf buckets key)"
  using assms(2,3)
  by (cases rule: prune_bucket [OF assms(1), of now key]) (auto simp: quota_def emptyBucket_def)

lemma quota_allow:
  assumes "smap_ok (rl_buckets rl)" "rl_max_per_minute rl \<noteq> 0"
    and now: "a \<le> now" "now < a + kWindow" "now \<noteq> 0"
    and res: "allow client now rl = (ok, rl')"
  shows "(if ok \<and> clientKey client = key then 1 else 0) +
      quota (unat (rl_max_per_minute rl)) a (bucketOf (rl_buckets rl') key)
    \<le> quota (unat (rl_max_per_minute rl)) a (bucketOf (rl_buckets rl) key)"
proof (cases "clientKey client = key")
  case False
  obtain b where "rl_buckets rl' = smap_put (clientKey client) b (pruneLocked now (rl_buckets rl))"
    using allow_buckets [OF assms(2) res] by blast
  with False quota_prune [OF assms(1) now(1,2), of _ key] show ?thesis by simp
next
  case True
  let ?b = "freshen now (bucketOf (rl_buckets rl) key)" and ?m = "unat (rl_max_per_minute rl)"
  note own = allow_own [OF assms(1,2) res refl, unfolded True]
  have start: "bk_window_start ?b \<noteq> 0" using now(3) by (simp add: freshen_def)
  have "(if ok then 1 else 0) + quota ?m a (bucketOf (rl_buckets rl') key) \<le> quota ?m a ?b"
  proof (cases ok)
    case True
    with own(1) have lt: "bk_count ?b < rl_max_per_minute rl" by simp
    then have "unat (bk_count ?b) < ?m" by (simp add: word_less_nat_alt)
    moreover have "unat (bk_count ?b + 1) = Suc (unat (bk_count ?b))" using count_Suc [OF lt] .
    moreover have "bucketOf (rl_buckets rl') key = ?b\<lparr>bk_count := bk_count ?b + 1\<rparr>" using True own(2) by simp
    ultimately show ?thesis using True start by (auto simp: quota_def)
  next
    case False
    with own(2) show ?thesis by simp
  qed
  with quota_freshen [OF now, of ?m "bucketOf (rl_buckets rl) key"] True show ?thesis by simp
qed

lemma limiter_inv_run:
  "limiter_inv rl \<Longrightarrow> (\<forall>(client, now) \<in> set calls. now \<noteq> 0) \<Longrightarrow> limiter_inv (snd (runAllow calls rl)) \<and>
     rl_max_per_minute (snd (runAllow calls rl)) = rl_max_per_minute rl"
proof (induction calls rl rule: runAllow.induct)
  case (2 client now calls rl)
  obtain ok rl' where a: "allow client now rl = (ok, rl')" by (cases "allow client now rl")
  from 2 a limiter_inv_allow [OF "2.prems"(1) _ a] allow_max [OF a] show ?case
    by (auto split: prod.splits)
qed simp

lemma admitted_run:
  assumes "limiter_inv rl" "rl_max_per_minute rl \<noteq> 0" "0 < a"
    and "\<forall>(client, now) \<in> set calls. a \<le> now \<and> now < a + kWindow"
  shows "admitted key calls (fst (runAllow calls rl)) \<le>
    quota (unat (rl_max_per_minute rl)) a (bucketOf (rl_buckets rl) key)"
  using assms
proof (induction calls arbitrary: rl)
  case (Cons call calls)
  obtain client now where call: "call = (client, now)" by (cases call)
  obtain ok rl' where al: "allow client now rl = (ok, rl')" by (cases "allow client now rl")
  obtain oks rl2 where rest: "runAllow calls rl' = (oks, rl2)" by (cases "runAllow calls rl'")
  have now: "a \<le> now" "now < a + kWindow" "now \<noteq> 0" using Cons.prems(3,4) by (auto simp: call)
  have inv': "limiter_inv rl'" using limiter_inv_allow [OF Cons.prems(1) now(3) al] .
  have "admitted key calls oks \<le> quota (unat (rl_max_per_minute rl)) a (bucketOf (rl_buckets rl') key)"
    using Cons.IH [OF inv'] Cons.prems allow_max [OF al] rest by simp
  moreover have "smap_ok (rl_buckets rl)" using Cons.prems(1) by (simp add: limiter_inv_def)
  note quota_allow [OF this Cons.prems(2) now al, of key]
  ultimately have "(if ok \<and> clientKey client = key then 1 else 0) + admitted key calls oks
      \<le> quota (unat (rl_max_per_minute rl)) a (bucketOf (rl_buckets rl) key)" by linarith
  moreover have "admitted key (call # calls) (fst (runAllow (call # calls) rl)) =
      (if ok \<and> clientKey client = key then 1 else 0) + admitted key calls oks"
    by (simp add: call al rest admitted_def)
  ultimately show ?case by simp
qed (simp add: admitted_def)

lemma quota_bound:
  assumes "limiter_inv rl" "rl_max_per_minute rl \<noteq> 0"
  shows "quota (unat (rl_max_per_minute rl)) a (bucketOf (rl_buckets rl) key)
    \<le> 2 * unat (rl_max_per_minute rl) - 1"
proof -
  have "unat (rl_max_per_minute rl) \<noteq> 0" using assms(2) by (simp add: unat_eq_0)
  moreover have "bk_window_start (bucketOf (rl_buckets rl) key) = 0 \<or>
      1 \<le> unat (bk_count (bucketOf (rl_buckets rl) key))"
    using assms(1)
    by (fastforce simp: limiter_inv_def bucket_ok_def bucketOf_def emptyBucket_def word_less_nat_alt
        split: option.splits)
  ultimately show ?thesis by (auto simp: quota_def)
qed

lemma limiter_inv_new: "limiter_inv (newLimiter m)"
  by (simp add: limiter_inv_def newLimiter_def)

lemma clientKey_port:
  assumes "CHR '':'' \<notin> set host" "CHR '':'' \<notin> set port" "host = [] \<or> hd host \<noteq> CHR ''[''"
  shows "clientKey (host @ '':'' @ port) = host"
proof -
  have first: "find_char (CHR '':'') (host @ '':'' @ port) = Some (length host)"
    using find_char_append [OF assms(1), of port] by simp
  have "find_char (CHR '':'') (rev port @ CHR '':'' # rev host) = Some (length (rev port))"
    using assms(2) by (intro find_char_append) simp
  then have "rfind_char (CHR '':'') (host @ '':'' @ port) = Some (length host)"
    by (simp add: rfind_char_def)
  with first assms(3) show ?thesis by (cases host) (simp_all add: clientKey_def)
qed

section \<open>Properties\<close>

text \<open>C34: Whatever binds were attempted before, by whom and when, no span of one minute admits
  more than \<open>2 * limit - 1\<close> binds from one client address: interleaved attempts of other clients,
  the pruning of the bucket table and a clock that stands still or runs back inside the minute do
  not change that.\<close>

theorem rate_limit_bound:
  assumes "limit \<noteq> 0" and "\<forall>(client, now) \<in> set before. now \<noteq> 0" and "0 < a"
    and "\<forall>(client, now) \<in> set calls. a \<le> now \<and> now < a + kWindow"
    and "rl = snd (runAllow before (newLimiter limit))"
  shows "admitted key calls (fst (runAllow calls rl)) \<le> 2 * unat limit - 1"
proof -
  have inv: "limiter_inv rl" and m: "rl_max_per_minute rl = limit"
    using limiter_inv_run [OF limiter_inv_new assms(2)] assms(5) by (simp_all add: newLimiter_def)
  with assms(1) have "rl_max_per_minute rl \<noteq> 0" by simp
  from admitted_run [OF inv this assms(3,4), of key] quota_bound [OF inv this, of a key] m
  show ?thesis by simp
qed

theorem rate_limit_bound_witness:
  "admitted ''h'' [(''h:1'', 60), (''h:2'', 60), (''h:3'', 60000000001)] (fst (runAllow
     [(''h:1'', 60), (''h:2'', 60), (''h:3'', 60000000001)] (snd (runAllow [(''h:9'', 1)] (newLimiter 2))))) \<le> 3"
proof -
  have "\<forall>(client, now) \<in> set [(''h:9'', 1 :: int)]. now \<noteq> 0"
    "\<forall>(client, now) \<in> set [(''h:1'', 60 :: int), (''h:2'', 60), (''h:3'', 60000000001)]. 60 \<le> now \<and> now < 60 + kWindow"
    by (simp_all add: kWindow_def)
  from rate_limit_bound [OF _ this(1) _ this(2) refl, of 2 "''h''"] show ?thesis by simp
qed

text \<open>The bound is reached: with a limit of two, three binds pass within two seconds, one at
  the end of a window and two at the start of the next one.\<close>

lemma rate_limit_reached:
  "fst (runAllow [(''h:1'', 1), (''h:2'', 59000000000), (''h:3'', 60000000001), (''h:4'', 60000000002), (''h:5'', 60000000003)]
     (newLimiter 2)) = [True, True, True, True, False]"
  by code_simp

end
