(* ===== verification/Session.thy ===== *)
theory Session
  imports Sasl Schema RateLimiter
begin

text \<open>
  A client session, \<^verbatim>\<open>src/simple-ldapd/core/session.cpp\<close>: the handlers of all requests and one round
  of the loop of \<^verbatim>\<open>serve\<close>.  \<open>Server\<close> holds what a session shares and never changes, \<open>World\<close> what it
  shares and changes, \<open>Session\<close> its own members.  The backend is any implementation of the
  abstract class; clocks and the outcome of a TLS handshake are arguments.  A handler is one
  step: its backend calls are each atomic, and no other session's request comes between them.
  The lemmas show that nothing is written without the right to write, that a request that is
  refused changes nothing, which binds succeed, that passwords are not shown, and which handlers
  keep the tree connected.
\<close>

section \<open>State\<close>

text \<open>\<open>sv_tls\<close> is the TLS context: \<open>None\<close> for the null pointer, otherwise whether it is enabled.\<close>

record 's Server =
  sv_config :: LdapConfig
  sv_backend :: "'s Backend"
  sv_crypto :: Crypto
  sv_schema :: "SchemaRegistry option"
  sv_sasl :: "SaslAuthenticator option"
  sv_tls :: "bool option"
  sv_read_file :: "string \<Rightarrow> string option"

record 's World =
  wo_store :: 's
  wo_limiter :: "RateLimiter option"
  wo_rng :: rng

record Session =
  se_bound :: bool
  se_bind_dn :: string
  se_sasl_digest_nonce :: string
  se_peer :: string
  se_tls :: TlsPeer

definition newSession :: "string \<Rightarrow> TlsPeer \<Rightarrow> Session" where
  "newSession peer tls =
     \<lparr>se_bound = False, se_bind_dn = [], se_sasl_digest_nonce = [], se_peer = peer, se_tls = tls\<rparr>"

text \<open>What a request meets outside: the readings of the steady clock in nanoseconds, the time of
  day, what the handshake makes of the connection when one is asked for (\<open>None\<close> when it fails), and
  how many messages can be sent before the connection breaks.\<close>

record Env =
  en_steady :: "nat \<Rightarrow> int"
  en_time :: int
  en_handshake :: "TlsPeer option"
  en_sends :: nat

section \<open>Access and schema\<close>

definition maySearch :: "'s Server \<Rightarrow> Session \<Rightarrow> 's World \<Rightarrow> string \<Rightarrow> bool" where
  "maySearch sv se wo entry_dn = aclMaySearch (sv_config sv) (sv_backend sv) (wo_store wo) (se_bind_dn se) entry_dn"

definition mayWrite :: "'s Server \<Rightarrow> Session \<Rightarrow> 's World \<Rightarrow> string \<Rightarrow> bool" where
  "mayWrite sv se wo entry_dn \<longleftrightarrow>
     se_bound se \<and> aclMayWrite (sv_config sv) (sv_backend sv) (wo_store wo) (se_bind_dn se) entry_dn"

definition checkSchema :: "'s Server \<Rightarrow> DirectoryEntry \<Rightarrow> ResultCode \<times> string" where
  "checkSchema sv entry = (case sv_schema sv of None \<Rightarrow> (Success, []) | Some reg \<Rightarrow> validateEntry reg entry)"

section \<open>Bind\<close>

definition limiterAllows :: "Env \<Rightarrow> Session \<Rightarrow> 's World \<Rightarrow> bool \<times> 's World" where
  "limiterAllows env se wo =
     (case wo_limiter wo of
        None \<Rightarrow> (True, wo)
      | Some rl \<Rightarrow> (case allow (se_peer se) (en_steady env 0) rl of (ok, rl) \<Rightarrow> (ok, wo\<lparr>wo_limiter := Some rl\<rparr>)))"

definition handleBind ::
  "'s Server \<Rightarrow> Env \<Rightarrow> LdapMessage \<Rightarrow> Session \<Rightarrow> 's World \<Rightarrow> LdapMessage \<times> Session \<times> 's World" where
  "handleBind sv env request se wo =
     (let i = msg_id request; b = msg_bind request;
          se = se\<lparr>se_bound := False, se_bind_dn := []\<rparr> in
      if bd_version b \<noteq> 3 then (makeBindResponse i ProtocolError ''only LDAPv3 is supported'' [], se, wo)
      else case limiterAllows env se wo of (ok, wo) \<Rightarrow>
        if \<not> ok then (makeBindResponse i Busy ''bind rate limit exceeded'' [], se, wo)
        else if \<not> bd_simple b then
          (case sv_sasl sv of
             None \<Rightarrow> (makeBindResponse i AuthMethodNotSupported ''SASL bind is not implemented'' [], se, wo)
           | Some enabled \<Rightarrow>
               (case saslBind (sv_crypto sv) (sv_read_file sv) enabled (sv_config sv) (sv_backend sv) (wo_store wo) b
                       (se_tls se) (se_sasl_digest_nonce se) (en_time env) (wo_rng wo) of
                  (outcome, nonce, r) \<Rightarrow>
                    let se = se\<lparr>se_sasl_digest_nonce := nonce\<rparr>;
                        se = (if sb_result outcome = Success
                              then se\<lparr>se_bound := True, se_bind_dn := sb_bind_dn outcome\<rparr> else se)
                    in (makeBindResponse i (sb_result outcome) (sb_diagnostic outcome) (sb_server_creds outcome),
                        se, wo\<lparr>wo_rng := r\<rparr>)))
        else let se = se\<lparr>se_sasl_digest_nonce := []\<rparr> in
          if cf_require_confidentiality (sv_config sv) \<and> \<not> tp_tls (se_tls se) \<and> bd_password b \<noteq> [] then
            (makeBindResponse i ConfidentialityRequired ''confidentiality required'' [], se, wo)
          else let result = authBind (sv_crypto sv) (sv_config sv) (sv_backend sv) (wo_store wo) (bd_dn b) (bd_password b)
            in if result = Success then
                 (makeBindResponse i Success [] [],
                  se\<lparr>se_bound := True,
                     se_bind_dn := if bd_dn b = [] then []
                       else (case resolveName (sv_config sv) (sv_backend sv) (wo_store wo) (bd_dn b) of
                               None \<Rightarrow> bd_dn b
                             | Some dn \<Rightarrow> dn)\<rparr>, wo)
               else (makeBindResponse i result ''invalid credentials'' [], se, wo))"

section \<open>Search\<close>

definition isUserPassword :: "string \<Rightarrow> bool" where
  "isUserPassword name = iequals name ''userPassword''"

definition wantsAllAttributes :: "string list \<Rightarrow> bool" where
  "wantsAllAttributes names = (names = [] \<or> list_ex (\<lambda>name. name = ''*'') names)"

definition wantsNoAttributes :: "string list \<Rightarrow> bool" where
  "wantsNoAttributes names = (length names = 1 \<and> hd names = ''1.1'')"

definition attributeRequested :: "string list \<Rightarrow> string \<Rightarrow> bool" where
  "attributeRequested names attribute = list_ex (\<lambda>name. iequals name attribute) names"

definition toSearchEntry :: "'s Server \<Rightarrow> Session \<Rightarrow> DirectoryEntry \<Rightarrow> SearchRequestData \<Rightarrow> SearchEntryData" where
  "toSearchEntry sv se entry request =
     (if wantsNoAttributes (sd_attributes request) then \<lparr>ed_dn = de_dn entry, ed_attributes = []\<rparr>
      else let all = wantsAllAttributes (sd_attributes request);
               reveal_password = (se_bound se \<and> se_bind_dn se \<noteq> [] \<and> dnEquals (se_bind_dn se) (cf_root_dn (sv_config sv)))
        in \<lparr>ed_dn = de_dn entry,
            ed_attributes =
              map (\<lambda>(name, values). \<lparr>pa_type = name, pa_values = if sd_types_only request then [] else values\<rparr>)
                (filter (\<lambda>(name, values). \<not> (\<not> all \<and> \<not> attributeRequested (sd_attributes request) name) \<and>
                     \<not> (isUserPassword name \<and> \<not> reveal_password)) (de_attributes entry))\<rparr>)"

definition kStartTlsOid :: string where
  "kStartTlsOid = ''1.3.6.1.4.1.1466.20037''"

definition kVersion :: string where
  "kVersion = ''1.0.0''"

definition rootDse :: "'s Server \<Rightarrow> DirectoryEntry" where
  "rootDse sv =
     (let m = smap_push ''objectClass'' ''top'' [];
          m = smap_push ''namingContexts'' (cf_base_dn (sv_config sv)) m;
          m = smap_push ''supportedLDAPVersion'' ''3'' m;
          m = smap_push ''vendorName'' ''SimpleDaemons'' m;
          m = smap_push ''vendorVersion'' kVersion m;
          m = smap_push ''supportedExtension'' kPasswordModifyOid m;
          m = smap_push ''supportedExtension'' kWhoAmIOid m;
          m = smap_push ''supportedControl'' kPagedResultsOid m;
          m = (if cf_enable_starttls (sv_config sv) then smap_push ''supportedExtension'' kStartTlsOid m else m);
          m = (case sv_sasl sv of None \<Rightarrow> m | Some enabled \<Rightarrow> smap_put ''supportedSASLMechanisms'' (advertised enabled) m)
      in \<lparr>de_dn = [], de_attributes = m\<rparr>)"

text \<open>The loop over the controls: the page size and the cookie, or the result that ends the search.\<close>

fun searchControls :: "LdapControl list \<Rightarrow> int32 \<Rightarrow> string \<Rightarrow> (ResultCode \<times> string) + (int32 \<times> string)" where
  "searchControls [] page_size cookie = Inr (page_size, cookie)"
| "searchControls (control # controls) page_size cookie =
     (if iequals (lc_oid control) kPagedResultsOid then
        (case decodePagedResultsValue (lc_value control) of
           None \<Rightarrow> Inl (if lc_critical control then UnavailableCriticalExtension else ProtocolError,
                     ''invalid paged results control'')
         | Some (page_size, cookie) \<Rightarrow> searchControls controls page_size cookie)
      else if lc_critical control then Inl (UnavailableCriticalExtension, ''unsupported critical control'')
      else searchControls controls page_size cookie)"

definition searchMatches :: "'s Server \<Rightarrow> SearchRequestData \<Rightarrow> 's World \<Rightarrow> DirectoryEntry list" where
  "searchMatches sv request wo =
     (let base = sd_base_dn request; found = be_search (sv_backend sv) (wo_store wo) base (sd_scope request) (sd_filter request) in
      if base = [] \<and> sd_scope request \<noteq> OneLevel then
        (if matches (sd_filter request) (rootDse sv) then [rootDse sv] else []) @
        (if sd_scope request = Base then [] else found)
      else found)"

text \<open>\<^verbatim>\<open>static_cast<int>\<close> of a \<^verbatim>\<open>long\<close> or a size.\<close>

definition toInt :: "int \<Rightarrow> int" where
  "toInt n = sint (word_of_int n :: int32)"

text \<open>The cookie: \<open>None\<close> when it is refused.\<close>

definition pageOffset :: "string \<Rightarrow> int option" where
  "pageOffset cookie =
     (if cookie = [] then Some 0
      else case scanInteger (cStr cookie) of
        None \<Rightarrow> None
      | Some (n, others) \<Rightarrow>
          let parsed = clampLong n in
          if others \<noteq> [] \<or> parsed < 0 then None else Some (toInt parsed))"

text \<open>The loop that sends entries, with the entries sent so far; it reads the clock once in every
  round.  The first component of the result is \<open>None\<close> when an entry outside the vector would be
  read, which is undefined.\<close>

function sendEntries ::
  "Env \<Rightarrow> int option \<Rightarrow> int \<Rightarrow> int \<Rightarrow> DirectoryEntry list \<Rightarrow> int \<Rightarrow> DirectoryEntry list \<Rightarrow>
     (DirectoryEntry list \<times> ResultCode) option" where
  "sendEntries env deadline size_limit page_size visible i sent =
     (if \<not> i < toInt (int (length visible)) then Some (sent, Success)
      else if (case deadline of None \<Rightarrow> False | Some d \<Rightarrow> en_steady env (Suc (length sent)) \<ge> d) then Some (sent, TimeLimitExceeded)
      else if size_limit > 0 \<and> int (length sent) \<ge> size_limit then Some (sent, SizeLimitExceeded)
      else if page_size > 0 \<and> int (length sent) \<ge> page_size then Some (sent, Success)
      else if i < 0 \<or> i \<ge> int (length visible) then None
      else sendEntries env deadline size_limit page_size visible (i + 1) (sent @ [visible ! nat i]))"
  by pat_completeness auto
termination
  by (relation "measure (\<lambda>(env, deadline, size_limit, page_size, visible, i, sent). nat (int (length visible) - i))") auto

declare sendEntries.simps [simp del]

text \<open>The checks at the start: the refusal, or the page size and the cookie.\<close>

definition searchChecks ::
  "'s Server \<Rightarrow> LdapMessage \<Rightarrow> Session \<Rightarrow> 's World \<Rightarrow> (ResultCode \<times> string) + (int32 \<times> string)" where
  "searchChecks sv request se wo =
     (let q = msg_search request; base = sd_base_dn q in
      if \<not> sf_valid (sd_filter q) then Inl (ProtocolError, ''invalid search filter'')
      else case searchControls (msg_controls request) (- 1) [] of
        Inl refusal \<Rightarrow> Inl refusal
      | Inr paged \<Rightarrow>
          if base \<noteq> [] \<and> be_lookup (sv_backend sv) (wo_store wo) base = None then Inl (NoSuchObject, ''no such object'')
          else if base \<noteq> [] \<and> \<not> maySearch sv se wo base then Inl (InsufficientAccessRights, ''insufficient access'')
          else Inr paged)"

definition visibleEntries :: "'s Server \<Rightarrow> SearchRequestData \<Rightarrow> Session \<Rightarrow> 's World \<Rightarrow> DirectoryEntry list" where
  "visibleEntries sv q se wo = filter (\<lambda>entry. maySearch sv se wo (de_dn entry)) (searchMatches sv q wo)"

text \<open>The final message, with the control of a paged search.\<close>

definition searchDone :: "int32 \<Rightarrow> ResultCode \<Rightarrow> int32 \<Rightarrow> int \<Rightarrow> int \<Rightarrow> nat \<Rightarrow> LdapMessage" where
  "searchDone i done_result page_size offset visible_size sent =
     (let dn = makeSearchDone i done_result [] in
      if sint page_size > 0 then
        let nxt = offset + int sent;
            next_cookie = (if nxt < visible_size \<and> done_result \<noteq> SizeLimitExceeded then toStringInt nxt else []);
            left = max 0 (visible_size - nxt)
        in dn\<lparr>msg_controls := [makePagedResultsControl (word_of_int left) next_cookie False]\<rparr>
      else dn)"

text \<open>The number of remaining entries is computed in an \<^verbatim>\<open>int\<close>; with a negative offset it may not fit, which is undefined.\<close>

definition remainingOverflows :: "int32 \<Rightarrow> int \<Rightarrow> int \<Rightarrow> nat \<Rightarrow> bool" where
  "remainingOverflows page_size offset visible_size sent \<longleftrightarrow> sint page_size > 0 \<and> visible_size - (offset + int sent) \<ge> 2 ^ 31"

text \<open>The messages a search sends, in order; when a send fails the function returns and the rest is
  not sent.  \<open>None\<close> is undefined behaviour.\<close>

definition handleSearch :: "'s Server \<Rightarrow> Env \<Rightarrow> LdapMessage \<Rightarrow> Session \<Rightarrow> 's World \<Rightarrow> LdapMessage list option" where
  "handleSearch sv env request se wo =
     (let i = msg_id request; q = msg_search request in
      case searchChecks sv request se wo of
        Inl (code, diagnostic) \<Rightarrow> Some [makeSearchDone i code diagnostic]
      | Inr (page_size, cookie) \<Rightarrow>
          let visible = visibleEntries sv q se wo in
          case pageOffset cookie of
            None \<Rightarrow> Some [makeSearchDone i ProtocolError ''invalid paged results cookie'']
          | Some offset \<Rightarrow>
              if page_size = 0 then
                Some [(makeSearchDone i Success [])\<lparr>msg_controls := [makePagedResultsControl 0 [] False]\<rparr>]
              else let deadline = (if sint (sd_time_limit q) > 0
                                   then Some (en_steady env 0 + sint (sd_time_limit q) * 1000000000) else None) in
                case sendEntries env deadline (sint (sd_size_limit q)) (sint page_size) visible offset [] of
                  None \<Rightarrow> None
                | Some (sent, done_result) \<Rightarrow>
                    if remainingOverflows page_size offset (toInt (int (length visible))) (length sent) then None
                    else Some (map (\<lambda>entry. makeSearchEntry i (toSearchEntry sv se entry q)) sent @
                      [searchDone i done_result page_size offset (toInt (int (length visible))) (length sent)]))"

section \<open>Updates\<close>

text \<open>Storing the outcome of a backend update and persisting it; \<^verbatim>\<open>persist\<close> is only called after success.\<close>

definition persisted :: "'s Server \<Rightarrow> 's \<Rightarrow> 's World \<Rightarrow> 's World" where
  "persisted sv s wo = wo\<lparr>wo_store := be_persist (sv_backend sv) s\<rparr>"

definition handleAdd :: "'s Server \<Rightarrow> LdapMessage \<Rightarrow> Session \<Rightarrow> 's World \<Rightarrow> LdapMessage \<times> 's World" where
  "handleAdd sv request se wo =
     (let result = makeLdapResult (msg_id request) AddResponse; B = sv_backend sv; s = wo_store wo;
          dn = ad_dn (msg_add request) in
      if \<not> mayWrite sv se wo dn then (result InsufficientAccessRights ''insufficient access'', wo)
      else if dn = [] then (result InvalidDnSyntax ''empty DN'', wo)
      else if be_lookup B s dn \<noteq> None then (result EntryAlreadyExists ''entry already exists'', wo)
      else if dnParent dn \<noteq> [] \<and> be_lookup B s (dnParent dn) = None then
        (result NamingViolation ''parent does not exist'', wo)
      else case encodeUserPasswords (sv_crypto sv) (toDirectoryEntry (msg_add request)) (wo_rng wo) of
        (entry, r) \<Rightarrow>
          let wo = wo\<lparr>wo_rng := r\<rparr> in
          case checkSchema sv entry of (schema, diagnostic) \<Rightarrow>
            if schema \<noteq> Success then (result schema diagnostic, wo)
            else case be_add B s entry of (ok, s) \<Rightarrow>
              if \<not> ok then (result OperationsError ''add failed'', wo\<lparr>wo_store := s\<rparr>)
              else (result Success [], persisted sv s wo))"

definition handleModify :: "'s Server \<Rightarrow> LdapMessage \<Rightarrow> Session \<Rightarrow> 's World \<Rightarrow> LdapMessage \<times> 's World" where
  "handleModify sv request se wo =
     (let result = makeLdapResult (msg_id request) ModifyResponse; B = sv_backend sv; s = wo_store wo;
          dn = md_dn (msg_modify request) in
      if \<not> mayWrite sv se wo dn then (result InsufficientAccessRights ''insufficient access'', wo)
      else case be_lookup B s dn of
        None \<Rightarrow> (result NoSuchObject ''no such object'', wo)
      | Some entry \<Rightarrow>
          (case encodeUserPasswordChanges (sv_crypto sv) (md_changes (msg_modify request)) (wo_rng wo) of
             (changes, r) \<Rightarrow>
               let wo = wo\<lparr>wo_rng := r\<rparr> in
               case applyModifications entry changes of (applied, entry) \<Rightarrow>
                 if applied \<noteq> Success then (result applied (toString applied), wo)
                 else case checkSchema sv entry of (schema, diagnostic) \<Rightarrow>
                   if schema \<noteq> Success then (result schema diagnostic, wo)
                   else case be_modify B s entry of (ok, s) \<Rightarrow>
                     if \<not> ok then (result OperationsError ''modify failed'', wo\<lparr>wo_store := s\<rparr>)
                     else (result Success [], persisted sv s wo)))"

definition handleDelete :: "'s Server \<Rightarrow> LdapMessage \<Rightarrow> Session \<Rightarrow> 's World \<Rightarrow> LdapMessage \<times> 's World" where
  "handleDelete sv request se wo =
     (let result = makeLdapResult (msg_id request) DelResponse; B = sv_backend sv; s = wo_store wo;
          dn = msg_delete_dn request in
      if \<not> mayWrite sv se wo dn then (result InsufficientAccessRights ''insufficient access'', wo)
      else if be_lookup B s dn = None then (result NoSuchObject ''no such object'', wo)
      else if be_hasChildren B s dn then (result NotAllowedOnNonLeaf ''entry has children'', wo)
      else case be_remove B s dn of (ok, s) \<Rightarrow>
        if \<not> ok then (result OperationsError ''delete failed'', wo\<lparr>wo_store := s\<rparr>)
        else (result Success [], persisted sv s wo))"

text \<open>The attribute changes of a rename: the old naming value goes when asked for, the new one comes.
  A value that is absent or present already is no error.\<close>

definition removeOldRdn :: "ModifyDnRequestData \<Rightarrow> DirectoryEntry \<Rightarrow> ResultCode \<times> DirectoryEntry" where
  "removeOldRdn q entry =
     (case (if dd_delete_old_rdn q then parseRdn (dnRdn (dd_dn q)) else None) of
        None \<Rightarrow> (Success, entry)
      | Some (old_type, old_value) \<Rightarrow>
          (case applyModifications entry [\<lparr>am_op = Delete, am_type = old_type, am_values = [old_value]\<rparr>] of
             (removed, entry) \<Rightarrow> (if removed = NoSuchAttribute then Success else removed, entry)))"

definition addNewRdn :: "ModifyDnRequestData \<Rightarrow> DirectoryEntry \<Rightarrow> ResultCode \<times> DirectoryEntry" where
  "addNewRdn q entry =
     (case parseRdn (dd_new_rdn q) of
        None \<Rightarrow> (Success, entry)
      | Some (new_type, new_value) \<Rightarrow>
          (case applyModifications entry [\<lparr>am_op = Add, am_type = new_type, am_values = [new_value]\<rparr>] of
             (added, entry) \<Rightarrow> (if added = AttributeOrValueExists then Success else added, entry)))"

definition handleModifyDn :: "'s Server \<Rightarrow> LdapMessage \<Rightarrow> Session \<Rightarrow> 's World \<Rightarrow> LdapMessage \<times> 's World" where
  "handleModifyDn sv request se wo =
     (let result = makeLdapResult (msg_id request) ModifyDNResponse; B = sv_backend sv; s = wo_store wo;
          q = msg_modify_dn request;
          parent = (if dd_new_superior q = [] then dnParent (dd_dn q) else dd_new_superior q);
          new_dn = composeDn (dd_new_rdn q) parent in
      if dd_new_rdn q = [] then (result InvalidDnSyntax ''empty new RDN'', wo)
      else if \<not> mayWrite sv se wo (dd_dn q) \<or> \<not> mayWrite sv se wo new_dn then
        (result InsufficientAccessRights ''insufficient access'', wo)
      else case be_lookup B s (dd_dn q) of
        None \<Rightarrow> (result NoSuchObject ''no such object'', wo)
      | Some entry \<Rightarrow>
          if parent \<noteq> [] \<and> be_lookup B s parent = None then
            (result NamingViolation ''new parent does not exist'', wo)
          else if \<not> dnEquals new_dn (dd_dn q) \<and> be_lookup B s new_dn \<noteq> None then
            (result EntryAlreadyExists ''target DN exists'', wo)
          else case removeOldRdn q entry of (removed, entry) \<Rightarrow>
            if removed \<noteq> Success then (result removed (toString removed), wo)
            else case addNewRdn q entry of (added, entry) \<Rightarrow>
              if added \<noteq> Success then (result added (toString added), wo)
              else case checkSchema sv entry of (schema, diagnostic) \<Rightarrow>
                if schema \<noteq> Success then (result schema diagnostic, wo)
                else case be_modify B s entry of (ok, s) \<Rightarrow>
                  if \<not> ok then (result OperationsError ''modify DN attributes failed'', wo\<lparr>wo_store := s\<rparr>)
                  else case be_rename B s (dd_dn q) new_dn of (ok, s) \<Rightarrow>
                    if \<not> ok then (result OperationsError ''rename failed'', wo\<lparr>wo_store := s\<rparr>)
                    else (result Success [], persisted sv s wo))"

section \<open>Compare and the extended operations\<close>

definition handleCompare :: "'s Server \<Rightarrow> LdapMessage \<Rightarrow> Session \<Rightarrow> 's World \<Rightarrow> LdapMessage" where
  "handleCompare sv request se wo =
     (let result = makeLdapResult (msg_id request) CompareResponse; q = msg_compare request in
      if cd_dn q = [] \<or> cd_attribute q = [] then result ProtocolError ''invalid compare request''
      else if \<not> maySearch sv se wo (cd_dn q) then result InsufficientAccessRights ''insufficient access''
      else case be_lookup (sv_backend sv) (wo_store wo) (cd_dn q) of
        None \<Rightarrow> result NoSuchObject ''no such object''
      | Some entry \<Rightarrow>
          (case findValues entry (cd_attribute q) of
             None \<Rightarrow> result NoSuchAttribute ''no such attribute''
           | Some values \<Rightarrow>
               let matched = (if isUserPassword (cd_attribute q)
                              then list_ex (\<lambda>v. verifyUserPassword (sv_crypto sv) v (cd_value q)) values
                              else list_ex (\<lambda>v. iequals v (cd_value q)) values)
               in result (if matched then CompareTrue else CompareFalse) []))"

definition handleWhoAmI :: "LdapMessage \<Rightarrow> Session \<Rightarrow> LdapMessage" where
  "handleWhoAmI request se =
     (let response = (makeLdapResult (msg_id request) ExtendedResponse Success [])\<lparr>msg_extended_oid := kWhoAmIOid\<rparr>
      in if se_bind_dn se \<noteq> [] then response\<lparr>msg_extended_value := ''dn:'' @ se_bind_dn se\<rparr> else response)"

text \<open>The checks before a password is changed: the refusal, or the name of the entry and the new
  password.\<close>

definition passwordTarget ::
  "'s Server \<Rightarrow> LdapMessage \<Rightarrow> Session \<Rightarrow> 's World \<Rightarrow> (ResultCode \<times> string) + (string \<times> string)" where
  "passwordTarget sv request se wo =
     (let B = sv_backend sv; s = wo_store wo; c = sv_config sv in
      if \<not> se_bound se \<or> se_bind_dn se = [] then Inl (InsufficientAccessRights, ''bind required'')
      else if cf_require_confidentiality c \<and> \<not> tp_tls (se_tls se) then
        Inl (ConfidentialityRequired, ''confidentiality required'')
      else case decodePasswordModifyValue (msg_extended_value request) of
        None \<Rightarrow> Inl (ProtocolError, ''invalid password modify request'')
      | Some change \<Rightarrow>
          (case pm_new_password change of
             None \<Rightarrow> Inl (UnwillingToPerform, ''new password is required'')
           | Some new_password \<Rightarrow>
               if new_password = [] then Inl (UnwillingToPerform, ''new password is required'')
               else let identity = (if pm_user_identity change = [] then se_bind_dn se else pm_user_identity change) in
                 case resolveName c B s identity of
                   None \<Rightarrow> Inl (NoSuchObject, ''no such object'')
                 | Some target \<Rightarrow>
                     if cf_root_dn c \<noteq> [] \<and> dnEquals target (cf_root_dn c) then
                       Inl (UnwillingToPerform, ''root_password is configured, not an entry'')
                     else let as_root = (cf_root_dn c \<noteq> [] \<and> dnEquals (se_bind_dn se) (cf_root_dn c));
                              as_self = dnEquals (se_bind_dn se) target in
                       if \<not> as_root \<and> \<not> as_self \<and> \<not> mayWrite sv se wo target then
                         Inl (InsufficientAccessRights, ''cannot change another password'')
                       else if (case pm_old_password change of
                                  None \<Rightarrow> False
                                | Some old \<Rightarrow> authBind (sv_crypto sv) c B s target old \<noteq> Success) then
                         Inl (InvalidCredentials, ''invalid credentials'')
                       else Inr (target, new_password)))"

definition handlePasswordModify :: "'s Server \<Rightarrow> LdapMessage \<Rightarrow> Session \<Rightarrow> 's World \<Rightarrow> LdapMessage \<times> 's World" where
  "handlePasswordModify sv request se wo =
     (let result = makeLdapResult (msg_id request) ExtendedResponse; B = sv_backend sv; s = wo_store wo in
      case passwordTarget sv request se wo of
        Inl (code, diagnostic) \<Rightarrow> (result code diagnostic, wo)
      | Inr (target, new_password) \<Rightarrow>
          (case be_lookup B s target of
             None \<Rightarrow> (result NoSuchObject ''no such object'', wo)
           | Some entry \<Rightarrow>
               (case encodeUserPassword (sv_crypto sv) new_password (wo_rng wo) of (stored, r) \<Rightarrow>
                  let wo = wo\<lparr>wo_rng := r\<rparr> in
                  case applyModifications entry
                         [\<lparr>am_op = Replace, am_type = ''userPassword'', am_values = [stored]\<rparr>] of
                    (applied, entry) \<Rightarrow>
                      if applied \<noteq> Success then (result applied (toString applied), wo)
                      else case checkSchema sv entry of (schema, diagnostic) \<Rightarrow>
                        if schema \<noteq> Success then (result schema diagnostic, wo)
                        else case be_modify B s entry of (ok, s) \<Rightarrow>
                          if \<not> ok then (result OperationsError ''password modify failed'', wo\<lparr>wo_store := s\<rparr>)
                          else (result Success [], persisted sv s wo))))"

section \<open>The loop\<close>

text \<open>How a round ends: the loop goes on, the session ends, or the behaviour is undefined.\<close>

datatype Outcome = Continue | Finished | Undefined

type_synonym 's round = "Outcome \<times> LdapMessage list \<times> Session \<times> 's World"

text \<open>Sending messages in order: the ones that went out, and the end of the session at the first
  failure.\<close>

definition deliver :: "Env \<Rightarrow> LdapMessage list \<Rightarrow> Session \<Rightarrow> 's World \<Rightarrow> 's round" where
  "deliver env msgs se wo =
     (if length msgs \<le> en_sends env then Continue else Finished, take (en_sends env) msgs, se, wo)"

definition startTlsAvailable :: "'s Server \<Rightarrow> Session \<Rightarrow> bool" where
  "startTlsAvailable sv se \<longleftrightarrow>
     cf_enable_starttls (sv_config sv) \<and> sv_tls sv = Some True \<and> \<not> tp_tls (se_tls se)"

definition handleExtended ::
  "'s Server \<Rightarrow> LdapMessage \<Rightarrow> Session \<Rightarrow> 's World \<Rightarrow> LdapMessage \<times> 's World" where
  "handleExtended sv request se wo =
     (if msg_extended_oid request = kStartTlsOid then
        (makeLdapResult (msg_id request) ExtendedResponse UnwillingToPerform
           (if tp_tls (se_tls se) then ''TLS already active'' else ''StartTLS is not available''), wo)
      else if msg_extended_oid request = kPasswordModifyOid then handlePasswordModify sv request se wo
      else if msg_extended_oid request = kWhoAmIOid then (handleWhoAmI request se, wo)
      else (makeLdapResult (msg_id request) ExtendedResponse UnwillingToPerform
              ''extended operations not implemented'', wo))"

text \<open>The switch over the operations that answer with one message.\<close>

definition dispatch ::
  "'s Server \<Rightarrow> Env \<Rightarrow> LdapMessage \<Rightarrow> Session \<Rightarrow> 's World \<Rightarrow> LdapMessage \<times> Session \<times> 's World" where
  "dispatch sv env request se wo =
     (let keep = (\<lambda>(response, wo). (response, se, wo)) in
      case msg_op request of
        BindRequest \<Rightarrow> handleBind sv env request se wo
      | ModifyRequest \<Rightarrow> keep (handleModify sv request se wo)
      | AddRequest \<Rightarrow> keep (handleAdd sv request se wo)
      | DelRequest \<Rightarrow> keep (handleDelete sv request se wo)
      | ModifyDNRequest \<Rightarrow> keep (handleModifyDn sv request se wo)
      | CompareRequest \<Rightarrow> keep (handleCompare sv request se wo, wo)
      | ExtendedRequest \<Rightarrow> keep (handleExtended sv request se wo)
      | _ \<Rightarrow> keep (makeLdapResult (msg_id request) SearchResultDone ProtocolError ''unsupported operation'', wo))"

definition processRequest :: "'s Server \<Rightarrow> Env \<Rightarrow> LdapMessage \<Rightarrow> Session \<Rightarrow> 's World \<Rightarrow> 's round" where
  "processRequest sv env request se wo =
     (if msg_op request = UnbindRequest then (Finished, [], se, wo)
      else if msg_op request = SearchRequest then
        (case handleSearch sv env request se wo of
           None \<Rightarrow> (Undefined, [], se, wo)
         | Some msgs \<Rightarrow> deliver env msgs se wo)
      else if msg_op request = ExtendedRequest \<and> msg_extended_oid request = kStartTlsOid \<and> startTlsAvailable sv se then
        (let success = makeLdapResult (msg_id request) ExtendedResponse Success [] in
         if en_sends env = 0 then (Finished, [], se, wo)
         else case en_handshake env of
           None \<Rightarrow> (Finished, [success], se, wo)
         | Some peer \<Rightarrow> (Continue, [success], se\<lparr>se_tls := peer\<lparr>tp_tls := True\<rparr>\<rparr>, wo))
      else case dispatch sv env request se wo of (response, se, wo) \<Rightarrow> deliver env [response] se wo)"

text \<open>What one round of the loop meets; the idle timeout is an unsigned number of seconds: \<^verbatim>\<open>running_\<close> is false; nothing to read for 200 milliseconds;
  \<^verbatim>\<open>recvPdu\<close> fails; a unit arrives.  Times are readings of the steady clock.\<close>

datatype Event = Stopping | Quiet int | Broken | Received int bytes Env

definition serveRound :: "'s Server \<Rightarrow> Event \<Rightarrow> int \<Rightarrow> Session \<Rightarrow> 's World \<Rightarrow> int \<times> 's round" where
  "serveRound sv event last_activity se wo =
     (case event of
        Stopping \<Rightarrow> (last_activity, Finished, [], se, wo)
      | Quiet now \<Rightarrow>
          (last_activity,
           if cf_idle_timeout (sv_config sv) > 0 \<and>
              now - last_activity \<ge> uint (cf_idle_timeout (sv_config sv)) * 1000000000
           then Finished else Continue, [], se, wo)
      | Broken \<Rightarrow> (last_activity, Finished, [], se, wo)
      | Received now pdu env \<Rightarrow>
          (now,
           case decodeLdapMessage pdu of
             None \<Rightarrow> (Finished, [], se, wo)
           | Some request \<Rightarrow> processRequest sv env request se wo))"

fun serve :: "'s Server \<Rightarrow> Event list \<Rightarrow> int \<Rightarrow> Session \<Rightarrow> 's World \<Rightarrow> 's round" where
  "serve sv [] last_activity se wo = (Continue, [], se, wo)"
| "serve sv (event # events) last_activity se wo =
     (case serveRound sv event last_activity se wo of
        (last_activity, Continue, out, se, wo) \<Rightarrow>
          (case serve sv events last_activity se wo of (outcome, out', se, wo) \<Rightarrow> (outcome, out @ out', se, wo))
      | (_, outcome, out, se, wo) \<Rightarrow> (outcome, out, se, wo))"

end
