(* ===== verification/SessionSafety.thy ===== *)
theory SessionSafety
  imports Session
begin

text \<open>
  What the update handlers of a session do to the directory, over any backend that meets the
  \<open>directory\<close> contract: each handler either refuses and leaves the directory as it was, or
  succeeds, and then the lemma names the right that was checked and the exact change.  From these
  follow the safety properties of whole requests.
\<close>

section \<open>Effects of the handlers\<close>

lemma msg_result_make [simp]: "msg_result (makeLdapResult i op code diag) = code"
  by (simp add: makeLdapResult_def)

lemma wo_store_persisted [simp]: "wo_store (persisted sv s wo) = be_persist (sv_backend sv) s"
  "wo_limiter (persisted sv s wo) = wo_limiter wo"
  by (simp_all add: persisted_def)

lemma de_dn_applyModifications [simp]: "de_dn (snd (applyModifications e cs)) = de_dn e"
  by (simp add: applyModifications_def case_prod_beta)

lemma de_dn_encodeUserPasswords [simp]: "de_dn (fst (encodeUserPasswords cr e r)) = de_dn e"
  by (simp add: encodeUserPasswords_def case_prod_beta)

lemma de_dn_toDirectoryEntry [simp]: "de_dn (toDirectoryEntry a) = ad_dn a"
  by (simp add: toDirectoryEntry_def)

lemma de_dn_removeOldRdn [simp]: "de_dn (snd (removeOldRdn q e)) = de_dn e"
  by (auto simp: removeOldRdn_def case_prod_beta split: option.splits)

lemma de_dn_addNewRdn [simp]: "de_dn (snd (addNewRdn q e)) = de_dn e"
  by (auto simp: addNewRdn_def case_prod_beta split: option.splits)

lemma passwordTarget_refusal: "passwordTarget sv request se wo = Inl (code, diag) \<Longrightarrow> code \<noteq> Success"
  unfolding passwordTarget_def Let_def by (elim if_split [THEN iffD1, elim_format]) (auto split: option.splits if_splits)

text \<open>Whose password a request may change.\<close>

lemma passwordTarget_Inr:
  assumes "passwordTarget sv request se wo = Inr (target, new_password)"
  shows "se_bound se" "se_bind_dn se \<noteq> []" "cf_require_confidentiality (sv_config sv) \<longrightarrow> tp_tls (se_tls se)"
    "dnEquals (se_bind_dn se) target \<or> mayWrite sv se wo target"
    "new_password \<noteq> []" "\<not> (cf_root_dn (sv_config sv) \<noteq> [] \<and> dnEquals target (cf_root_dn (sv_config sv)))"
    "\<exists>change. decodePasswordModifyValue (msg_extended_value request) = Some change \<and>
       pm_new_password change = Some new_password \<and>
       resolveName (sv_config sv) (sv_backend sv) (wo_store wo)
         (if pm_user_identity change = [] then se_bind_dn se else pm_user_identity change) = Some target \<and>
       (\<forall>old. pm_old_password change = Some old \<longrightarrow>
          authBind (sv_crypto sv) (sv_config sv) (sv_backend sv) (wo_store wo) target old = Success)"
proof -
  let ?c = "sv_config sv"
  show bound: "se_bound se" "se_bind_dn se \<noteq> []"
    by (rule ccontr, use assms in \<open>simp add: passwordTarget_def\<close>)+
  show tls: "cf_require_confidentiality ?c \<longrightarrow> tp_tls (se_tls se)"
    by (rule ccontr, use assms bound in \<open>simp add: passwordTarget_def\<close>)
  then have tls': "(cf_require_confidentiality ?c \<and> \<not> tp_tls (se_tls se)) = False" by simp
  obtain change where d: "decodePasswordModifyValue (msg_extended_value request) = Some change"
    using assms bound tls' by (cases "decodePasswordModifyValue (msg_extended_value request)")
      (auto simp: passwordTarget_def)
  obtain new where n: "pm_new_password change = Some new" "new \<noteq> []"
  proof (cases "pm_new_password change")
    case None
    with assms bound tls' d show ?thesis by (simp add: passwordTarget_def Let_def)
  next
    case (Some new)
    moreover have "new \<noteq> []"
      by (rule ccontr, use assms bound tls' d Some in \<open>simp add: passwordTarget_def Let_def\<close>)
    ultimately show ?thesis by (rule that)
  qed
  let ?identity = "if pm_user_identity change = [] then se_bind_dn se else pm_user_identity change"
  obtain dn where r: "resolveName ?c (sv_backend sv) (wo_store wo) ?identity = Some dn"
    using assms bound tls' d n by (cases "resolveName ?c (sv_backend sv) (wo_store wo) ?identity")
      (simp_all add: passwordTarget_def Let_def)
  have root: "\<not> (cf_root_dn ?c \<noteq> [] \<and> dnEquals dn (cf_root_dn ?c))"
    by (rule ccontr, use assms bound tls' d n r in \<open>simp add: passwordTarget_def Let_def\<close>)
  have self: "isRoot ?c (se_bind_dn se) \<or> dnEquals (se_bind_dn se) dn \<or> mayWrite sv se wo dn"
    by (rule ccontr, use assms bound tls' d n r root in \<open>simp add: passwordTarget_def Let_def isRoot_def\<close>)
  have old: "authBind (sv_crypto sv) ?c (sv_backend sv) (wo_store wo) dn old = Success"
    if "pm_old_password change = Some old" for old
    by (rule ccontr, use assms bound tls' d n r root self that in
        \<open>auto simp: passwordTarget_def Let_def isRoot_def split: if_splits\<close>)
  have tg: "passwordTarget sv request se wo = Inr (dn, new)"
    using bound tls' d n r root self old
    by (auto simp: passwordTarget_def Let_def isRoot_def split: option.splits)
  with assms have eq: "target = dn" "new_password = new" by simp_all
  show "dnEquals (se_bind_dn se) target \<or> mayWrite sv se wo target"
    using self bound eq by (auto simp: mayWrite_def aclMayWrite_iff)
  show "new_password \<noteq> []" "\<not> (cf_root_dn ?c \<noteq> [] \<and> dnEquals target (cf_root_dn ?c))" using n root eq by simp_all
  show "\<exists>change. decodePasswordModifyValue (msg_extended_value request) = Some change \<and>
       pm_new_password change = Some new_password \<and>
       resolveName (sv_config sv) (sv_backend sv) (wo_store wo)
         (if pm_user_identity change = [] then se_bind_dn se else pm_user_identity change) = Some target \<and>
       (\<forall>old. pm_old_password change = Some old \<longrightarrow>
          authBind (sv_crypto sv) (sv_config sv) (sv_backend sv) (wo_store wo) target old = Success)"
    using d n r old unfolding eq by (intro exI [of _ change]) simp
qed

context directory
begin

lemma lookup_name: "inv s \<Longrightarrow> be_lookup B s dn = Some e \<Longrightarrow> toLowerAscii (de_dn e) = toLowerAscii dn \<and> dn \<noteq> []"
  using names [of s "toLowerAscii dn" e] by (auto simp: lookup_abs)

lemma modify_found:
  assumes "inv s" "abs s (toLowerAscii (de_dn e)) \<noteq> None" "be_modify B s e = (ok, s')"
  shows "ok \<and> inv s' \<and> abs s' = (abs s)(toLowerAscii (de_dn e) \<mapsto> e)"
  using modify_abs [OF assms(1,3)] assms(2) by simp

lemma add_effect:
  assumes "inv (wo_store wo)" "sv_backend sv = B" "handleAdd sv request se wo = (resp, wo')"
  defines "dn \<equiv> ad_dn (msg_add request)"
    and "e \<equiv> fst (encodeUserPasswords (sv_crypto sv) (toDirectoryEntry (msg_add request)) (wo_rng wo))"
  shows "inv (wo_store wo') \<and> wo_limiter wo' = wo_limiter wo \<and>
    (if msg_result resp = Success
     then mayWrite sv se wo dn \<and> dn \<noteq> [] \<and> abs (wo_store wo) (toLowerAscii dn) = None \<and>
       (dnParent dn = [] \<or> abs (wo_store wo) (toLowerAscii (dnParent dn)) \<noteq> None) \<and> fst (checkSchema sv e) = Success \<and>
       abs (wo_store wo') = (abs (wo_store wo))(toLowerAscii dn \<mapsto> e)
     else abs (wo_store wo') = abs (wo_store wo))"
proof -
  have [simp]: "de_dn e = dn" by (simp add: e_def dn_def)
  obtain ok s' where a: "be_add B (wo_store wo) e = (ok, s')" by fastforce
  note ab = add_abs [OF assms(1) a] persist_abs [of s']
  show ?thesis
    using assms(1,3) ab unfolding handleAdd_def Let_def assms(2) lookup_abs [OF assms(1)] dn_def [symmetric]
    by (auto simp: assms(2) case_prod_beta e_def [symmetric] a lookup_abs [OF assms(1)] split: if_splits)
qed

lemma delete_effect:
  assumes "inv (wo_store wo)" "sv_backend sv = B" "handleDelete sv request se wo = (resp, wo')"
  defines "dn \<equiv> msg_delete_dn request"
  shows "inv (wo_store wo') \<and> wo_limiter wo' = wo_limiter wo \<and>
    (if msg_result resp = Success
     then mayWrite sv se wo dn \<and> abs (wo_store wo) (toLowerAscii dn) \<noteq> None \<and>
       (\<forall>n e. abs (wo_store wo) n = Some e \<longrightarrow> \<not> dnIsOneLevelChild (de_dn e) dn) \<and>
       abs (wo_store wo') = (abs (wo_store wo))(toLowerAscii dn := None)
     else abs (wo_store wo') = abs (wo_store wo))"
proof -
  obtain ok s' where a: "be_remove B (wo_store wo) dn = (ok, s')" by fastforce
  note ab = remove_abs [OF assms(1) a] persist_abs [of s']
  show ?thesis
    using assms(1,3) ab unfolding handleDelete_def Let_def assms(2) dn_def [symmetric]
    by (auto simp: assms(2) a lookup_abs [OF assms(1)] children_abs [OF assms(1)] split: if_splits)
qed

lemma modify_effect:
  assumes "inv (wo_store wo)" "sv_backend sv = B" "handleModify sv request se wo = (resp, wo')"
  defines "dn \<equiv> md_dn (msg_modify request)"
    and "cs \<equiv> fst (encodeUserPasswordChanges (sv_crypto sv) (md_changes (msg_modify request)) (wo_rng wo))"
  shows "inv (wo_store wo') \<and> wo_limiter wo' = wo_limiter wo \<and>
    (if msg_result resp = Success
     then mayWrite sv se wo dn \<and> (\<exists>e0 e. abs (wo_store wo) (toLowerAscii dn) = Some e0 \<and>
       applyModifications e0 cs = (Success, e) \<and> de_dn e = de_dn e0 \<and> fst (checkSchema sv e) = Success \<and>
       abs (wo_store wo') = (abs (wo_store wo))(toLowerAscii dn \<mapsto> e))
     else abs (wo_store wo') = abs (wo_store wo))"
proof (cases "abs (wo_store wo) (toLowerAscii dn)")
  case None
  with assms(1,3) show ?thesis unfolding handleModify_def Let_def assms(2) dn_def [symmetric]
    by (auto simp: lookup_abs [OF assms(1)] split: if_splits)
next
  case (Some e0)
  obtain code e where c: "applyModifications e0 cs = (code, e)" by fastforce
  then have dn: "de_dn e = de_dn e0" using de_dn_applyModifications [of e0 cs] by simp
  with Some have key: "toLowerAscii (de_dn e) = toLowerAscii dn" using names [OF assms(1)] by simp
  obtain ok s' where a: "be_modify B (wo_store wo) e = (ok, s')" by fastforce
  from modify_found [OF assms(1) _ a] key Some
  have ab: "ok" "inv s'" "abs s' = (abs (wo_store wo))(toLowerAscii dn \<mapsto> e)" by simp_all
  show ?thesis
    using assms(1,3) persist_abs [OF ab(2)] unfolding handleModify_def Let_def assms(2) dn_def [symmetric]
    by (auto simp: assms(2) case_prod_beta cs_def [symmetric] Some c dn a ab lookup_abs [OF assms(1)] split: if_splits)
qed

lemma rename_effect:
  assumes "inv (wo_store wo)" "sv_backend sv = B" "handleModifyDn sv request se wo = (resp, wo')"
  defines "q \<equiv> msg_modify_dn request"
  defines "parent \<equiv> if dd_new_superior q = [] then dnParent (dd_dn q) else dd_new_superior q"
  defines "new_dn \<equiv> composeDn (dd_new_rdn q) parent"
  shows "inv (wo_store wo') \<and> wo_limiter wo' = wo_limiter wo \<and>
    (if msg_result resp = Success
     then dd_new_rdn q \<noteq> [] \<and> mayWrite sv se wo (dd_dn q) \<and> mayWrite sv se wo new_dn \<and>
       (parent = [] \<or> abs (wo_store wo) (toLowerAscii parent) \<noteq> None) \<and>
       (dnEquals new_dn (dd_dn q) \<or> abs (wo_store wo) (toLowerAscii new_dn) = None) \<and>
       (\<exists>e0 e. abs (wo_store wo) (toLowerAscii (dd_dn q)) = Some e0 \<and> de_dn e = de_dn e0 \<and>
         e = snd (addNewRdn q (snd (removeOldRdn q e0))) \<and> fst (checkSchema sv e) = Success \<and>
         abs (wo_store wo') =
           (if dnEquals new_dn (dd_dn q) then (abs (wo_store wo))(toLowerAscii (dd_dn q) \<mapsto> e)
            else (abs (wo_store wo))(toLowerAscii (dd_dn q) := None, toLowerAscii new_dn \<mapsto> e\<lparr>de_dn := new_dn\<rparr>)))
     else abs (wo_store wo') = abs (wo_store wo))"
proof (cases "abs (wo_store wo) (toLowerAscii (dd_dn q))")
  case None
  with assms(1,3) show ?thesis
    unfolding handleModifyDn_def Let_def assms(2) q_def [symmetric] parent_def [symmetric] new_dn_def [symmetric]
    by (auto simp: lookup_abs [OF assms(1)] split: if_splits)
next
  case (Some e0)
  let ?e1 = "snd (removeOldRdn q e0)"
  let ?e = "snd (addNewRdn q ?e1)"
  have key: "toLowerAscii (de_dn ?e) = toLowerAscii (dd_dn q)" using names [OF assms(1) Some] by simp
  obtain ok s1 where a: "be_modify B (wo_store wo) ?e = (ok, s1)" by fastforce
  from modify_found [OF assms(1) _ a] key Some
  have ab: "ok" "inv s1" "abs s1 = (abs (wo_store wo))(toLowerAscii (dd_dn q) \<mapsto> ?e)" by simp_all
  obtain ok2 s2 where b: "be_rename B s1 (dd_dn q) new_dn = (ok2, s2)" by fastforce
  have new: "dd_new_rdn q \<noteq> [] \<Longrightarrow> new_dn \<noteq> []" by (simp add: new_dn_def composeDn_def)
  note rn = rename_abs [OF ab(2) b] persist_abs [of s2]
  show ?thesis
    using assms(1,3) rn new
    unfolding handleModifyDn_def Let_def assms(2) q_def [symmetric] parent_def [symmetric] new_dn_def [symmetric]
    by (auto simp: assms(2) case_prod_beta Some a b ab dnEquals_iff lookup_abs [OF assms(1)] split: if_splits
        intro: exI [of _ ?e])
qed

lemma password_effect:
  assumes "inv (wo_store wo)" "sv_backend sv = B" "handlePasswordModify sv request se wo = (resp, wo')"
  shows "inv (wo_store wo') \<and> wo_limiter wo' = wo_limiter wo \<and>
    (if msg_result resp = Success
     then \<exists>target new_password e0 e. passwordTarget sv request se wo = Inr (target, new_password) \<and>
         abs (wo_store wo) (toLowerAscii target) = Some e0 \<and>
         applyModifications e0 [\<lparr>am_op = Replace, am_type = ''userPassword'',
           am_values = [fst (encodeUserPassword (sv_crypto sv) new_password (wo_rng wo))]\<rparr>] = (Success, e) \<and>
         de_dn e = de_dn e0 \<and> fst (checkSchema sv e) = Success \<and>
         abs (wo_store wo') = (abs (wo_store wo))(toLowerAscii target \<mapsto> e)
     else abs (wo_store wo') = abs (wo_store wo))"
proof (cases "\<exists>target new_password e0. passwordTarget sv request se wo = Inr (target, new_password) \<and>
      abs (wo_store wo) (toLowerAscii target) = Some e0")
  case False
  with assms(1,3) passwordTarget_refusal show ?thesis
    unfolding handlePasswordModify_def Let_def assms(2) lookup_abs [OF assms(1)]
    by (fastforce split: sum.splits option.splits)
next
  case True
  then obtain new_password target e0 where
    t: "passwordTarget sv request se wo = Inr (target, new_password)"
      "abs (wo_store wo) (toLowerAscii target) = Some e0" by blast
  let ?cs = "[\<lparr>am_op = Replace, am_type = ''userPassword'',
           am_values = [fst (encodeUserPassword (sv_crypto sv) new_password (wo_rng wo))]\<rparr>]"
  obtain code e where c: "applyModifications e0 ?cs = (code, e)" by fastforce
  then have dn: "de_dn e = de_dn e0" using de_dn_applyModifications [of e0 ?cs] by simp
  with t(2) have key: "toLowerAscii (de_dn e) = toLowerAscii target" using names [OF assms(1)] by simp
  obtain ok s' where a: "be_modify B (wo_store wo) e = (ok, s')" by fastforce
  from modify_found [OF assms(1) _ a] key t(2)
  have ab: "ok" "inv s'" "abs s' = (abs (wo_store wo))(toLowerAscii target \<mapsto> e)" by simp_all
  show ?thesis
    using assms(1,3) persist_abs [OF ab(2)] unfolding handlePasswordModify_def Let_def assms(2)
    by (auto simp: assms(2) case_prod_beta c dn a ab t lookup_abs [OF assms(1)] split: if_splits)
qed

end


section \<open>Whole requests\<close>

lemma dispatch_session:
  assumes "dispatch sv env request se wo = (resp, se', wo')" "msg_op request \<noteq> BindRequest"
  shows "se' = se"
  using assms by (auto simp: dispatch_def Let_def case_prod_beta split: ProtocolOp.splits)

lemma limiterAllows_store: "limiterAllows env se wo = (ok, wo') \<Longrightarrow> wo_store wo' = wo_store wo \<and> wo_rng wo' = wo_rng wo"
  by (auto simp: limiterAllows_def split: option.splits prod.splits)

lemma handleBind_store:
  assumes "handleBind sv env request se wo = (resp, se', wo')"
  shows "wo_store wo' = wo_store wo"
proof -
  obtain ok wo1 where l: "limiterAllows env (se\<lparr>se_bound := False, se_bind_dn := []\<rparr>) wo = (ok, wo1)" by fastforce
  with assms limiterAllows_store [OF l] show ?thesis
    unfolding handleBind_def Let_def by (auto simp: l split: if_splits option.splits prod.splits)
qed

context directory
begin

text \<open>The five ways in which a request changes the directory.\<close>

lemma dispatch_effect:
  assumes "inv (wo_store wo)" "sv_backend sv = B" "dispatch sv env request se wo = (resp, se', wo')"
  shows "inv (wo_store wo')"
    and "msg_result resp \<noteq> Success \<Longrightarrow> abs (wo_store wo') = abs (wo_store wo)"
    and "abs (wo_store wo') n \<noteq> abs (wo_store wo) n \<Longrightarrow> se_bound se \<and> (\<exists>dn. toLowerAscii dn = n \<and>
      (mayWrite sv se wo dn \<or> msg_op request = ExtendedRequest \<and> msg_extended_oid request = kPasswordModifyOid \<and>
         se_bind_dn se \<noteq> [] \<and> dnEquals (se_bind_dn se) dn))"
proof -
  consider (modify) "handleModify sv request se wo = (resp, wo')"
    | (add) "handleAdd sv request se wo = (resp, wo')"
    | (delete) "handleDelete sv request se wo = (resp, wo')"
    | (rename) "handleModifyDn sv request se wo = (resp, wo')"
    | (password) "handlePasswordModify sv request se wo = (resp, wo')" "msg_op request = ExtendedRequest"
        "msg_extended_oid request = kPasswordModifyOid"
    | (other) "wo_store wo' = wo_store wo"
    using assms(3) handleBind_store [of sv env request se wo resp se' wo']
    by (auto simp: dispatch_def handleExtended_def Let_def case_prod_beta split: ProtocolOp.splits if_splits)
  note cases = this
  show "inv (wo_store wo')"
    using assms(1) by (cases rule: cases)
      (use modify_effect [OF assms(1,2)] add_effect [OF assms(1,2)] delete_effect [OF assms(1,2)]
        rename_effect [OF assms(1,2)] password_effect [OF assms(1,2)] in simp_all)
  show "abs (wo_store wo') = abs (wo_store wo)" if "msg_result resp \<noteq> Success"
    using that by (cases rule: cases)
      (use modify_effect [OF assms(1,2)] add_effect [OF assms(1,2)] delete_effect [OF assms(1,2)]
        rename_effect [OF assms(1,2)] password_effect [OF assms(1,2)] in simp_all)
  assume ch: "abs (wo_store wo') n \<noteq> abs (wo_store wo) n"
  show "se_bound se \<and> (\<exists>dn. toLowerAscii dn = n \<and>
      (mayWrite sv se wo dn \<or> msg_op request = ExtendedRequest \<and> msg_extended_oid request = kPasswordModifyOid \<and>
         se_bind_dn se \<noteq> [] \<and> dnEquals (se_bind_dn se) dn))"
  proof (cases rule: cases)
    case modify
    from modify_effect [OF assms(1,2) modify] ch show ?thesis
      by (auto simp: mayWrite_def split: if_splits)
  next
    case add
    from add_effect [OF assms(1,2) add] ch show ?thesis by (auto simp: mayWrite_def split: if_splits)
  next
    case delete
    from delete_effect [OF assms(1,2) delete] ch show ?thesis by (auto simp: mayWrite_def split: if_splits)
  next
    case rename
    from rename_effect [OF assms(1,2) rename] ch show ?thesis by (auto simp: mayWrite_def split: if_splits)
  next
    case password
    from password_effect [OF assms(1,2) password(1)] ch obtain target new_password where
      t: "passwordTarget sv request se wo = Inr (target, new_password)" "n = toLowerAscii target"
      by (auto split: if_splits)
    from passwordTarget_Inr(1,2,4) [OF t(1)] t(2) password(2,3) show ?thesis by blast
  next
    case other
    with ch show ?thesis by simp
  qed
qed

end


section \<open>The tree\<close>

text \<open>Every entry but the base of the tree hangs below an existing one.\<close>

definition tree_ok :: "string \<Rightarrow> (string \<rightharpoonup> DirectoryEntry) \<Rightarrow> bool" where
  "tree_ok base m \<longleftrightarrow> (\<forall>n e. m n = Some e \<longrightarrow>
     n = toLowerAscii base \<or> dnParent (de_dn e) = [] \<or> m (toLowerAscii (dnParent (de_dn e))) \<noteq> None)"

text \<open>The renames that are safe: of an entry without children, to a relative name without a comma,
  not below itself.\<close>

definition safe_rename :: "(string \<rightharpoonup> DirectoryEntry) \<Rightarrow> ModifyDnRequestData \<Rightarrow> bool" where
  "safe_rename m q \<longleftrightarrow>
     (\<forall>n e. m n = Some e \<longrightarrow> \<not> dnIsOneLevelChild (de_dn e) (dd_dn q)) \<and> CHR '','' \<notin> set (dd_new_rdn q) \<and>
     \<not> dnEquals (dd_new_superior q) (dd_dn q)"

lemma tree_ok_update:
  assumes "tree_ok base m" "m n = Some e0" "de_dn e = de_dn e0"
  shows "tree_ok base (m(n \<mapsto> e))"
  unfolding tree_ok_def
proof (intro allI impI)
  fix k d assume "(m(n \<mapsto> e)) k = Some d"
  with assms(2,3) obtain d0 where "m k = Some d0" "de_dn d = de_dn d0" by (auto split: if_splits)
  with assms(1) show "k = toLowerAscii base \<or> dnParent (de_dn d) = [] \<or> (m(n \<mapsto> e)) (toLowerAscii (dnParent (de_dn d))) \<noteq> None"
    unfolding tree_ok_def by auto
qed

lemma tree_ok_insert:
  assumes "tree_ok base m" "dnParent (de_dn e) = [] \<or> m (toLowerAscii (dnParent (de_dn e))) \<noteq> None"
  shows "tree_ok base (m(n \<mapsto> e))"
  using assms unfolding tree_ok_def by (auto simp: fun_upd_def)

lemma child_of_parent:
  assumes "toLowerAscii (dnParent d) = toLowerAscii dn" "dnParent d \<noteq> []"
  shows "dnIsOneLevelChild d dn"
  using assms by (cases "dn = []") (auto simp: dnIsOneLevelChild_iff dnEquals_iff)

lemma tree_ok_delete:
  assumes "tree_ok base m" "\<forall>n e. m n = Some e \<longrightarrow> \<not> dnIsOneLevelChild (de_dn e) dn"
  shows "tree_ok base (m(toLowerAscii dn := None))"
  unfolding tree_ok_def
proof (intro allI impI)
  fix n e assume "(m(toLowerAscii dn := None)) n = Some e"
  then have e: "m n = Some e" by (auto split: if_splits)
  with assms(2) have "toLowerAscii (dnParent (de_dn e)) \<noteq> toLowerAscii dn \<or> dnParent (de_dn e) = []"
    using child_of_parent by blast
  with assms(1) e show "n = toLowerAscii base \<or> dnParent (de_dn e) = [] \<or>
      (m(toLowerAscii dn := None)) (toLowerAscii (dnParent (de_dn e))) \<noteq> None"
    unfolding tree_ok_def by auto
qed

lemma dnParent_differs: "d \<noteq> [] \<Longrightarrow> \<not> dnEquals (dnParent d) d"
proof
  assume "d \<noteq> []" "dnEquals (dnParent d) d"
  then have "length (dnParent d) = length d" by (metis dnEquals_iff length_toLowerAscii)
  with \<open>d \<noteq> []\<close> dnParent_split [of d] dnParent_no_comma [of d] show False
    by (cases "CHR '','' \<in> set d") (auto dest: arg_cong [of _ _ length])
qed

context directory
begin

lemma rename_tree:
  assumes "inv (wo_store wo)" "sv_backend sv = B" "handleModifyDn sv request se wo = (resp, wo')"
    and tree: "tree_ok base (abs (wo_store wo))" and safe: "safe_rename (abs (wo_store wo)) (msg_modify_dn request)"
  shows "tree_ok base (abs (wo_store wo'))"
proof (cases "msg_result resp = Success")
  case False
  with rename_effect [OF assms(1-3)] tree show ?thesis by simp
next
  case True
  let ?q = "msg_modify_dn request" and ?m = "abs (wo_store wo)"
  let ?parent = "if dd_new_superior ?q = [] then dnParent (dd_dn ?q) else dd_new_superior ?q"
  let ?new = "composeDn (dd_new_rdn ?q) ?parent"
  from rename_effect [OF assms(1-3), unfolded if_P [OF True]] obtain e0 e where
    r: "dd_new_rdn ?q \<noteq> []" "?parent = [] \<or> ?m (toLowerAscii ?parent) \<noteq> None"
      "?m (toLowerAscii (dd_dn ?q)) = Some e0" "de_dn e = de_dn e0"
      "abs (wo_store wo') = (if dnEquals ?new (dd_dn ?q) then ?m(toLowerAscii (dd_dn ?q) \<mapsto> e)
            else ?m(toLowerAscii (dd_dn ?q) := None, toLowerAscii ?new \<mapsto> e\<lparr>de_dn := ?new\<rparr>))"
    by blast
  have "dd_dn ?q \<noteq> []" using names [OF assms(1) r(3)] by simp
  then have other: "\<not> dnEquals ?parent (dd_dn ?q)" using safe dnParent_differs [of "dd_dn ?q"] by (simp add: safe_rename_def)
  have p: "dnParent ?new = ?parent" using split_composeDn(2) [OF _ r(1)] safe by (simp add: safe_rename_def)
  show ?thesis
  proof (cases "dnEquals ?new (dd_dn ?q)")
    case True
    with r(5) tree_ok_update [OF tree r(3,4)] show ?thesis by simp
  next
    case False
    have "tree_ok base (?m(toLowerAscii (dd_dn ?q) := None))"
      using tree safe by (intro tree_ok_delete) (simp_all add: safe_rename_def)
    then have "tree_ok base (?m(toLowerAscii (dd_dn ?q) := None, toLowerAscii ?new \<mapsto> e\<lparr>de_dn := ?new\<rparr>))"
      using r(2) other unfolding dnEquals_iff by (intro tree_ok_insert) (simp only: p DirectoryEntry.simps, simp add: p)
    with False r(5) show ?thesis by simp
  qed
qed

lemma dispatch_tree:
  assumes "inv (wo_store wo)" "sv_backend sv = B" "dispatch sv env request se wo = (resp, se', wo')"
    and tree: "tree_ok base (abs (wo_store wo))"
    and safe: "msg_op request = ModifyDNRequest \<Longrightarrow> safe_rename (abs (wo_store wo)) (msg_modify_dn request)"
  shows "tree_ok base (abs (wo_store wo'))"
proof -
  consider (modify) "handleModify sv request se wo = (resp, wo')"
    | (add) "handleAdd sv request se wo = (resp, wo')"
    | (delete) "handleDelete sv request se wo = (resp, wo')"
    | (rename) "handleModifyDn sv request se wo = (resp, wo')" "msg_op request = ModifyDNRequest"
    | (password) "handlePasswordModify sv request se wo = (resp, wo')"
    | (other) "wo_store wo' = wo_store wo"
    using assms(3) handleBind_store [of sv env request se wo resp se' wo']
    by (auto simp: dispatch_def handleExtended_def Let_def case_prod_beta split: ProtocolOp.splits if_splits)
  then show ?thesis
  proof cases
    case modify
    from modify_effect [OF assms(1,2) modify] tree show ?thesis by (auto intro: tree_ok_update split: if_splits)
  next
    case add
    from add_effect [OF assms(1,2) add] tree show ?thesis by (auto intro!: tree_ok_insert split: if_splits)
  next
    case delete
    from delete_effect [OF assms(1,2) delete] tree show ?thesis by (auto intro: tree_ok_delete split: if_splits)
  next
    case rename
    from rename_tree [OF assms(1,2) rename(1) tree safe [OF rename(2)]] show ?thesis .
  next
    case password
    from password_effect [OF assms(1,2) password] tree show ?thesis by (auto intro: tree_ok_update split: if_splits)
  qed (use tree in simp)
qed

end


section \<open>Rounds\<close>

lemma processRequest_cases:
  assumes "processRequest sv env request se wo = (outcome, out, se', wo')"
  obtains "wo' = wo" "se_bound se' = se_bound se" "se_bind_dn se' = se_bind_dn se"
  | resp where "dispatch sv env request se wo = (resp, se', wo')" "out = take (en_sends env) [resp]"
  using assms by (cases "dispatch sv env request se wo")
    (auto simp: processRequest_def deliver_def Let_def split: if_splits option.splits)

section \<open>A server for the witnesses\<close>

definition demoServer :: "MemoryState Server" where
  "demoServer = \<lparr>sv_config = defaultConfig\<lparr>cf_root_dn := ''cn=r''\<rparr>, sv_backend = memoryBackend, sv_crypto = demoCrypto,
     sv_schema = None, sv_sasl = None, sv_tls = None, sv_read_file = (\<lambda>_. None)\<rparr>"

definition demoEnv :: Env where
  "demoEnv = \<lparr>en_steady = (\<lambda>_. 1), en_time = 1, en_handshake = None, en_sends = 9\<rparr>"

definition noTls :: TlsPeer where
  "noTls = \<lparr>tp_tls = False, tp_verified = False, tp_identity = []\<rparr>"

definition rootSession :: Session where
  "rootSession = (newSession ''h:1'' noTls)\<lparr>se_bound := True, se_bind_dn := ''cn=r''\<rparr>"

definition demoWorld :: "MemoryState \<Rightarrow> MemoryState World" where
  "demoWorld m = \<lparr>wo_store = m, wo_limiter = None, wo_rng = 0\<rparr>"

definition plainEntry :: "string \<Rightarrow> DirectoryEntry" where
  "plainEntry dn = \<lparr>de_dn = dn, de_attributes = [(''ou'', [''x''])]\<rparr>"

lemmas demo_simps = demoServer_def demoEnv_def noTls_def rootSession_def demoWorld_def plainEntry_def newSession_def
  defaultConfig_def

lemma demo_root: "isRoot (sv_config demoServer) (se_bind_dn rootSession)"
  by (simp add: demo_simps isRoot_def)

lemma demo_mayWrite [simp]: "mayWrite demoServer rootSession wo dn"
  by (simp add: mayWrite_def aclMayWrite_def demo_root) (simp add: demo_simps)

lemma demo_backend [simp]: "sv_backend demoServer = memoryBackend" "wo_store (demoWorld m) = m"
  by (simp_all add: demo_simps)

lemma plain_mem_inv: "dn \<noteq> [] \<Longrightarrow> mem_inv [(dn, plainEntry dn)]"
  by (simp add: mem_inv_def ci_ok_Cons plainEntry_def)

definition demoAdd :: LdapMessage where
  "demoAdd = makeAddRequest 7 \<lparr>ad_dn = ''ou=x'', ad_attributes = [\<lparr>pa_type = ''ou'', pa_values = [''x'']\<rparr>]\<rparr>"

lemma lower_ou [simp]: "toLowerAscii ''ou=x'' = ''ou=x''"
  by code_simp

lemma demo_add:
  "processRequest demoServer demoEnv demoAdd rootSession (demoWorld []) =
     (Continue, [makeLdapResult 7 AddResponse Success []], rootSession, demoWorld [(''ou=x'', plainEntry ''ou=x'')])"
proof -
  have "encodeUserPasswords demoCrypto (toDirectoryEntry (msg_add demoAdd)) 0 = (plainEntry ''ou=x'', 0)"
    by (simp add: demoAdd_def makeAddRequest_def toDirectoryEntry_def encodeUserPasswords_def iequals_def
        toLowerAscii_def plainEntry_def)
  moreover have "msg_id demoAdd = 7" "ad_dn (msg_add demoAdd) = ''ou=x''" "msg_op demoAdd = AddRequest"
    by (simp_all add: demoAdd_def makeAddRequest_def)
  moreover have "sv_crypto demoServer = demoCrypto" "wo_rng (demoWorld []) = 0" "checkSchema demoServer e = (Success, [])"
      "dnParent ''ou=x'' = []" for e
    by (simp_all add: demo_simps checkSchema_def dnParent_no_comma)
  ultimately have "handleAdd demoServer demoAdd rootSession (demoWorld []) =
      (makeLdapResult 7 AddResponse Success [], demoWorld [(''ou=x'', plainEntry ''ou=x'')])"
    by (simp add: handleAdd_def Let_def memoryBackend_def mem_lookup_def mem_add_def plainEntry_def persisted_def demoWorld_def)
  with \<open>msg_op demoAdd = AddRequest\<close> show ?thesis
    by (simp add: processRequest_def dispatch_def deliver_def demoEnv_def)
qed

section \<open>Properties\<close>

text \<open>C1: Nothing is written without the right to write: when a request changes what the directory
  holds under a name, the session is bound, and either the access rules let it write that name or
  the request changes the password of the session's own entry.  No other entry changes.\<close>

theorem write_needs_right:
  assumes "mem_inv (wo_store wo)" "sv_backend sv = memoryBackend"
    and "processRequest sv env request se wo = (outcome, out, se', wo')"
    and "ci_map (wo_store wo') n \<noteq> ci_map (wo_store wo) n"
  shows "se_bound se \<and> (\<exists>dn. toLowerAscii dn = n \<and>
    (aclMayWrite (sv_config sv) memoryBackend (wo_store wo) (se_bind_dn se) dn \<or>
     msg_op request = ExtendedRequest \<and> msg_extended_oid request = kPasswordModifyOid \<and>
       se_bind_dn se \<noteq> [] \<and> dnEquals (se_bind_dn se) dn))"
proof (rule processRequest_cases [OF assms(3)])
  fix resp assume "dispatch sv env request se wo = (resp, se', wo')"
  from memory.dispatch_effect(3) [OF assms(1,2) this assms(4)] assms(2) show ?thesis
    by (auto simp: mayWrite_def)
qed (use assms(4) in simp)

theorem write_needs_right_witness:
  "se_bound rootSession \<and> (\<exists>dn. toLowerAscii dn = ''ou=x'' \<and>
    (aclMayWrite (sv_config demoServer) memoryBackend [] (se_bind_dn rootSession) dn \<or>
     msg_op demoAdd = ExtendedRequest \<and> msg_extended_oid demoAdd = kPasswordModifyOid \<and>
       se_bind_dn rootSession \<noteq> [] \<and> dnEquals (se_bind_dn rootSession) dn))"
proof -
  have "ci_map [(''ou=x'', plainEntry ''ou=x'')] ''ou=x'' \<noteq> None"
    by (simp add: ci_map_def)
  then show ?thesis
    using write_needs_right [OF _ _ demo_add, of "''ou=x''"] by (simp add: mem_inv_def ci_map_def [of "[]"])
qed

text \<open>C2: With the in-memory backend, a request that no other request interrupts and that is answered with anything but success leaves the
  directory as it was, whichever check or backend call refused it; every request keeps the invariant of the backend.  A rename is two
  updates of the backend: with another backend, or another session in between, the second can fail after the first.\<close>

theorem refusal_changes_nothing:
  assumes "mem_inv (wo_store wo)" "sv_backend sv = memoryBackend"
    and "dispatch sv env request se wo = (resp, se', wo')"
  shows "mem_inv (wo_store wo') \<and> (msg_result resp = Success \<or> ci_map (wo_store wo') = ci_map (wo_store wo))"
  using memory.dispatch_effect(1,2) [OF assms] by blast

theorem refusal_changes_nothing_witness:
  "\<exists>resp se' wo'. dispatch demoServer demoEnv demoAdd (newSession ''h'' noTls) (demoWorld []) = (resp, se', wo') \<and>
     mem_inv (wo_store wo') \<and> msg_result resp = InsufficientAccessRights \<and> ci_map (wo_store wo') = ci_map []"
proof -
  have d: "dispatch demoServer demoEnv demoAdd (newSession ''h'' noTls) (demoWorld []) =
      (makeLdapResult 7 AddResponse InsufficientAccessRights ''insufficient access'', newSession ''h'' noTls, demoWorld [])"
    by (simp add: dispatch_def handleAdd_def mayWrite_def newSession_def demoAdd_def makeAddRequest_def)
  from refusal_changes_nothing [OF _ _ d] d show ?thesis by (simp add: mem_inv_def)
qed

text \<open>C8: The tree stays connected: after any request every entry other than the base still has its
  parent, provided a rename is of a leaf, to a relative name without a comma, and not below the
  entry itself.  These conditions are needed, since the code does not check them.\<close>

theorem requests_keep_tree:
  assumes "mem_inv (wo_store wo)" "sv_backend sv = memoryBackend"
    and "processRequest sv env request se wo = (outcome, out, se', wo')"
    and "tree_ok base (ci_map (wo_store wo))"
    and "msg_op request = ModifyDNRequest \<Longrightarrow> safe_rename (ci_map (wo_store wo)) (msg_modify_dn request)"
  shows "tree_ok base (ci_map (wo_store wo'))"
proof (rule processRequest_cases [OF assms(3)])
  fix resp assume "dispatch sv env request se wo = (resp, se', wo')"
  from memory.dispatch_tree [OF assms(1,2) this assms(4,5)] show ?thesis .
qed (use assms(4) in simp)

theorem requests_keep_tree_witness: "tree_ok ''dc=b'' (ci_map [(''ou=x'', plainEntry ''ou=x'')])"
proof -
  have "tree_ok ''dc=b'' (ci_map (wo_store (demoWorld [])))" "mem_inv (wo_store (demoWorld []))" "msg_op demoAdd = AddRequest"
    by (simp_all add: tree_ok_def ci_map_def mem_inv_def demoAdd_def makeAddRequest_def)
  with requests_keep_tree [OF _ _ demo_add, of "''dc=b''"] show ?thesis by simp
qed


definition demoRename :: LdapMessage where
  "demoRename = makeModifyDnRequest 8 \<lparr>dd_dn = ''ou=x'', dd_new_rdn = ''ou=y'', dd_delete_old_rdn = False, dd_new_superior = []\<rparr>"

definition demoTree :: MemoryState where
  "demoTree = [(''cn=c,ou=x'', plainEntry ''cn=c,ou=x''), (''ou=x'', plainEntry ''ou=x'')]"

lemma demo_rename:
  "handleModifyDn demoServer demoRename rootSession (demoWorld demoTree) =
     (makeLdapResult 8 ModifyDNResponse Success [],
      demoWorld [(''cn=c,ou=x'', plainEntry ''cn=c,ou=x''),
        (''ou=y'', \<lparr>de_dn = ''ou=y'', de_attributes = [(''ou'', [''x'', ''y''])]\<rparr>)])"
  by code_simp

text \<open>Renaming an entry that has children succeeds and leaves the children without a parent: the
  handler neither refuses the request nor moves the subtree.\<close>

lemma rename_orphans:
  "tree_ok [] (ci_map demoTree) \<and>
   (\<exists>wo'. handleModifyDn demoServer demoRename rootSession (demoWorld demoTree) =
       (makeLdapResult 8 ModifyDNResponse Success [], wo') \<and> \<not> tree_ok [] (ci_map (wo_store wo')))"
proof
  have lower: "toLowerAscii ''cn=c,ou=x'' = ''cn=c,ou=x''" "toLowerAscii ''ou=y'' = ''ou=y''"
      and parent: "dnParent ''cn=c,ou=x'' = ''ou=x''" "dnParent ''ou=x'' = []"
    by code_simp+
  show "tree_ok [] (ci_map demoTree)"
    by (simp add: tree_ok_def ci_map_def demoTree_def plainEntry_def lower parent)
  let ?m = "[(''cn=c,ou=x'', plainEntry ''cn=c,ou=x''),
        (''ou=y'', \<lparr>de_dn = ''ou=y'', de_attributes = [(''ou'', [''x'', ''y''])]\<rparr>)]"
  have "ci_map ?m ''cn=c,ou=x'' = Some (plainEntry ''cn=c,ou=x'')" "ci_map ?m ''ou=x'' = None"
    by (simp_all add: ci_map_def lower)
  then have "\<not> tree_ok [] (ci_map ?m)"
    unfolding tree_ok_def by (auto simp: plainEntry_def parent intro!: exI [of _ "''cn=c,ou=x''"])
  then show "\<exists>wo'. handleModifyDn demoServer demoRename rootSession (demoWorld demoTree) =
       (makeLdapResult 8 ModifyDNResponse Success [], wo') \<and> \<not> tree_ok [] (ci_map (wo_store wo'))"
    unfolding demo_rename by (simp only: prod.inject simp_thms ex_simps demo_backend)
qed

end
