(* ===== verification/SessionAccess.thy ===== *)
theory SessionAccess
  imports SessionSafety
begin

text \<open>
  What a session shows and to whom: who is bound after a bind request, when passwords may travel
  in the clear, which entries and attributes a search discloses, and that the pages of a paged
  search put together are the whole result.  The last part joins sessions into a system that
  takes requests in any order and shows the invariants of its reachable states.
\<close>

section \<open>Binding\<close>

lemma msg_result_bind [simp]: "msg_result (makeBindResponse i code diag creds) = code"
  by (simp add: makeBindResponse_def)

lemma authBind_resolves:
  assumes "authBind cr c B s dn password = Success" "dn \<noteq> []"
  obtains resolved where "resolveName c B s dn = Some resolved"
  using assms by (auto simp: authBind_def split: option.splits)

lemma handleBind_outcome:
  assumes "handleBind sv env request se wo = (resp, se', wo')"
  defines "b \<equiv> msg_bind request"
  shows "se_tls se' = se_tls se \<and> se_peer se' = se_peer se \<and>
    (if msg_result resp = Success
     then se_bound se' \<and>
       (if bd_simple b
        then authBind (sv_crypto sv) (sv_config sv) (sv_backend sv) (wo_store wo) (bd_dn b) (bd_password b) = Success \<and>
          (if bd_dn b = [] then se_bind_dn se' = []
           else resolveName (sv_config sv) (sv_backend sv) (wo_store wo) (bd_dn b) = Some (se_bind_dn se')) \<and>
          \<not> (cf_require_confidentiality (sv_config sv) \<and> \<not> tp_tls (se_tls se) \<and> bd_password b \<noteq> [])
        else \<exists>enabled outcome nonce r. sv_sasl sv = Some enabled \<and>
          saslBind (sv_crypto sv) (sv_read_file sv) enabled (sv_config sv) (sv_backend sv) (wo_store wo) b
            (se_tls se) (se_sasl_digest_nonce se) (en_time env) (wo_rng wo) = (outcome, nonce, r) \<and>
          sb_result outcome = Success \<and> se_bind_dn se' = sb_bind_dn outcome)
     else \<not> se_bound se' \<and> se_bind_dn se' = [])"
proof -
  let ?se = "se\<lparr>se_bound := False, se_bind_dn := []\<rparr>"
  obtain ok wo1 where l: "limiterAllows env ?se wo = (ok, wo1)" by fastforce
  note st = limiterAllows_store [OF l]
  show ?thesis
  proof (cases "bd_version b = 3 \<and> ok")
    case False
    then have "msg_result resp \<noteq> Success \<and> se' = ?se"
      using assms(1) unfolding handleBind_def Let_def b_def [symmetric] by (cases "bd_version b = 3") (auto simp: l)
    then show ?thesis by auto
  next
    case True
    show ?thesis
    proof (cases "bd_simple b")
      case simple: True
      show ?thesis
      proof (cases "authBind (sv_crypto sv) (sv_config sv) (sv_backend sv) (wo_store wo) (bd_dn b) (bd_password b) = Success")
        case False
        with assms(1) True simple show ?thesis
          unfolding handleBind_def Let_def b_def [symmetric] by (auto simp: l st split: if_splits)
      next
        case auth: True
        show ?thesis
        proof (cases "resolveName (sv_config sv) (sv_backend sv) (wo_store wo) (bd_dn b)")
          case None
          with auth have "bd_dn b = []" using authBind_resolves by fastforce
          with assms(1) True simple auth show ?thesis
            unfolding handleBind_def Let_def b_def [symmetric] by (auto simp: l st split: if_splits)
        next
          case (Some dn)
          with assms(1) True simple auth show ?thesis
            unfolding handleBind_def Let_def b_def [symmetric] by (auto simp: l st split: if_splits)
        qed
      qed
    next
      case False
      with assms(1) True show ?thesis
        unfolding handleBind_def Let_def b_def [symmetric]
        by (auto simp: l st split: if_splits option.splits prod.splits)
    qed
  qed
qed


section \<open>Searching\<close>

lemma sendEntries_subset:
  "sendEntries env deadline size_limit page_size visible i sent = Some (out, code) \<Longrightarrow>
     set out \<subseteq> set visible \<union> set sent"
proof (induction env deadline size_limit page_size visible i sent rule: sendEntries.induct)
  case (1 env deadline size_limit page_size visible i sent)
  show ?case
  proof (cases "sendEntries env deadline size_limit page_size visible i sent =
      sendEntries env deadline size_limit page_size visible (i + 1) (sent @ [visible ! nat i]) \<and>
      i < toInt (int (length visible)) \<and>
      \<not> (case deadline of None \<Rightarrow> False | Some d \<Rightarrow> en_steady env (Suc (length sent)) \<ge> d) \<and>
      \<not> (size_limit > 0 \<and> int (length sent) \<ge> size_limit) \<and> \<not> (page_size > 0 \<and> int (length sent) \<ge> page_size) \<and>
      \<not> (i < 0 \<or> i \<ge> int (length visible))")
    case True
    then have "visible ! nat i \<in> set visible" by auto
    moreover have "set out \<subseteq> set visible \<union> set (sent @ [visible ! nat i])"
      using True "1.prems" by (intro "1.IH") auto
    ultimately show ?thesis by auto
  next
    case False
    with "1.prems" show ?thesis
      unfolding sendEntries.simps [of env deadline size_limit page_size visible i sent]
      by (auto split: if_splits)
  qed
qed

lemma toInt_small: "0 \<le> n \<Longrightarrow> n < 2 ^ 31 \<Longrightarrow> toInt n = n"
  unfolding toInt_def by (simp add: sint_sbintrunc' signed_take_bit_int_eq_self)

lemma sendEntries_page:
  "length visible < 2 ^ 31 \<Longrightarrow> size_limit \<le> 0 \<Longrightarrow> 0 \<le> i \<Longrightarrow> 0 < page_size \<Longrightarrow> int (length sent) \<le> page_size \<Longrightarrow>
    sendEntries env None size_limit page_size visible i sent =
      Some (sent @ take (nat page_size - length sent) (drop (nat i) visible), Success)"
proof (induction "nat page_size - length sent" arbitrary: i sent)
  case 0
  then have "page_size \<le> int (length sent)" by simp
  with 0 show ?case
    unfolding sendEntries.simps [of env None size_limit page_size visible i sent]
    by (simp add: toInt_small)
next
  case (Suc k)
  have len: "toInt (int (length visible)) = int (length visible)" using Suc.prems(1) by (intro toInt_small) simp_all
  show ?case
  proof (cases "i < int (length visible)")
    case True
    have d: "drop (nat i) visible = visible ! nat i # drop (nat (i + 1)) visible"
      using True Suc.prems(3) by (simp add: Cons_nth_drop_Suc nat_add_distrib)
    have "int (length sent) < page_size" using Suc.hyps(2) by simp
    then have "sendEntries env None size_limit page_size visible i sent =
        sendEntries env None size_limit page_size visible (i + 1) (sent @ [visible ! nat i])"
      using True Suc.prems len
      by (simp add: sendEntries.simps [of env None size_limit page_size visible i sent])
    also have "\<dots> = Some ((sent @ [visible ! nat i]) @
        take (nat page_size - length (sent @ [visible ! nat i])) (drop (nat (i + 1)) visible), Success)"
      using Suc.hyps(2) Suc.prems by (intro Suc.hyps(1)) simp_all
    also have "nat page_size - length (sent @ [visible ! nat i]) = k" using Suc.hyps(2) by simp
    finally show ?thesis unfolding d by (simp add: Suc.hyps(2) [symmetric])
  next
    case False
    with Suc.prems len show ?thesis
      by (simp add: sendEntries.simps [of env None size_limit page_size visible i sent])
  qed
qed

context directory
begin

lemma searchMatches_sound:
  assumes "inv (wo_store wo)" "sv_backend sv = B" "e \<in> set (searchMatches sv q wo)"
  shows "matches (sd_filter q) e \<and>
    (e = rootDse sv \<or> (\<exists>n. abs (wo_store wo) n = Some e \<and> inScope (sd_scope q) (de_dn e) (sd_base_dn q)))"
  using assms(3) search_abs [OF assms(1), of "sd_base_dn q" "sd_scope q" "sd_filter q"] assms(2)
  by (auto simp: searchMatches_def Let_def split: if_splits)

end

lemma toSearchEntry_attributes:
  assumes "a \<in> set (ed_attributes (toSearchEntry sv se e q))"
  shows "\<exists>vs. (pa_type a, vs) \<in> set (de_attributes e) \<and> set (pa_values a) \<subseteq> set vs \<and>
    (if iequals (pa_type a) ''userPassword''
     then se_bound se \<and> se_bind_dn se \<noteq> [] \<and> dnEquals (se_bind_dn se) (cf_root_dn (sv_config sv)) else True)"
  using assms by (auto simp: toSearchEntry_def Let_def isUserPassword_def split: if_splits)

lemma msg_op_make [simp]: "msg_op (makeSearchDone i code diag) = SearchResultDone" "msg_op (makeSearchEntry i d) = SearchResultEntry"
  "msg_entry (makeSearchEntry i d) = d"
  by (simp_all add: makeSearchDone_def makeSearchEntry_def)

lemma msg_op_searchDone: "msg_op (searchDone i code p off n sent) = SearchResultDone"
  by (simp add: searchDone_def Let_def)

lemma handleSearch_entries:
  assumes "handleSearch sv env request se wo = Some msgs" "m \<in> set msgs" "msg_op m = SearchResultEntry"
  obtains e where "e \<in> set (searchMatches sv (msg_search request) wo)" "maySearch sv se wo (de_dn e)"
    "msg_entry m = toSearchEntry sv se e (msg_search request)"
proof -
  let ?visible = "visibleEntries sv (msg_search request) se wo"
  have "\<exists>dl sl ps off sent code. sendEntries env dl sl ps ?visible off [] = Some (sent, code) \<and>
      m \<in> (\<lambda>e. makeSearchEntry (msg_id request) (toSearchEntry sv se e (msg_search request))) ` set sent"
    using assms unfolding handleSearch_def
    by (auto simp: msg_op_searchDone Let_def split: if_splits sum.splits option.splits; blast)
  then obtain dl sl ps off sent code e where
    "sendEntries env dl sl ps ?visible off [] = Some (sent, code)" "e \<in> set sent"
    and m: "m = makeSearchEntry (msg_id request) (toSearchEntry sv se e (msg_search request))" by auto
  with sendEntries_subset [of env dl sl ps ?visible off "[]" sent code] have "e \<in> set ?visible" by auto
  then have "e \<in> set (searchMatches sv (msg_search request) wo)" "maySearch sv se wo (de_dn e)"
    by (simp_all add: visibleEntries_def)
  moreover have "msg_entry m = toSearchEntry sv se e (msg_search request)" by (simp add: m)
  ultimately show thesis by (rule that)
qed

section \<open>Paging\<close>

lemma length_natDigits: "length (natDigits n) \<le> Suc n"
proof (induction n rule: natDigits.induct)
  case (1 n)
  show ?case
  proof (cases "n < 10")
    case True
    then show ?thesis by (subst natDigits.simps) simp
  next
    case False
    with 1 have "length (natDigits (n div 10)) \<le> Suc (n div 10)" by simp
    moreover have "Suc (n div 10) \<le> n" using False by simp
    ultimately show ?thesis using False by (subst natDigits.simps) simp
  qed
qed

lemma toStringInt_nat: "toStringInt (int n) = natDigits n"
  by (simp add: toStringInt_def)

lemma pageOffset_printed:
  assumes "n < 2 ^ 31"
  shows "pageOffset (toStringInt (int n)) = Some (int n)"
proof -
  have "clampLong (int n) = int n" using assms by (simp add: clampLong_def longMax_def)
  moreover have "toInt (int n) = int n" using assms by (intro toInt_small) simp_all
  ultimately show ?thesis
    by (simp add: pageOffset_def toStringInt_nat cStr_natDigits scanInteger_natDigits)
qed

lemma printed_cookie:
  assumes "n < 2 ^ 31"
  shows "length (toStringInt (int n)) \<le> 2 ^ 31" "pageOffset (toStringInt (int n)) = Some (int n)" "toStringInt (int n) \<noteq> []"
  using length_natDigits [of n] pageOffset_printed [OF assms] assms by (simp_all add: toStringInt_nat)

lemma decodePaged_printed:
  assumes "length cookie \<le> 2 ^ 31"
  shows "decodePagedResultsValue (encodePagedResultsValue sz cookie) = Some (sz, cookie)"
proof (rule paged_results_roundtrip)
  let ?i = "tlv kBerInteger (encodeInteger (scast sz))" and ?o = "tlv kBerOctetString (bytes_of cookie)"
  have "length ?i \<le> 14" "length ?o \<le> 2 ^ 31 + 6"
    using length_tlv [of "encodeInteger (scast sz)" kBerInteger] length_encodeInteger(2) [of "scast sz"]
      length_tlv [of "bytes_of cookie" kBerOctetString] assms by (simp_all add: bytes_of_def)
  then show "length (encodePagedResultsValue sz cookie) < 2 ^ 32"
    using length_tlv [of "?i @ ?o" kBerSequence]
    by (simp add: encodePagedResultsValue_def write_simps string_of_def)
qed

lemma sendEntries_all:
  "length visible < 2 ^ 31 \<Longrightarrow> size_limit \<le> 0 \<Longrightarrow> 0 \<le> i \<Longrightarrow> page_size \<le> 0 \<Longrightarrow>
    sendEntries env None size_limit page_size visible i sent = Some (sent @ drop (nat i) visible, Success)"
proof (induction "length visible - nat i" arbitrary: i sent)
  case 0
  then have "\<not> i < int (length visible)" by simp
  with 0 show ?case
    unfolding sendEntries.simps [of env None size_limit page_size visible i sent] by (simp add: toInt_small)
next
  case (Suc k)
  then have i: "i < int (length visible)" by simp
  then have d: "drop (nat i) visible = visible ! nat i # drop (nat (i + 1)) visible"
    using Suc.prems(3) by (simp add: Cons_nth_drop_Suc nat_add_distrib)
  have "sendEntries env None size_limit page_size visible i sent =
      sendEntries env None size_limit page_size visible (i + 1) (sent @ [visible ! nat i])"
    using i Suc.prems by (simp add: sendEntries.simps [of env None size_limit page_size visible i sent] toInt_small)
  also have "\<dots> = Some ((sent @ [visible ! nat i]) @ drop (nat (i + 1)) visible, Success)"
    using Suc.hyps(2) Suc.prems by (intro Suc.hyps(1)) simp_all
  finally show ?case unfolding d by simp
qed

lemma searchChecks_paged:
  assumes "length cookie \<le> 2 ^ 31" "searchChecks sv (request\<lparr>msg_controls := []\<rparr>) se wo = Inr unpaged"
  shows "searchChecks sv (request\<lparr>msg_controls := [makePagedResultsControl page cookie crit]\<rparr>) se wo = Inr (page, cookie)"
proof -
  have "searchControls [makePagedResultsControl page cookie crit] p c = Inr (page, cookie)" for p c
    using decodePaged_printed [OF assms(1), of page] by (simp add: makePagedResultsControl_def)
  with assms(2) show ?thesis by (auto simp: searchChecks_def Let_def split: if_splits)
qed

text \<open>A client that follows the cookies of a paged search to the end.\<close>

fun followPages ::
  "'s Server \<Rightarrow> Env \<Rightarrow> LdapMessage \<Rightarrow> Session \<Rightarrow> 's World \<Rightarrow> int32 \<Rightarrow> string \<Rightarrow> nat \<Rightarrow> LdapMessage list option" where
  "followPages sv env request se wo page cookie 0 = None"
| "followPages sv env request se wo page cookie (Suc fuel) =
     (case handleSearch sv env (request\<lparr>msg_controls := [makePagedResultsControl page cookie False]\<rparr>) se wo of
        None \<Rightarrow> None
      | Some msgs \<Rightarrow>
          (case msg_controls (last msgs) of
             [control] \<Rightarrow>
               (case decodePagedResultsValue (lc_value control) of
                  None \<Rightarrow> None
                | Some (left, next_cookie) \<Rightarrow>
                    if next_cookie = [] then Some (butlast msgs)
                    else map_option (\<lambda>others. butlast msgs @ others) (followPages sv env request se wo page next_cookie fuel))
           | _ \<Rightarrow> None))"

lemma remaining_fits: "0 \<le> offset \<Longrightarrow> n < 2 ^ 31 \<Longrightarrow> \<not> remainingOverflows page offset (int n) sent"
  by (simp add: remainingOverflows_def)

lemma handleSearch_page:
  assumes "searchChecks sv request se wo = Inr (page, cookie)" "pageOffset cookie = Some (int k)" "0 < sint page"
    and "sint (sd_time_limit (msg_search request)) \<le> 0" "sint (sd_size_limit (msg_search request)) \<le> 0"
    and "length (visibleEntries sv (msg_search request) se wo) < 2 ^ 31"
  shows "handleSearch sv env request se wo =
    (let visible = visibleEntries sv (msg_search request) se wo; sent = take (nat (sint page)) (drop k visible) in
     Some (map (\<lambda>e. makeSearchEntry (msg_id request) (toSearchEntry sv se e (msg_search request))) sent @
       [searchDone (msg_id request) Success page (int k) (int (length visible)) (length sent)]))"
proof -
  have "page \<noteq> 0" using assms(3) by auto
  with assms sendEntries_page [OF assms(6,5), of "int k" "sint page" "[]" env] show ?thesis
    by (simp add: handleSearch_def Let_def toInt_small remaining_fits)
qed

lemma followPages_drop:
  assumes "searchChecks sv (request\<lparr>msg_controls := []\<rparr>) se wo = Inr unpaged" "0 < sint page"
    and "sint (sd_time_limit (msg_search request)) \<le> 0" "sint (sd_size_limit (msg_search request)) \<le> 0"
    and small: "length (visibleEntries sv (msg_search request) se wo) < 2 ^ 31"
  shows "length cookie \<le> 2 ^ 31 \<Longrightarrow> pageOffset cookie = Some (int k) \<Longrightarrow>
      length (visibleEntries sv (msg_search request) se wo) - k < fuel \<Longrightarrow>
    followPages sv env request se wo page cookie fuel =
      Some (map (\<lambda>e. makeSearchEntry (msg_id request) (toSearchEntry sv se e (msg_search request)))
        (drop k (visibleEntries sv (msg_search request) se wo)))"
proof (induction fuel arbitrary: cookie k)
  case (Suc fuel)
  let ?visible = "visibleEntries sv (msg_search request) se wo" and ?p = "nat (sint page)"
  let ?request = "request\<lparr>msg_controls := [makePagedResultsControl page cookie False]\<rparr>"
  let ?mk = "\<lambda>e. makeSearchEntry (msg_id request) (toSearchEntry sv se e (msg_search request))"
  let ?sent = "take ?p (drop k ?visible)" and ?next = "k + length (take ?p (drop k ?visible))"
  have page: "handleSearch sv env ?request se wo = Some (map ?mk ?sent @
      [searchDone (msg_id request) Success page (int k) (int (length ?visible)) (length ?sent)])"
    using handleSearch_page [OF searchChecks_paged [OF Suc.prems(1) assms(1)] Suc.prems(2) assms(2), of False env]
      assms(3,4) small by (simp add: Let_def)
  show ?case
  proof (cases "?next < length ?visible")
    case False
    then have "drop k ?visible = ?sent" by auto
    with False page assms(2) show ?thesis
      by (simp add: searchDone_def Let_def makePagedResultsControl_def decodePaged_printed del: length_take length_drop)
  next
    case True
    let ?cookie = "toStringInt (int ?next)"
    have p: "length ?sent = ?p" "0 < ?p" using True assms(2) by auto
    have cookie: "length ?cookie \<le> 2 ^ 31" "pageOffset ?cookie = Some (int ?next)" "?cookie \<noteq> []"
      by (rule printed_cookie [OF less_trans [OF True small]])+
    have "length ?visible - ?next < fuel" using Suc.prems(3) p True by linarith
    note IH = Suc.IH [OF cookie(1,2) this]
    have split: "map ?mk (drop k ?visible) = map ?mk ?sent @ map ?mk (drop ?next ?visible)"
      unfolding p(1) map_append [symmetric] by (simp add: add.commute [of k] drop_drop [symmetric] del: drop_drop)
    have control: "msg_controls (searchDone (msg_id request) Success page (int k) (int (length ?visible)) (length ?sent)) =
        [makePagedResultsControl (word_of_int (int (length ?visible) - int ?next)) ?cookie False]"
      using True assms(2) by (simp add: searchDone_def Let_def del: length_take length_drop)
    have "decodePagedResultsValue (lc_value (makePagedResultsControl n ?cookie False)) = Some (n, ?cookie)" for n
      using decodePaged_printed [OF cookie(1)] by (simp only: makePagedResultsControl_def LdapControl.simps)
    then show ?thesis
      unfolding followPages.simps page split
      by (simp only: option.case last_snoc control list.case butlast_snoc cookie(3) if_False IH option.map prod.case)
  qed
qed simp


section \<open>Properties\<close>

text \<open>C4: After a bind request the session is bound exactly when the answer is success.  A simple bind
  succeeds only for a password that verifies, and the session then carries the resolved name of
  that account, never one the client made up; a SASL bind carries the name the mechanism
  established.  After any other answer the session is anonymous, whoever it was before.\<close>

theorem session_bind_sound:
  assumes "handleBind sv env request se wo = (resp, se', wo')"
  defines "b \<equiv> msg_bind request"
  shows "se_bound se' = (msg_result resp = Success) \<and> wo_store wo' = wo_store wo \<and>
    (if msg_result resp \<noteq> Success then se_bind_dn se' = []
     else if bd_simple b
     then authBind (sv_crypto sv) (sv_config sv) (sv_backend sv) (wo_store wo) (bd_dn b) (bd_password b) = Success \<and>
       (if bd_dn b = [] then se_bind_dn se' = []
        else resolveName (sv_config sv) (sv_backend sv) (wo_store wo) (bd_dn b) = Some (se_bind_dn se'))
     else \<exists>enabled outcome nonce r. sv_sasl sv = Some enabled \<and>
       saslBind (sv_crypto sv) (sv_read_file sv) enabled (sv_config sv) (sv_backend sv) (wo_store wo) b
         (se_tls se) (se_sasl_digest_nonce se) (en_time env) (wo_rng wo) = (outcome, nonce, r) \<and>
       sb_result outcome = Success \<and> se_bind_dn se' = sb_bind_dn outcome)"
  using handleBind_outcome [OF assms(1)] handleBind_store [OF assms(1)] unfolding b_def by (simp split: if_splits)

theorem session_bind_sound_witness:
  "\<exists>resp se' wo'. handleBind demoServer demoEnv (makeBindRequest 1 ''cn=r'' ''guess'') rootSession (demoWorld []) = (resp, se', wo') \<and>
     \<not> se_bound se' \<and> se_bind_dn se' = []"
proof -
  obtain resp se' wo' where h: "handleBind demoServer demoEnv (makeBindRequest 1 ''cn=r'' ''guess'') rootSession (demoWorld []) = (resp, se', wo')"
    using prod_cases3 by blast
  have "authBind (sv_crypto demoServer) (sv_config demoServer) (sv_backend demoServer) [] ''cn=r'' ''guess'' \<noteq> Success"
    by code_simp
  with session_bind_sound [OF h] have "\<not> se_bound se' \<and> se_bind_dn se' = []"
    by (auto simp: makeBindRequest_def defaultBind_def split: if_splits)
  with h show ?thesis by blast
qed

lemma extended_oids: "kPasswordModifyOid \<noteq> kStartTlsOid"
  by (simp add: kPasswordModifyOid_def kStartTlsOid_def)

text \<open>C6: Where confidentiality is required, the three requests that authenticate with a password or change one by name do not succeed over a
  connection without TLS: a simple bind with a password, a SASL PLAIN bind and the password modify operation.  Other requests
  that can carry a \<^verbatim>\<open>userPassword\<close> value (add, modify, compare) are not checked by the code.\<close>

theorem clear_passwords_refused:
  assumes "cf_require_confidentiality (sv_config sv)" "\<not> tp_tls (se_tls se)"
    and "dispatch sv env request se wo = (resp, se', wo')"
    and "msg_op request = BindRequest \<and>
        (if bd_simple (msg_bind request) then bd_password (msg_bind request) \<noteq> []
         else parseSaslMechanism (bd_sasl_mechanism (msg_bind request)) = Some PlainMech) \<or>
      msg_op request = ExtendedRequest \<and> msg_extended_oid request = kPasswordModifyOid"
  shows "msg_result resp \<noteq> Success"
  using assms(4)
proof
  assume bind: "msg_op request = BindRequest \<and>
        (if bd_simple (msg_bind request) then bd_password (msg_bind request) \<noteq> []
         else parseSaslMechanism (bd_sasl_mechanism (msg_bind request)) = Some PlainMech)"
  then have h: "handleBind sv env request se wo = (resp, se', wo')" using assms(3) by (simp add: dispatch_def Let_def)
  have "sb_result outcome \<noteq> Success"
    if "saslBind (sv_crypto sv) (sv_read_file sv) enabled (sv_config sv) (sv_backend sv) (wo_store wo) (msg_bind request)
         (se_tls se) nonce now r = (outcome, nonce', r')" "\<not> bd_simple (msg_bind request)"
    for enabled outcome nonce now r nonce' r'
    using that bind assms(1,2) by (auto simp: saslBind_def bindPlain_def saslFail_def split: if_splits)
  with handleBind_outcome [OF h] bind assms(1,2) show ?thesis by (auto split: if_splits)
next
  assume ext: "msg_op request = ExtendedRequest \<and> msg_extended_oid request = kPasswordModifyOid"
  then have h: "handlePasswordModify sv request se wo = (resp, wo')"
    using assms(3) extended_oids
    by (cases "handlePasswordModify sv request se wo") (simp add: dispatch_def handleExtended_def Let_def)
  have "\<not> (\<exists>target new. passwordTarget sv request se wo = Inr (target, new))"
    using passwordTarget_Inr(3) assms(1,2) by blast
  then obtain code diag where "passwordTarget sv request se wo = Inl (code, diag)"
    by (cases "passwordTarget sv request se wo") auto
  with h passwordTarget_refusal [of sv request se wo code diag] show ?thesis by (auto simp: handlePasswordModify_def)
qed

definition strictServer :: "MemoryState Server" where
  "strictServer = demoServer\<lparr>sv_config := (sv_config demoServer)\<lparr>cf_require_confidentiality := True\<rparr>\<rparr>"

theorem clear_passwords_refused_witness:
  "msg_result (fst (dispatch strictServer demoEnv (makeBindRequest 1 ''cn=r'' ''guess'') (newSession ''h'' noTls) (demoWorld []))) \<noteq> Success"
proof -
  let ?request = "makeBindRequest 1 ''cn=r'' ''guess''"
  obtain resp se' wo' where h: "dispatch strictServer demoEnv ?request (newSession ''h'' noTls) (demoWorld []) = (resp, se', wo')"
    using prod_cases3 by blast
  have "msg_result resp \<noteq> Success"
    by (rule clear_passwords_refused [OF _ _ h])
      (simp_all add: strictServer_def newSession_def noTls_def makeBindRequest_def defaultBind_def)
  with h show ?thesis by simp
qed

text \<open>An add request with a password is accepted in the clear, also where confidentiality is required.\<close>

lemma clear_add_accepted:
  "msg_result (fst (dispatch strictServer demoEnv
     (makeAddRequest 7 (toAddRequest \<lparr>de_dn = ''cn=u'', de_attributes = [(''userPassword'', [''secret''])]\<rparr>)) rootSession (demoWorld []))) = Success"
  by code_simp

text \<open>C5: A search sends only entries that the filter matches, that are in the scope of the request
  (or the root DSE), and that the access rules let the session see; of their attributes it sends
  the stored ones, and \<^verbatim>\<open>userPassword\<close> only to the root name.\<close>

theorem search_discloses_visible:
  assumes "mem_inv (wo_store wo)" "sv_backend sv = memoryBackend"
    and "handleSearch sv env request se wo = Some msgs" "m \<in> set msgs" "msg_op m = SearchResultEntry"
  defines "q \<equiv> msg_search request"
  shows "\<exists>e. (e = rootDse sv \<or> (\<exists>n. ci_map (wo_store wo) n = Some e \<and> inScope (sd_scope q) (de_dn e) (sd_base_dn q))) \<and>
    matches (sd_filter q) e \<and> aclMaySearch (sv_config sv) memoryBackend (wo_store wo) (se_bind_dn se) (de_dn e) \<and>
    ed_dn (msg_entry m) = de_dn e \<and>
    (\<forall>a \<in> set (ed_attributes (msg_entry m)). \<exists>vs. (pa_type a, vs) \<in> set (de_attributes e) \<and> set (pa_values a) \<subseteq> set vs \<and>
       (if iequals (pa_type a) ''userPassword''
        then se_bound se \<and> se_bind_dn se \<noteq> [] \<and> dnEquals (se_bind_dn se) (cf_root_dn (sv_config sv)) else True))"
proof -
  obtain e where e: "e \<in> set (searchMatches sv q wo)" "maySearch sv se wo (de_dn e)" "msg_entry m = toSearchEntry sv se e q"
    using handleSearch_entries [OF assms(3-5)] unfolding q_def by blast
  have "ed_dn (msg_entry m) = de_dn e" using e(3) by (simp add: toSearchEntry_def Let_def)
  moreover have "\<forall>a \<in> set (ed_attributes (msg_entry m)). \<exists>vs. (pa_type a, vs) \<in> set (de_attributes e) \<and> set (pa_values a) \<subseteq> set vs \<and>
       (if iequals (pa_type a) ''userPassword''
        then se_bound se \<and> se_bind_dn se \<noteq> [] \<and> dnEquals (se_bind_dn se) (cf_root_dn (sv_config sv)) else True)"
    using toSearchEntry_attributes [of _ sv se e q] unfolding e(3) by blast
  ultimately show ?thesis
    using memory.searchMatches_sound [OF assms(1,2) e(1)] e(2) assms(2) by (intro exI [of _ e]) (simp add: maySearch_def)
qed

definition demoSearch :: LdapMessage where
  "demoSearch = makeSearchRequest 9 (defaultSearch\<lparr>sd_base_dn := ''ou=x'', sd_scope := Base, sd_filter := present ''ou''\<rparr>)"

lemma demo_search:
  "handleSearch demoServer demoEnv demoSearch (newSession ''h'' noTls) (demoWorld [(''ou=x'', plainEntry ''ou=x'')]) =
     Some [makeSearchEntry 9 \<lparr>ed_dn = ''ou=x'', ed_attributes = [\<lparr>pa_type = ''ou'', pa_values = [''x'']\<rparr>]\<rparr>, makeSearchDone 9 Success []]"
  by code_simp

theorem search_discloses_visible_witness:
  "\<exists>e. ci_map [(''ou=x'', plainEntry ''ou=x'')] ''ou=x'' = Some e \<and>
     aclMaySearch (sv_config demoServer) memoryBackend [(''ou=x'', plainEntry ''ou=x'')] [] (de_dn e)"
proof -
  let ?m = "makeSearchEntry 9 \<lparr>ed_dn = ''ou=x'', ed_attributes = [\<lparr>pa_type = ''ou'', pa_values = [''x'']\<rparr>]\<rparr>"
  have "msg_op ?m = SearchResultEntry" "mem_inv (wo_store (demoWorld [(''ou=x'', plainEntry ''ou=x'')]))"
    by (simp_all add: plain_mem_inv)
  note w = search_discloses_visible [OF this(2) demo_backend(1) demo_search _ this(1), simplified]
  from w obtain e where
    e: "e = rootDse demoServer \<or> (\<exists>n. ci_map [(''ou=x'', plainEntry ''ou=x'')] n = Some e)" "''ou=x'' = de_dn e"
      "aclMaySearch (sv_config demoServer) memoryBackend [(''ou=x'', plainEntry ''ou=x'')] (se_bind_dn (newSession ''h'' noTls)) (de_dn e)"
    by blast
  from e(1) e(2) [symmetric] have "ci_map [(''ou=x'', plainEntry ''ou=x'')] ''ou=x'' = Some e"
    by (auto simp: rootDse_def Let_def ci_map_def split: if_splits)
  with e(3) show ?thesis by (simp add: newSession_def)
qed

text \<open>C11: Paging loses nothing and repeats nothing: a client that starts with an empty cookie and follows
  the cookies to the end gets, page by page, exactly the messages of the unpaged search, for every
  page size, as long as the directory does not change and neither a size nor a time limit is
  given.\<close>

theorem paging_complete:
  assumes "searchChecks sv (request\<lparr>msg_controls := []\<rparr>) se wo = Inr (- 1, [])" "0 < sint page"
    and "sint (sd_time_limit (msg_search request)) \<le> 0" "sint (sd_size_limit (msg_search request)) \<le> 0"
    and "length (visibleEntries sv (msg_search request) se wo) < 2 ^ 31"
  shows "\<exists>entries. followPages sv env request se wo page [] (Suc (length (visibleEntries sv (msg_search request) se wo))) = Some entries \<and>
    handleSearch sv env (request\<lparr>msg_controls := []\<rparr>) se wo = Some (entries @ [makeSearchDone (msg_id request) Success []])"
proof -
  have "pageOffset [] = Some (int 0)" by (simp add: pageOffset_def)
  from followPages_drop [OF assms _ this, of "Suc (length (visibleEntries sv (msg_search request) se wo))" env]
  have "followPages sv env request se wo page []
      (Suc (length (visibleEntries sv (msg_search request) se wo))) =
      Some (map (\<lambda>e. makeSearchEntry (msg_id request) (toSearchEntry sv se e (msg_search request)))
        (visibleEntries sv (msg_search request) se wo))" by (simp del: followPages.simps)
  moreover have "handleSearch sv env (request\<lparr>msg_controls := []\<rparr>) se wo =
      Some (map (\<lambda>e. makeSearchEntry (msg_id request) (toSearchEntry sv se e (msg_search request)))
        (visibleEntries sv (msg_search request) se wo) @ [makeSearchDone (msg_id request) Success []])"
    using assms sendEntries_all [OF assms(5,4), of 0 "- 1" env "[]"]
    by (simp add: handleSearch_def Let_def pageOffset_def searchDone_def toInt_small remaining_fits)
  ultimately show ?thesis by blast
qed

theorem paging_complete_witness:
  "\<exists>entries. followPages demoServer demoEnv demoSearch (newSession ''h'' noTls) (demoWorld [(''ou=x'', plainEntry ''ou=x'')]) 5 [] 2 = Some entries"
proof -
  let ?wo = "demoWorld [(''ou=x'', plainEntry ''ou=x'')]" and ?se = "newSession ''h'' noTls"
  have v: "length (visibleEntries demoServer (msg_search demoSearch) ?se ?wo) = 1"
    and c: "searchChecks demoServer (demoSearch\<lparr>msg_controls := []\<rparr>) ?se ?wo = Inr (- 1, [])"
    and p: "0 < sint (5 :: int32)" and t: "sint (sd_time_limit (msg_search demoSearch)) \<le> 0"
      "sint (sd_size_limit (msg_search demoSearch)) \<le> 0"
    by code_simp+
  from paging_complete [OF c p t, of demoEnv] v
  have "\<exists>entries. followPages demoServer demoEnv demoSearch ?se ?wo 5 [] (Suc 1) = Some entries"
    by (simp only: v) force
  then show ?thesis by (simp only: Suc_1)
qed

definition crashRequest :: LdapMessage where
  "crashRequest = (makeSearchRequest 1 (defaultSearch\<lparr>sd_scope := Base\<rparr>))
     \<lparr>msg_controls := [makePagedResultsControl 10 ''2147483648'' False]\<rparr>"

lemma keys_smap_push: "fst ` set (smap_push k x m) = insert k (fst ` set m)"
  by (simp add: smap_push_def keys_smap_put)

lemma rootDse_objectClass: "findValues (rootDse sv) ''objectClass'' \<noteq> None"
proof -
  have "find (\<lambda>pair. iequals (fst pair) ''objectClass'') (de_attributes (rootDse sv)) \<noteq> None"
  proof -
    have "''objectClass'' \<in> fst ` set (de_attributes (rootDse sv))"
      by (simp add: rootDse_def Let_def keys_smap_put keys_smap_push split: option.splits)
    then obtain pair where "''objectClass'' = fst pair" "pair \<in> set (de_attributes (rootDse sv))" by (rule imageE)
    then show ?thesis unfolding find_None_iff not_not by (intro exI [of _ pair]) simp
  qed
  then show ?thesis by (simp add: findValues_def)
qed

text \<open>C38: A single anonymous request makes the server read outside a vector: a search of the root DSE with
  the paged-results cookie \<^verbatim>\<open>2147483648\<close>, whatever the configuration, the directory and the session.
  The cookie is accepted as a non-negative \<^verbatim>\<open>long\<close>, becomes a negative \<^verbatim>\<open>int\<close>, and indexes the result
  vector.\<close>

theorem cookie_overflow_undefined: "processRequest sv env crashRequest se wo = (Undefined, [], se, wo)"
proof -
  have "msg_search crashRequest = defaultSearch\<lparr>sd_scope := Base\<rparr>" "msg_op crashRequest = SearchRequest"
    "msg_controls crashRequest = [makePagedResultsControl 10 ''2147483648'' False]"
    by (simp_all add: crashRequest_def makeSearchRequest_def)
  note request = this
  have "searchControls [makePagedResultsControl 10 ''2147483648'' False] (- 1) [] = Inr (10, ''2147483648'')"
    by code_simp
  then have checks: "searchChecks sv crashRequest se wo = Inr (10, ''2147483648'')"
    by (simp add: searchChecks_def request defaultSearch_def present_def)
  have "matches (present ''objectClass'') (rootDse sv)"
    using rootDse_objectClass [of sv] by (auto simp: matches_def present_def presentNode_def)
  moreover have "de_dn (rootDse sv) = []" by (simp add: rootDse_def Let_def)
  ultimately have visible: "visibleEntries sv (defaultSearch\<lparr>sd_scope := Base\<rparr>) se wo = [rootDse sv]"
    by (simp add: visibleEntries_def searchMatches_def defaultSearch_def maySearch_def aclMaySearch_def)
  have offset: "pageOffset ''2147483648'' = Some (- 2147483648)" by code_simp
  have one: "toInt 1 = 1" and ten: "sint (10 :: int32) = 10" by code_simp+
  have limits: "sd_time_limit (defaultSearch\<lparr>sd_scope := Base\<rparr>) = 0" "sd_size_limit (defaultSearch\<lparr>sd_scope := Base\<rparr>) = 0"
    by (simp_all add: defaultSearch_def)
  have "sendEntries env None 0 10 [rootDse sv] (- 2147483648) [] = None"
    by (simp add: sendEntries.simps [of env None 0 10] one)
  then have "handleSearch sv env crashRequest se wo = None"
    unfolding handleSearch_def Let_def checks request visible limits by (simp add: offset ten)
  with request show ?thesis by (simp add: processRequest_def)
qed

end
