(* ===== verification/SessionSystem.thy ===== *)
theory SessionSystem
  imports SessionAccess
begin

text \<open>
  Invariants over whole histories.  The first part shows that stored passwords carry a scheme under
  every request but a rename that makes the password the name.  The second part is the server as
  a transition system: sessions are accepted and take their events in any order over the shared
  directory.  Its step relation has the rounds of \<^verbatim>\<open>serve\<close> as steps; invariants follow by rule
  induction over the reachable states.
\<close>

section \<open>Stored passwords\<close>

definition password_values :: "string list smap \<Rightarrow> string set" where
  "password_values attrs = {v. \<exists>k vs. (k, vs) \<in> set attrs \<and> iequals k ''userPassword'' \<and> v \<in> set vs}"

definition passwords_schemed :: "(string \<rightharpoonup> DirectoryEntry) \<Rightarrow> bool" where
  "passwords_schemed m \<longleftrightarrow> (\<forall>n e. m n = Some e \<longrightarrow> (\<forall>v \<in> password_values (de_attributes e). scheme_or_empty v))"

lemma set_smap_put_subset: "set (smap_put k v m) \<subseteq> insert (k, v) (set m)"
  by (induction m) (auto split: if_splits)

lemma password_values_put:
  "password_values (smap_put k vs m) \<subseteq> password_values m \<union> (if iequals k ''userPassword'' then set vs else {})"
  using set_smap_put_subset [of k vs m] by (fastforce simp: password_values_def)

lemma password_values_del: "password_values (smap_del k m) \<subseteq> password_values m"
  using set_smap_del [of k m] by (fastforce simp: password_values_def)

lemma set_addValues: "set (snd (addValues vs xs)) \<subseteq> set vs \<union> set xs"
proof (induction vs arbitrary: xs)
  case (Cons v vs)
  then show ?case using Cons [of "xs @ [v]"] by auto
qed simp

lemma set_eraseValue: "set (eraseValue v xs) \<subseteq> set xs"
  by (induction xs) auto

lemma set_deleteValues: "set (snd (deleteValues vs xs)) \<subseteq> set xs"
proof (induction vs arbitrary: xs)
  case (Cons v vs)
  then show ?case using Cons [of "eraseValue v xs"] set_eraseValue [of v xs] by auto
qed simp

lemma findAttribute_password:
  assumes "findAttribute attrs name = Some (k, vs)"
  shows "iequals k ''userPassword'' = iequals name ''userPassword''"
    and "iequals k ''userPassword'' \<Longrightarrow> set vs \<subseteq> password_values attrs"
proof -
  from assms have k: "(k, vs) \<in> set attrs" "iequals k name"
    using ci_key_found [of name attrs k vs] by (simp_all add: findAttribute_def)
  then show "iequals k ''userPassword'' = iequals name ''userPassword''" by (simp add: iequals_def)
  show "set vs \<subseteq> password_values attrs" if "iequals k ''userPassword''"
    using k that by (auto simp: password_values_def)
qed

text \<open>What a change can put among the passwords.\<close>

definition change_passwords :: "AttributeModification \<Rightarrow> string set" where
  "change_passwords c =
     (if iequals (am_type c) ''userPassword'' \<and> am_op c \<noteq> Delete then set (am_values c) else {})"

lemma applyChange_passwords:
  "password_values (snd (applyChange c attrs)) \<subseteq> password_values attrs \<union> change_passwords c"
proof (cases "findAttribute attrs (am_type c)")
  case None
  then show ?thesis
    using password_values_put [of "am_type c" "am_values c" attrs]
    by (auto simp: applyChange_def change_passwords_def Let_def split: ModifyOp.splits if_splits)
next
  case (Some p)
  then obtain k vs where f: "findAttribute attrs (am_type c) = Some (k, vs)" by (cases p) simp
  note k = findAttribute_password [OF f]
  have put: "password_values (smap_put k vs' attrs) \<subseteq> password_values attrs \<union> X"
    if "set vs' \<subseteq> set vs \<union> Y" "iequals k ''userPassword'' \<Longrightarrow> Y \<subseteq> X" for vs' X Y
    using password_values_put [of k vs' attrs] that k(2) by (auto split: if_splits)
  show ?thesis
  proof (cases "am_op c")
    case Add
    with f k(1) put [OF set_addValues [of "am_values c" vs, unfolded Un_commute [of "set (am_values c)"]], of "change_passwords c"]
    show ?thesis by (auto simp: applyChange_def change_passwords_def Let_def case_prod_beta)
  next
    case Delete
    with f put [of "snd (deleteValues (am_values c) vs)" "{}" "{}"] set_deleteValues [of "am_values c" vs]
      password_values_del [of k attrs]
    show ?thesis by (auto simp: applyChange_def Let_def case_prod_beta)
  next
    case Replace
    with f k(1) password_values_del [of k attrs] put [of "am_values c" "set (am_values c)" "change_passwords c"]
    show ?thesis by (auto simp: applyChange_def change_passwords_def Let_def)
  qed (use f in \<open>simp add: applyChange_def\<close>)
qed

lemma applyModifications_passwords:
  "password_values (de_attributes (snd (applyModifications e cs))) \<subseteq>
     password_values (de_attributes e) \<union> (\<Union>c \<in> set cs. change_passwords c)"
proof -
  have "password_values (snd (applyChanges cs attrs)) \<subseteq> password_values attrs \<union> (\<Union>c \<in> set cs. change_passwords c)" for attrs
  proof (induction cs arbitrary: attrs)
    case (Cons c cs)
    show ?case using applyChange_passwords [of c attrs] Cons [of "snd (applyChange c attrs)"]
      by (auto simp: Let_def case_prod_beta)
  qed simp
  then show ?thesis by (simp add: applyModifications_def case_prod_beta)
qed

lemma encodeChanges_passwords:
  "hash_works cr \<Longrightarrow> c \<in> set (fst (encodeUserPasswordChanges cr cs r)) \<Longrightarrow> v \<in> change_passwords c \<Longrightarrow> scheme_or_empty v"
proof (induction cr cs r rule: encodeUserPasswordChanges.induct)
  case (2 cr change changes r)
  let ?step = "if am_op change = Delete \<or> \<not> iequals (am_type change) ''userPassword'' then (change, r)
            else case encodeAll cr (am_values change) r of (vs, r) \<Rightarrow> (change\<lparr>am_values := vs\<rparr>, r)"
  obtain c1 r1 where c1: "?step = (c1, r1)" by (cases ?step)
  obtain cs2 r2 where cs2: "encodeUserPasswordChanges cr changes r1 = (cs2, r2)" by fastforce
  have first: "scheme_or_empty v" if "v \<in> change_passwords c1"
    using that c1 encodeAll_scheme [OF "2.prems"(1), of v "am_values change" r]
    by (auto simp: change_passwords_def case_prod_beta split: if_splits)
  have "c = c1 \<or> c \<in> set cs2" using "2.prems"(2) by (simp add: c1 cs2)
  with first "2.IH" [OF c1 [symmetric] "2.prems"(1) _ "2.prems"(3)] "2.prems"(3) cs2 show ?case by auto
qed simp

lemma change_passwords_simps [simp]:
  "change_passwords \<lparr>am_op = op, am_type = ty, am_values = vs\<rparr> = (if iequals ty ''userPassword'' \<and> op \<noteq> Delete then set vs else {})"
  by (simp add: change_passwords_def)

text \<open>A rename whose new relative name is a password value.\<close>

definition password_rename :: "ModifyDnRequestData \<Rightarrow> bool" where
  "password_rename q =
     (case parseRdn (dd_new_rdn q) of None \<Rightarrow> False | Some (ty, val) \<Rightarrow> iequals ty ''userPassword'')"

lemma removeOldRdn_passwords: "password_values (de_attributes (snd (removeOldRdn q e))) \<subseteq> password_values (de_attributes e)"
proof (cases "if dd_delete_old_rdn q then parseRdn (dnRdn (dd_dn q)) else None")
  case (Some p)
  then show ?thesis
    using applyModifications_passwords [of e "[\<lparr>am_op = Delete, am_type = fst p, am_values = [snd p]\<rparr>]"]
    by (cases p) (simp add: removeOldRdn_def case_prod_beta)
qed (simp add: removeOldRdn_def)

lemma addNewRdn_passwords:
  assumes "\<not> password_rename q"
  shows "password_values (de_attributes (snd (addNewRdn q e))) \<subseteq> password_values (de_attributes e)"
proof (cases "parseRdn (dd_new_rdn q)")
  case (Some p)
  with assms have "\<not> iequals (fst p) ''userPassword''" by (simp add: password_rename_def case_prod_beta)
  with Some show ?thesis
    using applyModifications_passwords [of e "[\<lparr>am_op = Add, am_type = fst p, am_values = [snd p]\<rparr>]"]
    by (cases p) (simp add: addNewRdn_def case_prod_beta)
qed (simp add: addNewRdn_def)

lemma passwords_schemed_update:
  "passwords_schemed m \<Longrightarrow> \<forall>v \<in> password_values (de_attributes e). scheme_or_empty v \<Longrightarrow> passwords_schemed (m(n \<mapsto> e))"
  by (simp add: passwords_schemed_def)

lemma passwords_schemed_remove: "passwords_schemed m \<Longrightarrow> passwords_schemed (m(n := None))"
  by (simp add: passwords_schemed_def)


context directory
begin

lemma dispatch_passwords:
  assumes "inv (wo_store wo)" "sv_backend sv = B" "dispatch sv env request se wo = (resp, se', wo')"
    and hw: "hash_works (sv_crypto sv)" and ph: "passwords_schemed (abs (wo_store wo))"
    and "\<not> (msg_op request = ModifyDNRequest \<and> password_rename (msg_modify_dn request))"
  shows "passwords_schemed (abs (wo_store wo'))"
proof -
  consider (modify) "handleModify sv request se wo = (resp, wo')"
    | (add) "handleAdd sv request se wo = (resp, wo')"
    | (delete) "handleDelete sv request se wo = (resp, wo')"
    | (rename) "handleModifyDn sv request se wo = (resp, wo')" "\<not> password_rename (msg_modify_dn request)"
    | (password) "handlePasswordModify sv request se wo = (resp, wo')"
    | (other) "wo_store wo' = wo_store wo"
    using assms(3,6) handleBind_store [of sv env request se wo resp se' wo']
    by (auto simp: dispatch_def handleExtended_def Let_def case_prod_beta split: ProtocolOp.splits if_splits)
  then show ?thesis
  proof cases
    case modify
    show ?thesis
    proof (cases "msg_result resp = Success")
      case True
      let ?cs = "fst (encodeUserPasswordChanges (sv_crypto sv) (md_changes (msg_modify request)) (wo_rng wo))"
      from modify_effect [OF assms(1,2) modify] True obtain e0 e where
        e: "abs (wo_store wo) (toLowerAscii (md_dn (msg_modify request))) = Some e0" "applyModifications e0 ?cs = (Success, e)"
          "abs (wo_store wo') = (abs (wo_store wo))(toLowerAscii (md_dn (msg_modify request)) \<mapsto> e)" by auto
      have "\<forall>v \<in> password_values (de_attributes e). scheme_or_empty v"
        using applyModifications_passwords [of e0 ?cs] e(1,2) ph encodeChanges_passwords [OF hw]
        by (auto simp: passwords_schemed_def)
      with e(3) ph show ?thesis by (simp add: passwords_schemed_update)
    qed (use modify_effect [OF assms(1,2) modify] ph in simp)
  next
    case add
    show ?thesis
    proof (cases "msg_result resp = Success")
      case True
      let ?m = "de_attributes (toDirectoryEntry (msg_add request))"
      have "\<forall>v \<in> password_values (fst (encodePasswordAttributes (sv_crypto sv) ?m (wo_rng wo))). scheme_or_empty v"
        using encodePasswordAttributes_scheme [OF hw] by (auto simp: password_values_def)
      with add_effect [OF assms(1,2) add] True ph show ?thesis
        by (simp add: passwords_schemed_update encodeUserPasswords_def case_prod_beta)
    qed (use add_effect [OF assms(1,2) add] ph in simp)
  next
    case delete
    from delete_effect [OF assms(1,2) delete] ph show ?thesis by (auto intro: passwords_schemed_remove split: if_splits)
  next
    case rename
    show ?thesis
    proof (cases "msg_result resp = Success")
      case True
      let ?q = "msg_modify_dn request"
      from rename_effect [OF assms(1,2) rename(1)] True obtain e0 n where
        e: "abs (wo_store wo) (toLowerAscii (dd_dn ?q)) = Some e0"
        and wo': "abs (wo_store wo') = (abs (wo_store wo))(toLowerAscii (dd_dn ?q) \<mapsto> snd (addNewRdn ?q (snd (removeOldRdn ?q e0)))) \<or>
          (\<exists>new. abs (wo_store wo') = (abs (wo_store wo))(toLowerAscii (dd_dn ?q) := None,
             n \<mapsto> (snd (addNewRdn ?q (snd (removeOldRdn ?q e0))))\<lparr>de_dn := new\<rparr>))"
        by (auto split: if_splits)
      have "\<forall>v \<in> password_values (de_attributes (snd (addNewRdn ?q (snd (removeOldRdn ?q e0))))). scheme_or_empty v"
        using subset_trans [OF addNewRdn_passwords [OF rename(2)] removeOldRdn_passwords [of ?q e0]] e ph
        unfolding passwords_schemed_def by blast
      with wo' ph show ?thesis by (auto intro!: passwords_schemed_update passwords_schemed_remove)
    qed (use rename_effect [OF assms(1,2) rename(1)] ph in simp)
  next
    case password
    show ?thesis
    proof (cases "msg_result resp = Success")
      case True
      from password_effect [OF assms(1,2) password] True obtain target new e0 e where
        e: "abs (wo_store wo) (toLowerAscii target) = Some e0"
          "applyModifications e0 [\<lparr>am_op = Replace, am_type = ''userPassword'',
             am_values = [fst (encodeUserPassword (sv_crypto sv) new (wo_rng wo))]\<rparr>] = (Success, e)"
          "abs (wo_store wo') = (abs (wo_store wo))(toLowerAscii target \<mapsto> e)" by auto
      have "\<forall>v \<in> password_values (de_attributes e). scheme_or_empty v"
        using applyModifications_passwords [of e0 "[\<lparr>am_op = Replace, am_type = ''userPassword'',
             am_values = [fst (encodeUserPassword (sv_crypto sv) new (wo_rng wo))]\<rparr>]"] e(1,2) ph
          encodeUserPassword_scheme [OF hw, of new "wo_rng wo"]
        by (auto simp: passwords_schemed_def)
      with e(3) ph show ?thesis by (simp add: passwords_schemed_update)
    qed (use password_effect [OF assms(1,2) password] ph in simp)
  qed (use ph in simp)
qed

end

section \<open>The server as a transition system\<close>

record 's System =
  sy_world :: "'s World"
  sy_sessions :: "nat \<rightharpoonup> Session"

text \<open>A step accepts a connection, or lets one session handle one event; a session whose round does not
  continue is gone.\<close>

inductive system_step :: "'s Server \<Rightarrow> 's System \<Rightarrow> 's System \<Rightarrow> bool" for sv where
  accept: "sy_sessions S i = None \<Longrightarrow>
    system_step sv S (S\<lparr>sy_sessions := (sy_sessions S)(i \<mapsto> newSession peer tls)\<rparr>)"
| round: "sy_sessions S i = Some se \<Longrightarrow>
    serveRound sv event last_activity se (sy_world S) = (last_activity', outcome, out, se', wo') \<Longrightarrow>
    system_step sv S (S\<lparr>sy_world := wo',
      sy_sessions := (sy_sessions S)(i := if outcome = Continue then Some se' else None)\<rparr>)"

inductive_cases system_stepE: "system_step sv S S'"

definition reachable :: "'s Server \<Rightarrow> 's World \<Rightarrow> 's System \<Rightarrow> bool" where
  "reachable sv wo S \<longleftrightarrow> (system_step sv)\<^sup>*\<^sup>* \<lparr>sy_world = wo, sy_sessions = Map.empty\<rparr> S"

lemma serveRound_cases:
  assumes "serveRound sv event last_activity se wo = (last_activity', outcome, out, se', wo')"
  obtains "se' = se" "wo' = wo"
  | now pdu env request where "event = Received now pdu env" "decodeLdapMessage pdu = Some request"
      "processRequest sv env request se wo = (outcome, out, se', wo')"
  using assms by (cases event) (auto simp: serveRound_def split: option.splits)

definition session_ok :: "Session \<Rightarrow> bool" where
  "session_ok se \<longleftrightarrow> se_bound se \<or> se_bind_dn se = []"

lemma session_ok_new [simp]: "session_ok (newSession peer tls)"
  by (simp add: session_ok_def newSession_def)

lemma processRequest_session_ok:
  assumes "processRequest sv env request se wo = (outcome, out, se', wo')" "session_ok se"
  shows "session_ok se'"
proof (rule processRequest_cases [OF assms(1)])
  fix resp assume d: "dispatch sv env request se wo = (resp, se', wo')"
  show ?thesis
  proof (cases "msg_op request = BindRequest")
    case True
    with d have "handleBind sv env request se wo = (resp, se', wo')" by (simp add: dispatch_def Let_def)
    from handleBind_outcome [OF this] show ?thesis by (auto simp: session_ok_def split: if_splits)
  next
    case False
    from dispatch_session [OF d False] assms(2) show ?thesis by simp
  qed
qed (use assms(2) in \<open>simp add: session_ok_def\<close>)

text \<open>Invariants of the system from invariants of a round.\<close>

definition system_ok :: "('s World \<Rightarrow> bool) \<Rightarrow> (Session \<Rightarrow> bool) \<Rightarrow> 's System \<Rightarrow> bool" where
  "system_ok world_ok client_ok S \<longleftrightarrow>
     world_ok (sy_world S) \<and> (\<forall>i se. sy_sessions S i = Some se \<longrightarrow> client_ok se)"

locale system_invariant =
  fixes sv :: "'s Server"
    and world_ok :: "'s World \<Rightarrow> bool"
    and client_ok :: "Session \<Rightarrow> bool"
  assumes new_ok: "client_ok (newSession peer tls)"
    and round_ok: "world_ok wo \<Longrightarrow> client_ok se \<Longrightarrow>
      processRequest sv env request se wo = (outcome, out, se', wo') \<Longrightarrow> world_ok wo' \<and> client_ok se'"
begin

lemma step_ok:
  assumes "system_step sv S S'" "system_ok world_ok client_ok S"
  shows "system_ok world_ok client_ok S'"
  using assms(1)
proof cases
  case (accept i peer tls)
  with assms(2) new_ok show ?thesis by (auto simp: system_ok_def)
next
  case (round i se event last_activity last_activity' outcome out se' wo')
  have "world_ok wo' \<and> client_ok se'"
    using round(3) assms(2) round(2) by (elim serveRound_cases) (auto simp: system_ok_def dest: round_ok)
  with round(1) assms(2) show ?thesis by (auto simp: system_ok_def split: if_splits)
qed

lemma reachable_ok:
  assumes "world_ok wo" "reachable sv wo S"
  shows "system_ok world_ok client_ok S"
  using assms(2) unfolding reachable_def
proof (induction rule: rtranclp_induct)
  case base
  from assms(1) show ?case by (simp add: system_ok_def)
next
  case (step S S')
  then show ?case by (blast intro: step_ok)
qed

end


interpretation server: system_invariant sv
    "\<lambda>wo. sv_backend sv = memoryBackend \<longrightarrow> mem_inv (wo_store wo)" session_ok
  for sv :: "MemoryState Server"
proof
  fix peer tls
  show "session_ok (newSession peer tls)" by simp
next
  fix wo se env request outcome out se' wo'
  assume ok: "sv_backend sv = memoryBackend \<longrightarrow> mem_inv (wo_store wo)" "session_ok se"
    and p: "processRequest sv env request se wo = (outcome, out, se', wo')"
  have "mem_inv (wo_store wo')" if B: "sv_backend sv = memoryBackend"
  proof (rule processRequest_cases [OF p])
    fix resp assume "dispatch sv env request se wo = (resp, se', wo')"
    from memory.dispatch_effect(1) [OF _ B this] ok(1) B show ?thesis by blast
  qed (use ok(1) B in simp)
  with processRequest_session_ok [OF p ok(2)]
  show "(sv_backend sv = memoryBackend \<longrightarrow> mem_inv (wo_store wo')) \<and> session_ok se'" by blast
qed

section \<open>Properties\<close>

text \<open>C3: In every state the server reaches from a sound directory, with any number of sessions accepted
  and served in any order, the directory satisfies its invariant (names distinct up to case, each
  entry under its own name), and a session that is not bound is anonymous.\<close>

theorem reachable_states_sound:
  assumes "sv_backend sv = memoryBackend" "mem_inv (wo_store wo)" "reachable sv wo S"
  shows "mem_inv (wo_store (sy_world S)) \<and>
    (\<forall>se \<in> ran (sy_sessions S). se_bound se \<or> se_bind_dn se = [])"
  using server.reachable_ok [OF _ assms(3)] assms(1,2)
  by (auto simp: system_ok_def session_ok_def ran_def)

theorem reachable_states_sound_witness:
  "\<exists>S. reachable demoServer (demoWorld []) S \<and> sy_sessions S 0 = Some (newSession ''h'' noTls) \<and> mem_inv (wo_store (sy_world S))"
proof -
  let ?S = "\<lparr>sy_world = demoWorld [], sy_sessions = [0 \<mapsto> newSession ''h'' noTls]\<rparr>"
  have "system_step demoServer \<lparr>sy_world = demoWorld [], sy_sessions = Map.empty\<rparr> ?S"
    using accept [of "\<lparr>sy_world = demoWorld [], sy_sessions = Map.empty\<rparr>" 0] by simp
  then have r: "reachable demoServer (demoWorld []) ?S" by (simp add: reachable_def)
  from reachable_states_sound [OF demo_backend(1) _ r] r show ?thesis
    by (intro exI [of _ ?S]) (simp add: mem_inv_def)
qed

text \<open>C7: Stored passwords carry a scheme.  If every stored value of \<^verbatim>\<open>userPassword\<close> is empty or starts with a scheme in braces, this still holds
  after any request, as long as the hash functions work, unless the request renames an entry to a relative name of that type.  So a
  password that a client sends without a scheme is not stored as it was sent.  A value that the client sends with a scheme of its own is
  stored as it is, also one with \<^verbatim>\<open>{CLEARTEXT}\<close>.\<close>

theorem passwords_carry_scheme:
  assumes "mem_inv (wo_store wo)" "sv_backend sv = memoryBackend" "hash_works (sv_crypto sv)"
    and "passwords_schemed (ci_map (wo_store wo))"
    and "processRequest sv env request se wo = (outcome, out, se', wo')"
    and "\<not> (msg_op request = ModifyDNRequest \<and> password_rename (msg_modify_dn request))"
  shows "passwords_schemed (ci_map (wo_store wo'))"
proof (rule processRequest_cases [OF assms(5)])
  fix resp assume "dispatch sv env request se wo = (resp, se', wo')"
  from memory.dispatch_passwords [OF assms(1,2) this assms(3,4,6)] show ?thesis .
qed (use assms(4) in simp)

definition secretAdd :: "int32 \<Rightarrow> string \<Rightarrow> LdapMessage" where
  "secretAdd i dn = makeAddRequest i (toAddRequest \<lparr>de_dn = dn, de_attributes = [(''userPassword'', [''secret''])]\<rparr>)"

lemma demo_hash_works: "hash_works (sv_crypto demoServer)"
  by (auto simp: demoServer_def hash_works_def demoCrypto_def sha1_def kSha1Length_def min_def)

text \<open>An add request with the password \<^verbatim>\<open>secret\<close>: what is stored has a scheme.\<close>

theorem passwords_carry_scheme_witness:
  "\<exists>outcome out se' wo' v. processRequest demoServer demoEnv (secretAdd 7 ''cn=u'') rootSession (demoWorld []) = (outcome, out, se', wo') \<and>
     ci_map (wo_store wo') ''cn=u'' = Some \<lparr>de_dn = ''cn=u'', de_attributes = [(''userPassword'', [v])]\<rparr> \<and> schemePrefix v \<noteq> None"
proof -
  let ?run = "processRequest demoServer demoEnv (secretAdd 7 ''cn=u'') rootSession (demoWorld [])"
  obtain outcome out se' wo' where run: "?run = (outcome, out, se', wo')" using prod_cases4 by blast
  have "map_option de_attributes (ci_map (wo_store (snd (snd (snd ?run)))) ''cn=u'') \<noteq> None"
      "map_option de_dn (ci_map (wo_store (snd (snd (snd ?run)))) ''cn=u'') = Some ''cn=u''"
      "map_option (map (\<lambda>(n, vs). (n, length vs, hd vs = [])) \<circ> de_attributes) (ci_map (wo_store (snd (snd (snd ?run)))) ''cn=u'') =
         Some [(''userPassword'', 1, False)]"
    by code_simp+
  then obtain e v where e: "ci_map (wo_store wo') ''cn=u'' = Some e" "de_dn e = ''cn=u''" "de_attributes e = [(''userPassword'', [v])]" "v \<noteq> []"
    unfolding run by (auto simp: length_Suc_conv)
  have "passwords_schemed (ci_map [])" "mem_inv []" "msg_op (secretAdd 7 ''cn=u'') = AddRequest"
    by (simp_all add: passwords_schemed_def ci_map_def mem_inv_def secretAdd_def makeAddRequest_def)
  then have "passwords_schemed (ci_map (wo_store wo'))"
    using passwords_carry_scheme [OF _ demo_backend(1) demo_hash_works _ run] by (simp add: demoWorld_def)
  moreover have "v \<in> password_values (de_attributes e)" by (simp add: e password_values_def isUserPassword_def)
  ultimately have "schemePrefix v \<noteq> None" using e(1,4) by (fastforce simp: passwords_schemed_def scheme_or_empty_def)
  with run e show ?thesis by (intro exI [of _ outcome] exI [of _ out] exI [of _ se'] exI [of _ wo'] exI [of _ v]) (simp add: prod_eq_iff)
qed

definition passwordRename :: LdapMessage where
  "passwordRename = makeModifyDnRequest 8
     \<lparr>dd_dn = ''ou=x'', dd_new_rdn = ''userPassword=p'', dd_delete_old_rdn = False, dd_new_superior = []\<rparr>"

text \<open>The exception is real: a rename to a relative name of type \<^verbatim>\<open>userPassword\<close> stores the value in
  the clear, since only add and modify requests are passed through the hash.\<close>

lemma rename_stores_clear_password:
  "handleModifyDn demoServer passwordRename rootSession (demoWorld [(''ou=x'', plainEntry ''ou=x'')]) =
     (makeLdapResult 8 ModifyDNResponse Success [],
      demoWorld [(''userPassword=p'', \<lparr>de_dn = ''userPassword=p'', de_attributes = [(''ou'', [''x'']), (''userPassword'', [''p''])]\<rparr>)])"
  by code_simp

end
