(* ===== verification/Interleaving.thy ===== *)
theory Interleaving
  imports SessionSystem
begin

text \<open>
  Requests of different sessions at the grain of backend calls.  Each session has its own thread; the backend's mutex makes one call
  atomic, not a handler.  Here a handler is a program (\<open>prog\<close>) of atomic steps: one per check and backend call of the handlers of
  \<^verbatim>\<open>src/simple-ldapd/core/session.cpp\<close> that write, while a request that does not write is one step.  The checks before a
  password change and the tests of access rules read the backend several times and are one step each.  A program that runs without
  interruption is shown to be the handler; then any number of programs are interleaved.  The directory stays sound
  and stored passwords carry a scheme; updates that both succeed can still lose one another's effect.
\<close>

section \<open>Programs\<close>

datatype ('w, 'a) prog = Done 'a | Step "'w \<Rightarrow> ('w, 'a) prog \<times> 'w"

definition ask :: "('w \<Rightarrow> 'b) \<Rightarrow> ('b \<Rightarrow> ('w, 'a) prog) \<Rightarrow> ('w, 'a) prog" where
  "ask g k = Step (\<lambda>w. (k (g w), w))"

definition act :: "('w \<Rightarrow> 'b \<times> 'w) \<Rightarrow> ('b \<Rightarrow> ('w, 'a) prog) \<Rightarrow> ('w, 'a) prog" where
  "act g k = Step (\<lambda>w. case g w of (x, w) \<Rightarrow> (k x, w))"

primrec run :: "('w, 'a) prog \<Rightarrow> 'w \<Rightarrow> 'a \<times> 'w" where
  "run (Done x) = (\<lambda>w. (x, w))"
| "run (Step f) = (\<lambda>w. case map_prod run id (f w) of (g, w) \<Rightarrow> g w)"

lemma run_ask [simp]: "run (ask g k) w = run (k (g w)) w"
  by (simp add: ask_def)

lemma run_act [simp]: "run (act g k) w = (case g w of (x, w) \<Rightarrow> run (k x) w)"
  by (simp add: act_def case_prod_beta)

text \<open>A pool of programs over a shared state: any of them takes its next step, or a new one from \<open>R\<close> comes.\<close>

inductive interleave :: "('w, 'a) prog set \<Rightarrow> ('w, 'a) prog list \<times> 'w \<Rightarrow> ('w, 'a) prog list \<times> 'w \<Rightarrow> bool" for R where
  arrive: "p \<in> R \<Longrightarrow> interleave R (ps, w) (ps @ [p], w)"
| advance: "i < length ps \<Longrightarrow> ps ! i = Step f \<Longrightarrow> f w = (p, w') \<Longrightarrow> interleave R (ps, w) (ps[i := p], w')"

inductive_cases interleaveE: "interleave R c c'"

text \<open>A schedule: which program takes the next step.\<close>

definition advanceOne :: "nat \<Rightarrow> ('w, 'a) prog list \<times> 'w \<Rightarrow> ('w, 'a) prog list \<times> 'w" where
  "advanceOne i c =
     (case c of (ps, w) \<Rightarrow>
        if i < length ps then (case ps ! i of Done x \<Rightarrow> c | Step f \<Rightarrow> (case f w of (p, w) \<Rightarrow> (ps[i := p], w))) else c)"

lemma advanceOne_interleave: "(interleave R)\<^sup>*\<^sup>* c (advanceOne i c)"
  by (cases c) (auto simp: advanceOne_def split: prog.splits prod.splits intro!: r_into_rtranclp interleave.advance)

lemma schedule_interleave: "(interleave R)\<^sup>*\<^sup>* c (fold advanceOne turns c)"
proof (induction turns arbitrary: c)
  case (Cons i turns)
  from rtranclp_trans [OF advanceOne_interleave this] show ?case by simp
qed simp

section \<open>Safe programs\<close>

text \<open>A program that keeps \<open>I\<close> at every step, whatever the other programs do between its steps, as long as they keep \<open>I\<close> too.\<close>

inductive safe :: "('w \<Rightarrow> bool) \<Rightarrow> ('w, 'a) prog \<Rightarrow> bool" for I where
  safe_done [intro, simp]: "safe I (Done x)"
| safe_step: "(\<And>w. I w \<Longrightarrow> safe I (fst (f w)) \<and> I (snd (f w))) \<Longrightarrow> safe I (Step f)"

inductive_cases safe_stepE: "safe I (Step f)"

lemma safe_ask: "(\<And>w. I w \<Longrightarrow> safe I (k (g w))) \<Longrightarrow> safe I (ask g k)"
  unfolding ask_def by (rule safe_step) simp

lemma safe_act:
  assumes "\<And>w x w'. I w \<Longrightarrow> g w = (x, w') \<Longrightarrow> I w' \<and> safe I (k x)"
  shows "safe I (act g k)"
  unfolding act_def
proof (rule safe_step)
  fix w assume "I w"
  moreover obtain x w' where "g w = (x, w')" by fastforce
  ultimately show "safe I (fst (case g w of (x, w) \<Rightarrow> (k x, w))) \<and> I (snd (case g w of (x, w) \<Rightarrow> (k x, w)))"
    using assms by simp
qed

lemma interleave_safe:
  assumes "(interleave R)\<^sup>*\<^sup>* (ps, w) (ps', w')" "\<forall>p \<in> R. safe I p" "list_all (safe I) ps" "I w"
  shows "list_all (safe I) ps' \<and> I w'"
proof -
  have "(interleave R)\<^sup>*\<^sup>* c c' \<Longrightarrow> list_all (safe I) (fst c) \<and> I (snd c) \<Longrightarrow> list_all (safe I) (fst c') \<and> I (snd c')" for c c'
  proof (induction rule: rtranclp_induct)
    case (step c1 c2)
    from step(2) show ?case
    proof cases
      case (arrive p ps w)
      with step assms(2) show ?thesis by simp
    next
      case (advance i ps f w p w2)
      with step have "safe I (Step f)" "I w" by (auto simp: list_all_length)
      then have "safe I (fst (f w)) \<and> I (snd (f w))" by (auto elim: safe_stepE)
      with advance step show ?thesis by (auto simp: list_all_iff dest!: set_update_subset_insert [THEN subsetD])
    qed
  qed
  from this [OF assms(1)] assms(3,4) show ?thesis by simp
qed

section \<open>The handlers as programs\<close>

text \<open>A backend update, and \<^verbatim>\<open>persist\<close> after success.\<close>

definition update :: "('s \<Rightarrow> bool \<times> 's) \<Rightarrow> 's World \<Rightarrow> bool \<times> 's World" where
  "update f wo = (case f (wo_store wo) of (ok, s) \<Rightarrow> (ok, wo\<lparr>wo_store := s\<rparr>))"

definition persistProg :: "'s Server \<Rightarrow> LdapMessage \<Rightarrow> ('s World, LdapMessage) prog" where
  "persistProg sv success = act (\<lambda>wo. ((), wo\<lparr>wo_store := be_persist (sv_backend sv) (wo_store wo)\<rparr>)) (\<lambda>_. Done success)"

definition lookupProg :: "'s Server \<Rightarrow> string \<Rightarrow> (DirectoryEntry option \<Rightarrow> ('s World, LdapMessage) prog) \<Rightarrow> ('s World, LdapMessage) prog" where
  "lookupProg sv dn k = ask (\<lambda>wo. be_lookup (sv_backend sv) (wo_store wo) dn) k"

text \<open>Drawing salts for passwords moves the shared random source.\<close>

definition saltProg :: "(rng \<Rightarrow> 'b \<times> rng) \<Rightarrow> ('b \<Rightarrow> ('s World, LdapMessage) prog) \<Rightarrow> ('s World, LdapMessage) prog" where
  "saltProg f k = act (\<lambda>wo. case f (wo_rng wo) of (x, r) \<Rightarrow> (x, wo\<lparr>wo_rng := r\<rparr>)) k"

definition addProg :: "'s Server \<Rightarrow> LdapMessage \<Rightarrow> Session \<Rightarrow> ('s World, LdapMessage) prog" where
  "addProg sv request se =
     (let result = makeLdapResult (msg_id request) AddResponse; B = sv_backend sv; dn = ad_dn (msg_add request);
          write = saltProg (encodeUserPasswords (sv_crypto sv) (toDirectoryEntry (msg_add request))) (\<lambda>entry.
            case checkSchema sv entry of (schema, diagnostic) \<Rightarrow>
              if schema \<noteq> Success then Done (result schema diagnostic)
              else act (update (\<lambda>s. be_add B s entry)) (\<lambda>ok.
                if \<not> ok then Done (result OperationsError ''add failed'') else persistProg sv (result Success [])))
      in ask (\<lambda>wo. mayWrite sv se wo dn) (\<lambda>may.
        if \<not> may then Done (result InsufficientAccessRights ''insufficient access'')
        else if dn = [] then Done (result InvalidDnSyntax ''empty DN'')
        else lookupProg sv dn (\<lambda>found.
          if found \<noteq> None then Done (result EntryAlreadyExists ''entry already exists'')
          else if dnParent dn = [] then write
          else lookupProg sv (dnParent dn) (\<lambda>parent.
            if parent = None then Done (result NamingViolation ''parent does not exist'') else write))))"

definition modifyProg :: "'s Server \<Rightarrow> LdapMessage \<Rightarrow> Session \<Rightarrow> ('s World, LdapMessage) prog" where
  "modifyProg sv request se =
     (let result = makeLdapResult (msg_id request) ModifyResponse; B = sv_backend sv; dn = md_dn (msg_modify request)
      in ask (\<lambda>wo. mayWrite sv se wo dn) (\<lambda>may.
        if \<not> may then Done (result InsufficientAccessRights ''insufficient access'')
        else lookupProg sv dn (\<lambda>found.
          case found of
            None \<Rightarrow> Done (result NoSuchObject ''no such object'')
          | Some entry \<Rightarrow>
              saltProg (encodeUserPasswordChanges (sv_crypto sv) (md_changes (msg_modify request))) (\<lambda>changes.
                case applyModifications entry changes of (applied, entry) \<Rightarrow>
                  if applied \<noteq> Success then Done (result applied (toString applied))
                  else case checkSchema sv entry of (schema, diagnostic) \<Rightarrow>
                    if schema \<noteq> Success then Done (result schema diagnostic)
                    else act (update (\<lambda>s. be_modify B s entry)) (\<lambda>ok.
                      if \<not> ok then Done (result OperationsError ''modify failed'') else persistProg sv (result Success []))))))"

definition deleteProg :: "'s Server \<Rightarrow> LdapMessage \<Rightarrow> Session \<Rightarrow> ('s World, LdapMessage) prog" where
  "deleteProg sv request se =
     (let result = makeLdapResult (msg_id request) DelResponse; B = sv_backend sv; dn = msg_delete_dn request
      in ask (\<lambda>wo. mayWrite sv se wo dn) (\<lambda>may.
        if \<not> may then Done (result InsufficientAccessRights ''insufficient access'')
        else lookupProg sv dn (\<lambda>found.
          if found = None then Done (result NoSuchObject ''no such object'')
          else ask (\<lambda>wo. be_hasChildren B (wo_store wo) dn) (\<lambda>children.
            if children then Done (result NotAllowedOnNonLeaf ''entry has children'')
            else act (update (\<lambda>s. be_remove B s dn)) (\<lambda>ok.
              if \<not> ok then Done (result OperationsError ''delete failed'') else persistProg sv (result Success []))))))"

definition renameWrite :: "'s Server \<Rightarrow> LdapMessage \<Rightarrow> string \<Rightarrow> DirectoryEntry \<Rightarrow> ('s World, LdapMessage) prog" where
  "renameWrite sv request new_dn entry =
     (let result = makeLdapResult (msg_id request) ModifyDNResponse; B = sv_backend sv; q = msg_modify_dn request
      in case removeOldRdn q entry of (removed, entry) \<Rightarrow>
        if removed \<noteq> Success then Done (result removed (toString removed))
        else case addNewRdn q entry of (added, entry) \<Rightarrow>
          if added \<noteq> Success then Done (result added (toString added))
          else case checkSchema sv entry of (schema, diagnostic) \<Rightarrow>
            if schema \<noteq> Success then Done (result schema diagnostic)
            else act (update (\<lambda>s. be_modify B s entry)) (\<lambda>ok.
              if \<not> ok then Done (result OperationsError ''modify DN attributes failed'')
              else act (update (\<lambda>s. be_rename B s (dd_dn q) new_dn)) (\<lambda>ok.
                if \<not> ok then Done (result OperationsError ''rename failed'') else persistProg sv (result Success []))))"

definition renameProg :: "'s Server \<Rightarrow> LdapMessage \<Rightarrow> Session \<Rightarrow> ('s World, LdapMessage) prog" where
  "renameProg sv request se =
     (let result = makeLdapResult (msg_id request) ModifyDNResponse; q = msg_modify_dn request;
          parent = (if dd_new_superior q = [] then dnParent (dd_dn q) else dd_new_superior q);
          new_dn = composeDn (dd_new_rdn q) parent;
          target = (\<lambda>entry.
            if dnEquals new_dn (dd_dn q) then renameWrite sv request new_dn entry
            else lookupProg sv new_dn (\<lambda>found.
              if found \<noteq> None then Done (result EntryAlreadyExists ''target DN exists'') else renameWrite sv request new_dn entry))
      in if dd_new_rdn q = [] then Done (result InvalidDnSyntax ''empty new RDN'')
      else ask (\<lambda>wo. mayWrite sv se wo (dd_dn q)) (\<lambda>may.
        if \<not> may then Done (result InsufficientAccessRights ''insufficient access'')
        else ask (\<lambda>wo. mayWrite sv se wo new_dn) (\<lambda>may.
          if \<not> may then Done (result InsufficientAccessRights ''insufficient access'')
          else lookupProg sv (dd_dn q) (\<lambda>found.
            case found of
              None \<Rightarrow> Done (result NoSuchObject ''no such object'')
            | Some entry \<Rightarrow>
                if parent = [] then target entry
                else lookupProg sv parent (\<lambda>found.
                  if found = None then Done (result NamingViolation ''new parent does not exist'') else target entry)))))"

definition passwordProg :: "'s Server \<Rightarrow> LdapMessage \<Rightarrow> Session \<Rightarrow> ('s World, LdapMessage) prog" where
  "passwordProg sv request se =
     (let result = makeLdapResult (msg_id request) ExtendedResponse; B = sv_backend sv
      in ask (passwordTarget sv request se) (\<lambda>checked.
        case checked of
          Inl (code, diagnostic) \<Rightarrow> Done (result code diagnostic)
        | Inr (target, new_password) \<Rightarrow>
            lookupProg sv target (\<lambda>found.
              case found of
                None \<Rightarrow> Done (result NoSuchObject ''no such object'')
              | Some entry \<Rightarrow>
                  saltProg (encodeUserPassword (sv_crypto sv) new_password) (\<lambda>stored.
                    case applyModifications entry [\<lparr>am_op = Replace, am_type = ''userPassword'', am_values = [stored]\<rparr>] of
                      (applied, entry) \<Rightarrow>
                        if applied \<noteq> Success then Done (result applied (toString applied))
                        else case checkSchema sv entry of (schema, diagnostic) \<Rightarrow>
                          if schema \<noteq> Success then Done (result schema diagnostic)
                          else act (update (\<lambda>s. be_modify B s entry)) (\<lambda>ok.
                            if \<not> ok then Done (result OperationsError ''password modify failed'')
                            else persistProg sv (result Success []))))))"

definition requestProg :: "'s Server \<Rightarrow> Env \<Rightarrow> LdapMessage \<Rightarrow> Session \<Rightarrow> ('s World, LdapMessage) prog" where
  "requestProg sv env request se =
     (let oneStep = act (\<lambda>wo. case dispatch sv env request se wo of (response, _, wo) \<Rightarrow> (response, wo)) Done in
      case msg_op request of
        ModifyRequest \<Rightarrow> modifyProg sv request se
      | AddRequest \<Rightarrow> addProg sv request se
      | DelRequest \<Rightarrow> deleteProg sv request se
      | ModifyDNRequest \<Rightarrow> renameProg sv request se
      | ExtendedRequest \<Rightarrow>
          if msg_extended_oid request = kPasswordModifyOid then passwordProg sv request se else oneStep
      | _ \<Rightarrow> oneStep)"

section \<open>Alone, a program is its handler\<close>

lemmas prog_defs = lookupProg_def saltProg_def persistProg_def update_def persisted_def

lemma run_if [simp]: "run (if b then p else q) w = (if b then run p w else run q w)"
  by simp

lemma run_addProg: "run (addProg sv request se) wo = handleAdd sv request se wo"
  by (simp add: addProg_def handleAdd_def Let_def prog_defs case_prod_beta)

lemma run_modifyProg: "run (modifyProg sv request se) wo = handleModify sv request se wo"
  by (simp add: modifyProg_def handleModify_def Let_def prog_defs case_prod_beta split: option.split)

lemma run_deleteProg: "run (deleteProg sv request se) wo = handleDelete sv request se wo"
  by (simp add: deleteProg_def handleDelete_def Let_def prog_defs case_prod_beta)

lemma run_renameWrite:
  "run (renameWrite sv request new_dn entry) wo =
     (let result = makeLdapResult (msg_id request) ModifyDNResponse; B = sv_backend sv; s = wo_store wo; q = msg_modify_dn request in
      case removeOldRdn q entry of (removed, entry) \<Rightarrow>
        if removed \<noteq> Success then (result removed (toString removed), wo)
        else case addNewRdn q entry of (added, entry) \<Rightarrow>
          if added \<noteq> Success then (result added (toString added), wo)
          else case checkSchema sv entry of (schema, diagnostic) \<Rightarrow>
            if schema \<noteq> Success then (result schema diagnostic, wo)
            else case be_modify B s entry of (ok, s) \<Rightarrow>
              if \<not> ok then (result OperationsError ''modify DN attributes failed'', wo\<lparr>wo_store := s\<rparr>)
              else case be_rename B s (dd_dn q) new_dn of (ok, s) \<Rightarrow>
                if \<not> ok then (result OperationsError ''rename failed'', wo\<lparr>wo_store := s\<rparr>)
                else (result Success [], persisted sv s wo))"
  by (simp add: renameWrite_def Let_def prog_defs case_prod_beta)

lemma run_renameProg: "run (renameProg sv request se) wo = handleModifyDn sv request se wo"
proof -
  define parent where "parent = (let q = msg_modify_dn request in if dd_new_superior q = [] then dnParent (dd_dn q) else dd_new_superior q)"
  define new_dn where "new_dn = composeDn (dd_new_rdn (msg_modify_dn request)) parent"
  show ?thesis
    unfolding renameProg_def handleModifyDn_def Let_def parent_def [unfolded Let_def, symmetric] new_dn_def [symmetric] lookupProg_def
    by (cases "be_lookup (sv_backend sv) (wo_store wo) (dd_dn (msg_modify_dn request))";
        cases "parent = []"; cases "dnEquals new_dn (dd_dn (msg_modify_dn request))")
      (simp_all add: run_renameWrite [unfolded Let_def])
qed

lemma run_passwordProg: "run (passwordProg sv request se) wo = handlePasswordModify sv request se wo"
  by (simp add: passwordProg_def handlePasswordModify_def Let_def prog_defs case_prod_beta split: option.split sum.split)

lemmas run_progs = run_addProg run_modifyProg run_deleteProg run_renameProg run_passwordProg

lemma run_requestProg:
  "run (requestProg sv env request se) wo = (case dispatch sv env request se wo of (response, _, wo) \<Rightarrow> (response, wo))"
proof -
  have "kStartTlsOid \<noteq> kPasswordModifyOid" by code_simp
  then show ?thesis
    by (cases "msg_op request")
      (simp_all add: requestProg_def Let_def run_progs dispatch_def handleExtended_def case_prod_beta)
qed

section \<open>Every step keeps the directory\<close>

text \<open>\<open>E\<close> is a property of entries; \<open>store_ok\<close> says that the store is sound and that all its entries have it.\<close>

definition all_entries :: "(DirectoryEntry \<Rightarrow> bool) \<Rightarrow> (string \<rightharpoonup> DirectoryEntry) \<Rightarrow> bool" where
  "all_entries E m \<longleftrightarrow> (\<forall>n e. m n = Some e \<longrightarrow> E e)"

definition store_ok :: "('s \<Rightarrow> bool) \<Rightarrow> ('s \<Rightarrow> string \<rightharpoonup> DirectoryEntry) \<Rightarrow> (DirectoryEntry \<Rightarrow> bool) \<Rightarrow> 's World \<Rightarrow> bool" where
  "store_ok J m E wo \<longleftrightarrow> J (wo_store wo) \<and> all_entries E (m (wo_store wo))"

definition schema_ok :: "'s Server \<Rightarrow> DirectoryEntry \<Rightarrow> bool" where
  "schema_ok sv e \<longleftrightarrow> fst (checkSchema sv e) = Success"

text \<open>What keeps \<open>E\<close>: the name does not matter to it, and the entries that the handlers make of given ones and then find in order
  with the schema have it; \<open>Q\<close> restricts the renames.\<close>

definition entry_law :: "'s Server \<Rightarrow> (ModifyDnRequestData \<Rightarrow> bool) \<Rightarrow> (DirectoryEntry \<Rightarrow> bool) \<Rightarrow> bool" where
  "entry_law sv Q E \<longleftrightarrow>
     (\<forall>e n. E e \<longrightarrow> E (e\<lparr>de_dn := n\<rparr>)) \<and>
     (\<forall>e r. let e' = fst (encodeUserPasswords (sv_crypto sv) e r) in schema_ok sv e' \<longrightarrow> E e') \<and>
     (\<forall>e cs r. let e' = snd (applyModifications e (fst (encodeUserPasswordChanges (sv_crypto sv) cs r))) in
        E e \<longrightarrow> schema_ok sv e' \<longrightarrow> E e') \<and>
     (\<forall>e p r. let e' = snd (applyModifications e [\<lparr>am_op = Replace, am_type = ''userPassword'',
            am_values = [fst (encodeUserPassword (sv_crypto sv) p r)]\<rparr>]) in
        E e \<longrightarrow> schema_ok sv e' \<longrightarrow> E e') \<and>
     (\<forall>e q. let e' = snd (addNewRdn q (snd (removeOldRdn q e))) in E e \<longrightarrow> Q q \<longrightarrow> schema_ok sv e' \<longrightarrow> E e')"

lemma all_entries_update: "all_entries E m \<Longrightarrow> E e \<Longrightarrow> all_entries E (m(n \<mapsto> e))"
  by (simp add: all_entries_def)

lemma all_entries_remove: "all_entries E m \<Longrightarrow> all_entries E (m(n := None))"
  by (simp add: all_entries_def)

lemma safe_salt:
  assumes "\<And>r. safe (store_ok J m E) (k (fst (f r)))"
  shows "safe (store_ok J m E) (saltProg f k)"
  unfolding saltProg_def
proof (rule safe_act)
  fix wo x wo' assume "store_ok J m E wo" "(case f (wo_rng wo) of (x, r) \<Rightarrow> (x, wo\<lparr>wo_rng := r\<rparr>)) = (x, wo')"
  with assms [of "wo_rng wo"] show "store_ok J m E wo' \<and> safe (store_ok J m E) (k x)"
    by (auto simp: store_ok_def case_prod_beta)
qed

lemma safe_update:
  assumes "\<And>s ok s'. J s \<Longrightarrow> all_entries E (m s) \<Longrightarrow> f s = (ok, s') \<Longrightarrow> J s' \<and> all_entries E (m s')"
    and "\<And>ok. safe (store_ok J m E) (k ok)"
  shows "safe (store_ok J m E) (act (update f) k)"
proof (rule safe_act)
  fix wo ok wo' assume wo: "store_ok J m E wo" "update f wo = (ok, wo')"
  obtain s' where f: "f (wo_store wo) = (ok, s')" "wo_store wo' = s'"
    using wo(2) by (auto simp: update_def split: prod.splits)
  with wo(1) assms(1) [OF _ _ f(1)] show "store_ok J m E wo' \<and> safe (store_ok J m E) (k ok)"
    by (simp add: store_ok_def assms(2))
qed

context directory
begin

lemma safe_lookup:
  assumes "sv_backend sv = B" "\<And>found. (\<And>e. found = Some e \<Longrightarrow> E e) \<Longrightarrow> safe (store_ok inv abs E) (k found)"
  shows "safe (store_ok inv abs E) (lookupProg sv dn k)"
  unfolding lookupProg_def
proof (rule safe_ask)
  fix wo assume "store_ok inv abs E wo"
  then show "safe (store_ok inv abs E) (k (be_lookup (sv_backend sv) (wo_store wo) dn))"
    by (intro assms(2)) (auto simp: store_ok_def assms(1) lookup_abs all_entries_def)
qed

lemma safe_persist:
  assumes "sv_backend sv = B"
  shows "safe (store_ok inv abs E) (persistProg sv m)"
  unfolding persistProg_def assms by (rule safe_act) (auto simp: store_ok_def persist_abs)

lemma modify_kept:
  "E e \<Longrightarrow> inv s \<Longrightarrow> all_entries E (abs s) \<Longrightarrow> be_modify B s e = (ok, s') \<Longrightarrow> inv s' \<and> all_entries E (abs s')"
  using modify_abs [of s e ok s'] by (auto intro: all_entries_update)

lemma add_kept:
  "E e \<Longrightarrow> inv s \<Longrightarrow> all_entries E (abs s) \<Longrightarrow> be_add B s e = (ok, s') \<Longrightarrow> inv s' \<and> all_entries E (abs s')"
  using add_abs [of s e ok s'] by (auto intro: all_entries_update)

lemma remove_kept:
  "inv s \<Longrightarrow> all_entries E (abs s) \<Longrightarrow> be_remove B s dn = (ok, s') \<Longrightarrow> inv s' \<and> all_entries E (abs s')"
  using remove_abs [of s dn ok s'] by (auto intro: all_entries_remove)

lemma rename_kept:
  assumes "\<And>e n. E e \<Longrightarrow> E (e\<lparr>de_dn := n\<rparr>)" "inv s" "all_entries E (abs s)" "be_rename B s old new = (ok, s')"
  shows "inv s' \<and> all_entries E (abs s')"
proof -
  have "all_entries E ((abs s)(toLowerAscii old := None, toLowerAscii new \<mapsto> e\<lparr>de_dn := new\<rparr>))"
    if "abs s (toLowerAscii old) = Some e" for e
    using assms(1,3) that by (intro all_entries_update all_entries_remove) (auto simp: all_entries_def)
  with rename_abs [OF assms(2,4)] assms(3) show ?thesis by (auto split: if_splits)
qed

text \<open>An update that keeps the directory, with its two ends, and the check before it.\<close>

lemma safe_write:
  assumes "sv_backend sv = B" "\<And>s ok s'. inv s \<Longrightarrow> all_entries E (abs s) \<Longrightarrow> f s = (ok, s') \<Longrightarrow> inv s' \<and> all_entries E (abs s')"
  shows "safe (store_ok inv abs E) (act (update f) (\<lambda>ok. if \<not> ok then Done failed else persistProg sv success))"
  using assms(2) by (rule safe_update) (simp_all add: safe_persist [OF assms(1)])

lemma safe_checked:
  assumes "schema_ok sv e \<Longrightarrow> safe (store_ok inv abs E) p"
  shows "safe (store_ok inv abs E) (case checkSchema sv e of (schema, diagnostic) \<Rightarrow>
    if schema \<noteq> Success then Done (result schema diagnostic) else p)"
  using assms by (simp add: schema_ok_def split: prod.split)

lemma safe_modify:
  assumes "sv_backend sv = B" "schema_ok sv e \<Longrightarrow> E e"
  shows "safe (store_ok inv abs E) (case checkSchema sv e of (schema, diagnostic) \<Rightarrow>
    if schema \<noteq> Success then Done (result schema diagnostic)
    else act (update (\<lambda>s. be_modify B s e)) (\<lambda>ok. if \<not> ok then Done failed else persistProg sv success))"
proof (rule safe_checked)
  assume "schema_ok sv e"
  from safe_write [OF assms(1) modify_kept [where E = E and e = e, OF assms(2) [OF this]]]
  show "safe (store_ok inv abs E) (act (update (\<lambda>s. be_modify B s e)) (\<lambda>ok. if \<not> ok then Done failed else persistProg sv success))" .
qed

lemma safe_add:
  assumes "sv_backend sv = B" "schema_ok sv e \<Longrightarrow> E e"
  shows "safe (store_ok inv abs E) (case checkSchema sv e of (schema, diagnostic) \<Rightarrow>
    if schema \<noteq> Success then Done (result schema diagnostic)
    else act (update (\<lambda>s. be_add B s e)) (\<lambda>ok. if \<not> ok then Done failed else persistProg sv success))"
proof (rule safe_checked)
  assume "schema_ok sv e"
  from safe_write [OF assms(1) add_kept [where E = E and e = e, OF assms(2) [OF this]]]
  show "safe (store_ok inv abs E) (act (update (\<lambda>s. be_add B s e)) (\<lambda>ok. if \<not> ok then Done failed else persistProg sv success))" .
qed

lemma safe_addProg:
  assumes B: "sv_backend sv = B" and law: "entry_law sv Q E"
  shows "safe (store_ok inv abs E) (addProg sv request se)"
proof -
  have "schema_ok sv (fst (encodeUserPasswords (sv_crypto sv) e r)) \<Longrightarrow> E (fst (encodeUserPasswords (sv_crypto sv) e r))" for e r
    using law by (simp add: entry_law_def Let_def)
  then show ?thesis unfolding addProg_def Let_def B
    by (auto intro!: safe_ask safe_lookup [OF B] safe_salt safe_add [OF B])
qed

lemma safe_modifyProg:
  assumes B: "sv_backend sv = B" and law: "entry_law sv Q E"
  shows "safe (store_ok inv abs E) (modifyProg sv request se)"
proof -
  have "E e \<Longrightarrow> schema_ok sv (snd (applyModifications e (fst (encodeUserPasswordChanges (sv_crypto sv) cs r)))) \<Longrightarrow>
      E (snd (applyModifications e (fst (encodeUserPasswordChanges (sv_crypto sv) cs r))))" for e cs r
    using law by (simp add: entry_law_def Let_def)
  then show ?thesis unfolding modifyProg_def Let_def B case_prod_beta [of _ "applyModifications _ _"]
    by (auto intro!: safe_ask safe_lookup [OF B] safe_salt safe_modify [OF B] split: option.split)
qed

lemma safe_deleteProg:
  assumes B: "sv_backend sv = B"
  shows "safe (store_ok inv abs E) (deleteProg sv request se)"
  unfolding deleteProg_def Let_def B
  by (simp add: safe_ask safe_lookup [OF B] safe_write [OF B remove_kept])

lemma safe_passwordProg:
  assumes B: "sv_backend sv = B" and law: "entry_law sv Q E"
  shows "safe (store_ok inv abs E) (passwordProg sv request se)"
proof -
  have "E e \<Longrightarrow> schema_ok sv (snd (applyModifications e [\<lparr>am_op = Replace, am_type = ''userPassword'',
        am_values = [fst (encodeUserPassword (sv_crypto sv) p r)]\<rparr>])) \<Longrightarrow>
      E (snd (applyModifications e [\<lparr>am_op = Replace, am_type = ''userPassword'',
        am_values = [fst (encodeUserPassword (sv_crypto sv) p r)]\<rparr>]))" for e p r
    using law by (simp add: entry_law_def Let_def)
  then show ?thesis unfolding passwordProg_def Let_def B case_prod_beta [of _ "applyModifications _ _"]
    by (auto intro!: safe_ask safe_lookup [OF B] safe_salt safe_modify [OF B] split: option.split sum.split)
qed

lemma safe_renameWrite:
  assumes B: "sv_backend sv = B" and law: "entry_law sv Q E" and "E e" "Q (msg_modify_dn request)"
  shows "safe (store_ok inv abs E) (renameWrite sv request new_dn e)"
proof -
  let ?e = "snd (addNewRdn (msg_modify_dn request) (snd (removeOldRdn (msg_modify_dn request) e)))"
  have E: "schema_ok sv ?e \<Longrightarrow> E ?e" and n: "\<And>e n. E e \<Longrightarrow> E (e\<lparr>de_dn := n\<rparr>)"
    using law assms(3,4) by (simp_all add: entry_law_def Let_def)
  have w: "safe (store_ok inv abs E) (act (update (\<lambda>s. be_modify B s ?e)) k)"
    if "schema_ok sv ?e" "\<And>ok. safe (store_ok inv abs E) (k ok)" for k
    using modify_kept [where E = E and e = ?e, OF E [OF that(1)]] that(2) by (rule safe_update)
  show ?thesis unfolding renameWrite_def Let_def B case_prod_beta
    by (auto simp: schema_ok_def intro!: w safe_write [OF B rename_kept] n)
qed

lemma safe_renameProg:
  assumes B: "sv_backend sv = B" and law: "entry_law sv Q E" and "Q (msg_modify_dn request)"
  shows "safe (store_ok inv abs E) (renameProg sv request se)"
  unfolding renameProg_def Let_def
  by (auto intro!: safe_ask safe_lookup [OF B] safe_renameWrite [OF B law _ assms(3)] split: option.split)

text \<open>A request that does not write keeps the store.\<close>

lemma safe_oneStep:
  assumes "msg_op request \<notin> {ModifyRequest, AddRequest, DelRequest, ModifyDNRequest}"
    and "msg_op request = ExtendedRequest \<Longrightarrow> msg_extended_oid request \<noteq> kPasswordModifyOid"
  shows "safe (store_ok inv abs E) (act (\<lambda>wo. case dispatch sv env request se wo of (response, _, wo) \<Rightarrow> (response, wo)) Done)"
proof (rule safe_act)
  fix wo x wo' assume wo: "store_ok inv abs E wo" and d: "(case dispatch sv env request se wo of (response, _, wo) \<Rightarrow> (response, wo)) = (x, wo')"
  from d obtain se' where "dispatch sv env request se wo = (x, se', wo')" by (auto split: prod.splits)
  then have "wo_store wo' = wo_store wo" using assms handleBind_store [of sv env request se wo x se' wo']
    by (cases "msg_op request") (auto simp: dispatch_def handleExtended_def Let_def split: if_splits)
  with wo show "store_ok inv abs E wo' \<and> safe (store_ok inv abs E) (Done x)" by (simp add: store_ok_def)
qed

lemma safe_requestProg:
  assumes "sv_backend sv = B" "entry_law sv Q E" "msg_op request = ModifyDNRequest \<longrightarrow> Q (msg_modify_dn request)"
  shows "safe (store_ok inv abs E) (requestProg sv env request se)"
  using assms safe_addProg [OF assms(1,2)] safe_modifyProg [OF assms(1,2)] safe_deleteProg [OF assms(1)]
    safe_renameProg [OF assms(1,2)] safe_passwordProg [OF assms(1,2)] safe_oneStep [of request E sv env se]
  by (cases "msg_op request") (simp_all add: requestProg_def Let_def)

lemma interleaved_kept:
  assumes "sv_backend sv = B" "entry_law sv Q E" "inv (wo_store wo)" "all_entries E (abs (wo_store wo))"
    and "(interleave {requestProg sv env request se | env request se. msg_op request = ModifyDNRequest \<longrightarrow> Q (msg_modify_dn request)})\<^sup>*\<^sup>*
      ([], wo) (ps, wo')"
  shows "inv (wo_store wo') \<and> all_entries E (abs (wo_store wo'))"
  using interleave_safe [OF assms(5), of "store_ok inv abs E"] safe_requestProg [OF assms(1,2)] assms(3,4)
  by (auto simp: store_ok_def)

end

section \<open>A lost update\<close>

text \<open>A step of one of two programs.\<close>

lemma advanceOne_two [simp]:
  "advanceOne 0 ([ask f k, q], w) = ([k (f w), q], w)" "advanceOne (Suc 0) ([q, ask f k], w) = ([q, k (f w)], w)"
  "advanceOne 0 ([act g k, q], w) = (case g w of (x, w) \<Rightarrow> ([k x, q], w))" "advanceOne (Suc 0) ([q, act g k], w) = (case g w of (x, w) \<Rightarrow> ([q, k x], w))"
  by (simp_all add: advanceOne_def ask_def act_def split: prod.split)

context directory
begin

text \<open>Both look the entry up, then both write what they made of it.\<close>

lemma modify_lost:
  assumes "sv_backend sv = B" "inv (wo_store wo)" "abs (wo_store wo) n = Some e"
    and "msg_op first = ModifyRequest" "toLowerAscii (md_dn (msg_modify first)) = n" "mayWrite sv se1 wo (md_dn (msg_modify first))"
    and "msg_op second = ModifyRequest" "toLowerAscii (md_dn (msg_modify second)) = n" "mayWrite sv se2 wo (md_dn (msg_modify second))"
    and "encodeUserPasswordChanges (sv_crypto sv) (md_changes (msg_modify first)) (wo_rng wo) = (cs1, g1)"
    and "encodeUserPasswordChanges (sv_crypto sv) (md_changes (msg_modify second)) g1 = (cs2, g2)"
    and "applyModifications e cs1 = (Success, e1)" "fst (checkSchema sv e1) = Success"
    and "applyModifications e cs2 = (Success, e2)" "fst (checkSchema sv e2) = Success"
  shows "\<exists>wo'. (interleave R)\<^sup>*\<^sup>* ([requestProg sv env1 first se1, requestProg sv env2 second se2], wo)
      (map Done [makeLdapResult (msg_id first) ModifyResponse Success [], makeLdapResult (msg_id second) ModifyResponse Success []], wo') \<and>
    abs (wo_store wo') = (abs (wo_store wo))(n \<mapsto> e2)"
proof -
  let ?s = "wo_store wo"
  have look: "be_lookup B ?s (md_dn (msg_modify first)) = Some e" "be_lookup B ?s (md_dn (msg_modify second)) = Some e"
    using lookup_abs [OF assms(2)] assms(3,5,8) by simp_all
  have dn: "toLowerAscii (de_dn e1) = n" "toLowerAscii (de_dn e2) = n"
    using names [OF assms(2,3)] de_dn_applyModifications [of e cs1] de_dn_applyModifications [of e cs2] assms(12,14) by simp_all
  obtain s1 where s1: "be_modify B ?s e1 = (True, s1)" "inv s1" "abs s1 = (abs ?s)(n \<mapsto> e1)"
    using modify_abs [OF assms(2), of e1] dn assms(3) by (cases "be_modify B ?s e1") auto
  let ?p = "be_persist B s1"
  have p: "inv ?p" "abs ?p = abs s1" using persist_abs [OF s1(2)] by simp_all
  obtain s2 where s2: "be_modify B ?p e2 = (True, s2)" "inv s2" "abs s2 = (abs ?p)(n \<mapsto> e2)"
    using modify_abs [OF p(1), of e2] dn p(2) s1(3) by (cases "be_modify B ?p e2") auto
  obtain d1 d2 where schema: "checkSchema sv e1 = (Success, d1)" "checkSchema sv e2 = (Success, d2)"
    using assms(13,15) by (cases "checkSchema sv e1"; cases "checkSchema sv e2") auto
  have "fold advanceOne [0, 0, 1, 1, 0, 1, 0, 0, 1, 1] ([requestProg sv env1 first se1, requestProg sv env2 second se2], wo) =
      (map Done [makeLdapResult (msg_id first) ModifyResponse Success [], makeLdapResult (msg_id second) ModifyResponse Success []],
       wo\<lparr>wo_rng := g2, wo_store := be_persist B s2\<rparr>)"
    by (simp add: requestProg_def modifyProg_def Let_def prog_defs look schema s1(1) s2(1) assms(1,4,6,7,9-12,14))
  moreover have "abs (be_persist B s2) = (abs ?s)(n \<mapsto> e2)" using persist_abs [OF s2(2)] s2(3) p(2) s1(3) by simp
  ultimately show ?thesis using schedule_interleave [of R "([requestProg sv env1 first se1, requestProg sv env2 second se2], wo)"
      "[0, 0, 1, 1, 0, 1, 0, 0, 1, 1]"] by (intro exI conjI) (assumption | simp)+
qed

end

section \<open>Two properties of entries\<close>

definition entry_schemed :: "DirectoryEntry \<Rightarrow> bool" where
  "entry_schemed e \<longleftrightarrow> (\<forall>v \<in> password_values (de_attributes e). scheme_or_empty v)"

lemma passwords_schemed_entries: "passwords_schemed m \<longleftrightarrow> all_entries entry_schemed m"
  by (simp add: passwords_schemed_def all_entries_def entry_schemed_def)

lemma modified_schemed:
  assumes "entry_schemed e" "\<And>c v. c \<in> set cs \<Longrightarrow> v \<in> change_passwords c \<Longrightarrow> scheme_or_empty v"
  shows "entry_schemed (snd (applyModifications e cs))"
  using assms applyModifications_passwords [of e cs] unfolding entry_schemed_def by blast

lemma scheme_law:
  assumes hw: "hash_works (sv_crypto sv)"
  shows "entry_law sv (\<lambda>q. \<not> password_rename q) entry_schemed"
proof -
  have named: "entry_schemed (e\<lparr>de_dn := n\<rparr>)" if "entry_schemed e" for e n
    using that by (simp add: entry_schemed_def)
  have added: "entry_schemed (fst (encodeUserPasswords (sv_crypto sv) e r))" for e r
    using encodePasswordAttributes_scheme [OF hw]
    by (auto simp: entry_schemed_def password_values_def encodeUserPasswords_def case_prod_beta)
  have changed: "entry_schemed (snd (applyModifications e (fst (encodeUserPasswordChanges (sv_crypto sv) cs r))))" if "entry_schemed e" for e cs r
    using encodeChanges_passwords [OF hw] by (intro modified_schemed [OF that]) blast
  have reset: "entry_schemed (snd (applyModifications e [\<lparr>am_op = Replace, am_type = ''userPassword'',
      am_values = [fst (encodeUserPassword (sv_crypto sv) p r)]\<rparr>]))" if "entry_schemed e" for e p r
    using encodeUserPassword_scheme [OF hw, of p r] by (intro modified_schemed [OF that]) (auto split: if_splits)
  have renamed: "entry_schemed (snd (addNewRdn q (snd (removeOldRdn q e))))" if "entry_schemed e" "\<not> password_rename q" for e q
    using addNewRdn_passwords [OF that(2), of "snd (removeOldRdn q e)"] removeOldRdn_passwords [of q e] that(1)
    unfolding entry_schemed_def by blast
  show ?thesis unfolding entry_law_def Let_def
    by (intro conjI allI impI) (rule named added changed reset renamed; assumption)+
qed

text \<open>The schema looks at attributes only.\<close>

lemma findValues_name [simp]: "findValues (e\<lparr>de_dn := n\<rparr>) = findValues e"
  by (simp add: findValues_def fun_eq_iff)

lemma hasNonEmpty_name [simp]: "hasNonEmpty (e\<lparr>de_dn := n\<rparr>) = hasNonEmpty e"
  by (simp add: hasNonEmpty_def fun_eq_iff)

lemma validateEntry_name: "validateEntry reg (e\<lparr>de_dn := n\<rparr>) = validateEntry reg e"
  by (simp add: validateEntry_def split: option.split sum.split)

lemma schema_law: "entry_law sv Q (schema_ok sv)"
  by (auto simp: entry_law_def Let_def schema_ok_def checkSchema_def validateEntry_name split: option.split)

section \<open>Inputs for the witnesses\<close>

definition addValue :: "int32 \<Rightarrow> string \<Rightarrow> LdapMessage" where
  "addValue i v = makeModifyRequest i \<lparr>md_dn = ''ou=x'', md_changes = [\<lparr>am_op = Add, am_type = ''description'', am_values = [v]\<rparr>]\<rparr>"

definition modifiers :: "(MemoryState World, LdapMessage) prog list" where
  "modifiers = [requestProg demoServer demoEnv (addValue 1 ''a'') rootSession, requestProg demoServer demoEnv (addValue 2 ''b'') rootSession]"

definition results :: "('w, LdapMessage) prog list \<times> 'w \<Rightarrow> LdapMessage option list \<times> 'w" where
  "results c = (map (\<lambda>p. case p of Done m \<Rightarrow> Some m | Step f \<Rightarrow> None) (fst c), snd c)"

definition ouRegistry :: SchemaRegistry where
  "ouRegistry = snd (loadFile (Some ''attributetype ( 1 NAME ou ) objectclass ( 2 NAME unit STRUCTURAL MUST ou )'') emptyRegistry)"

definition typedServer :: "MemoryState Server" where
  "typedServer = demoServer\<lparr>sv_schema := Some ouRegistry\<rparr>"

definition typedEntry :: DirectoryEntry where
  "typedEntry = \<lparr>de_dn = ''ou=x'', de_attributes = [(''objectClass'', [''unit'']), (''ou'', [''x''])]\<rparr>"

definition typedAdd :: LdapMessage where
  "typedAdd = makeAddRequest 7 (toAddRequest typedEntry)"

lemma results_done: "results c = (map Some ms, w) \<Longrightarrow> c = (map Done ms, w)"
proof -
  have "map (\<lambda>p. case p of Done m \<Rightarrow> Some m | Step f \<Rightarrow> None) ps = map Some ms \<Longrightarrow> ps = map Done ms" for ps :: "('a, LdapMessage) prog list"
  proof (induction ps arbitrary: ms)
    case (Cons p ps)
    then show ?case by (cases ms) (auto split: prog.splits)
  qed simp
  then show "results c = (map Some ms, w) \<Longrightarrow> c = (map Done ms, w)" by (cases c) (simp add: results_def)
qed

lemma scheduled:
  assumes "results (fold advanceOne turns (ps, w)) = (map Some ms, w')"
  shows "(interleave R)\<^sup>*\<^sup>* (ps, w) (map Done ms, w')"
  using schedule_interleave [of R "(ps, w)" turns] results_done [OF assms] by simp

text \<open>A delete and an add below it: both checks, then both updates.\<close>

lemma child_of_deleted:
  "(interleave R)\<^sup>*\<^sup>*
     ([requestProg demoServer demoEnv (makeDelRequest 1 ''ou=x'') rootSession,
       requestProg demoServer demoEnv (makeAddRequest 2 (toAddRequest (plainEntry ''cn=c,ou=x''))) rootSession],
      demoWorld [(''ou=x'', plainEntry ''ou=x'')])
     (map Done [makeLdapResult 1 DelResponse Success [], makeLdapResult 2 AddResponse Success []],
      demoWorld [(''cn=c,ou=x'', plainEntry ''cn=c,ou=x'')])"
  by (rule scheduled [where turns = "[0, 0, 0, 1, 1, 1, 0, 0, 1, 1, 1]"]) code_simp

section \<open>Properties\<close>

text \<open>C9: Concurrent sessions keep the directory sound: however the backend calls of any number of requests interleave, the in-memory
  directory keeps its invariant, and every stored \<^verbatim>\<open>userPassword\<close> is empty or carries a scheme (one of the client's choice, or that of the
  salted hash), if this held before, the hash functions work and no request renames an entry to a password.\<close>

theorem interleaved_requests_sound:
  assumes "sv_backend sv = memoryBackend" "hash_works (sv_crypto sv)" "mem_inv (wo_store wo)" "passwords_schemed (ci_map (wo_store wo))"
    and "(interleave {requestProg sv env request se | env request se.
        msg_op request = ModifyDNRequest \<longrightarrow> \<not> password_rename (msg_modify_dn request)})\<^sup>*\<^sup>* ([], wo) (ps, wo')"
  shows "mem_inv (wo_store wo') \<and> passwords_schemed (ci_map (wo_store wo'))"
  using memory.interleaved_kept [OF assms(1) scheme_law [OF assms(2)] assms(3) _ assms(5)] assms(4)
  by (simp add: passwords_schemed_entries)

text \<open>Two sessions add an entry with a password each; their steps alternate.\<close>

definition twoAdds :: "(MemoryState World, LdapMessage) prog list" where
  "twoAdds = [requestProg demoServer demoEnv (secretAdd 1 ''cn=u'') rootSession, requestProg demoServer demoEnv (secretAdd 2 ''cn=v'') rootSession]"

definition afterAdds :: "(MemoryState World, LdapMessage) prog list \<times> MemoryState World" where
  "afterAdds = fold advanceOne [0, 1, 0, 1, 0, 1, 0, 1, 0, 1, 0, 1] (twoAdds, demoWorld [])"

theorem interleaved_requests_sound_witness:
  "map fst (wo_store (snd afterAdds)) = [''cn=u'', ''cn=v''] \<and> mem_inv (wo_store (snd afterAdds)) \<and>
   passwords_schemed (ci_map (wo_store (snd afterAdds)))"
proof -
  let ?R = "{requestProg demoServer env request se | env request se.
        msg_op request = ModifyDNRequest \<longrightarrow> \<not> password_rename (msg_modify_dn request)}"
  have op: "msg_op (secretAdd i dn) = AddRequest" for i dn by (simp add: secretAdd_def makeAddRequest_def)
  have "interleave ?R ([], demoWorld []) ([hd twoAdds], demoWorld [])"
    using interleave.arrive [of "hd twoAdds" ?R "[]" "demoWorld []"] op by (fastforce simp: twoAdds_def)
  moreover have "interleave ?R ([hd twoAdds], demoWorld []) (twoAdds, demoWorld [])"
    using interleave.arrive [of "twoAdds ! 1" ?R "[hd twoAdds]" "demoWorld []"] op by (fastforce simp: twoAdds_def)
  moreover have "(interleave ?R)\<^sup>*\<^sup>* (twoAdds, demoWorld []) afterAdds" unfolding afterAdds_def by (rule schedule_interleave)
  ultimately have s: "(interleave ?R)\<^sup>*\<^sup>* ([], demoWorld []) (fst afterAdds, snd afterAdds)"
    by (simp add: converse_rtranclp_into_rtranclp)
  have "passwords_schemed (ci_map [])" "mem_inv []" by (simp_all add: passwords_schemed_def ci_map_def mem_inv_def)
  with interleaved_requests_sound [OF demo_backend(1) demo_hash_works _ _ s]
  have "mem_inv (wo_store (snd afterAdds)) \<and> passwords_schemed (ci_map (wo_store (snd afterAdds)))" by (simp add: demoWorld_def)
  moreover have "map fst (wo_store (snd afterAdds)) = [''cn=u'', ''cn=v'']" by code_simp
  ultimately show ?thesis by blast
qed

text \<open>C10: Stored entries are well typed: with a schema loaded, if every entry of the directory conforms to it, every entry conforms in
  every state that concurrent requests reach, however their backend calls interleave; a modification, a password change or a rename
  that would break the schema is refused, and one that is written over another's was checked as a whole.\<close>

theorem stored_entries_conform:
  assumes "sv_backend sv = memoryBackend" "sv_schema sv = Some reg" "loaded reg" "mem_inv (wo_store wo)"
    and "\<forall>n e. ci_map (wo_store wo) n = Some e \<longrightarrow> entry_conforms reg e"
    and "(interleave {requestProg sv env request se | env request se. True})\<^sup>*\<^sup>* ([], wo) (ps, wo')"
    and "ci_map (wo_store wo') n = Some e"
  shows "entry_conforms reg e"
proof -
  have c: "schema_ok sv = entry_conforms reg"
    using assms(2) validateEntry_loaded [OF assms(3)] by (simp add: fun_eq_iff schema_ok_def checkSchema_def)
  have "all_entries (entry_conforms reg) (ci_map (wo_store wo'))"
    using memory.interleaved_kept [OF assms(1) schema_law [of sv "\<lambda>_. True"] assms(4), of ps wo'] assms(5,6)
    by (simp add: c all_entries_def)
  with assms(7) show ?thesis by (simp add: all_entries_def)
qed

theorem stored_entries_conform_witness: "entry_conforms ouRegistry typedEntry"
proof -
  let ?R = "{requestProg typedServer env request se | env request se. True}"
  let ?p = "requestProg typedServer demoEnv typedAdd rootSession"
  have "interleave ?R ([], demoWorld []) ([?p], demoWorld [])"
    using interleave.arrive [of ?p ?R "[]" "demoWorld []"] by fastforce
  moreover have "(interleave ?R)\<^sup>*\<^sup>* ([?p], demoWorld []) (map Done [makeLdapResult 7 AddResponse Success []], demoWorld [(''ou=x'', typedEntry)])"
    by (rule scheduled [where turns = "[0, 0, 0, 0, 0]"]) code_simp
  ultimately have s: "(interleave ?R)\<^sup>*\<^sup>* ([], demoWorld [])
      (map Done [makeLdapResult 7 AddResponse Success []], demoWorld [(''ou=x'', typedEntry)])" by (rule converse_rtranclp_into_rtranclp)
  have "sv_backend typedServer = memoryBackend" "sv_schema typedServer = Some ouRegistry" by (simp_all add: typedServer_def)
  moreover have "loaded ouRegistry" by code_simp
  moreover have "mem_inv []" "\<forall>n e. ci_map [] n = Some e \<longrightarrow> entry_conforms ouRegistry e"
    by (simp_all add: ci_map_def mem_inv_def)
  moreover have "ci_map [(''ou=x'', typedEntry)] ''ou=x'' = Some typedEntry" by code_simp
  ultimately show ?thesis using stored_entries_conform [OF _ _ _ _ _ s, of ouRegistry "''ou=x''" typedEntry] by simp
qed

text \<open>C39: Of two concurrent modifications of one entry one can be lost without a trace.  Take any entry and any two modify requests for it, of
  sessions with the right to write, that would each succeed on that entry.  There is an interleaving of their backend calls after which
  both are answered with success, and the directory is what the second alone would have made of it: a handler reads the entry
  and writes it in two backend calls.\<close>

theorem concurrent_modify_lost:
  assumes "sv_backend sv = memoryBackend" "mem_inv (wo_store wo)" "ci_map (wo_store wo) n = Some e"
    and "msg_op first = ModifyRequest" "toLowerAscii (md_dn (msg_modify first)) = n" "mayWrite sv se1 wo (md_dn (msg_modify first))"
    and "msg_op second = ModifyRequest" "toLowerAscii (md_dn (msg_modify second)) = n" "mayWrite sv se2 wo (md_dn (msg_modify second))"
    and "encodeUserPasswordChanges (sv_crypto sv) (md_changes (msg_modify first)) (wo_rng wo) = (cs1, g1)"
    and "encodeUserPasswordChanges (sv_crypto sv) (md_changes (msg_modify second)) g1 = (cs2, g2)"
    and "applyModifications e cs1 = (Success, e1)" "fst (checkSchema sv e1) = Success"
    and "applyModifications e cs2 = (Success, e2)" "fst (checkSchema sv e2) = Success"
  shows "\<exists>wo'. (interleave R)\<^sup>*\<^sup>* ([requestProg sv env1 first se1, requestProg sv env2 second se2], wo)
      (map Done [makeLdapResult (msg_id first) ModifyResponse Success [], makeLdapResult (msg_id second) ModifyResponse Success []], wo') \<and>
    ci_map (wo_store wo') = (ci_map (wo_store wo))(n \<mapsto> e2)"
  using memory.modify_lost [OF assms] .

theorem concurrent_modify_lost_witness:
  "\<exists>wo'. (interleave {})\<^sup>*\<^sup>* (modifiers, demoWorld [(''ou=x'', plainEntry ''ou=x'')])
      (map Done [makeLdapResult 1 ModifyResponse Success [], makeLdapResult 2 ModifyResponse Success []], wo') \<and>
    ci_map (wo_store wo') ''ou=x'' = Some \<lparr>de_dn = ''ou=x'', de_attributes = [(''description'', [''b'']), (''ou'', [''x''])]\<rparr>"
proof -
  let ?wo = "demoWorld [(''ou=x'', plainEntry ''ou=x'')]"
  let ?e = "\<lambda>v. \<lparr>de_dn = ''ou=x'', de_attributes = [(''description'', [v]), (''ou'', [''x''])]\<rparr>"
  have "\<exists>wo'. (interleave {})\<^sup>*\<^sup>* ([requestProg demoServer demoEnv (addValue 1 ''a'') rootSession,
        requestProg demoServer demoEnv (addValue 2 ''b'') rootSession], ?wo)
      (map Done [makeLdapResult (msg_id (addValue 1 ''a'')) ModifyResponse Success [],
        makeLdapResult (msg_id (addValue 2 ''b'')) ModifyResponse Success []], wo') \<and>
    ci_map (wo_store wo') = (ci_map (wo_store ?wo))(''ou=x'' \<mapsto> ?e ''b'')"
    by (rule concurrent_modify_lost [OF demo_backend(1), where ?cs1.0 = "md_changes (msg_modify (addValue 1 ''a''))" and ?cs2.0 = "md_changes (msg_modify (addValue 2 ''b''))"
        and e = "plainEntry ''ou=x''" and ?e1.0 = "?e ''a''" and ?g1.0 = 0 and ?g2.0 = 0]) code_simp+
  then show ?thesis by (auto simp: modifiers_def addValue_def makeModifyRequest_def)
qed

end
