(* ===== verification/Ldif.thy ===== *)
theory Ldif
  imports MemoryBackend CppStd
begin

text \<open>
  LDIF: the text format of \<^verbatim>\<open>src/simple-ldapd/protocol/ldif.cpp\<close> (records with changes, as the clients
  read them) and the file backend of \<^verbatim>\<open>src/simple-ldapd/backend/ldif.cpp\<close>, which is the in-memory
  backend with a file it reads at the start and rewrites after every change.  The file is its
  contents, \<open>None\<close> when it cannot be opened.  The lemmas give the round trip of entries whose names
  and values the format can carry, for both readers, show the file backend to be a \<open>directory\<close>,
  and show what the missing escapes cost.
\<close>

section \<open>Lines\<close>

definition trimInPlace :: "string \<Rightarrow> string" where
  "trimInPlace v =
     (let v = rev (dropWhile (\<lambda>c. c = CHR 0x0D \<or> c = CHR '' '' \<or> c = CHR 0x09) (rev v))
      in dropWhile (\<lambda>c. c = CHR '' '' \<or> c = CHR 0x09) v)"

section \<open>Records\<close>

datatype LdifChangeType = ContentChange | AddChange | ModifyChange | DeleteChange | ModrdnChange

record LdifRecord =
  lr_dn :: string
  lr_changetype :: LdifChangeType
  lr_entry :: DirectoryEntry
  lr_changes :: "AttributeModification list"
  lr_new_rdn :: string
  lr_delete_old_rdn :: bool
  lr_new_superior :: string

definition emptyEntry :: DirectoryEntry where
  "emptyEntry = \<lparr>de_dn = [], de_attributes = []\<rparr>"

definition newRecord :: LdifRecord where
  "newRecord = \<lparr>lr_dn = [], lr_changetype = ContentChange, lr_entry = emptyEntry, lr_changes = [], lr_new_rdn = [],
     lr_delete_old_rdn = True, lr_new_superior = []\<rparr>"

definition newChange :: AttributeModification where
  "newChange = \<lparr>am_op = Replace, am_type = [], am_values = []\<rparr>"

definition parseChangeType :: "string \<Rightarrow> LdifChangeType" where
  "parseChangeType v =
     (if iequals v ''add'' then AddChange
      else if iequals v ''modify'' then ModifyChange
      else if iequals v ''delete'' then DeleteChange
      else if iequals v ''modrdn'' \<or> iequals v ''moddn'' then ModrdnChange
      else ContentChange)"

definition parseModifyOp :: "string \<Rightarrow> ModifyOp" where
  "parseModifyOp v = (if iequals v ''add'' then Add else if iequals v ''delete'' then Delete else Replace)"

text \<open>The state of the reader: the finished records, the record, the change, and whether there is one.\<close>

record LdifReader =
  rd_records :: "LdifRecord list"
  rd_current :: LdifRecord
  rd_change :: AttributeModification
  rd_have_change :: bool

definition flushChange :: "LdifReader \<Rightarrow> LdifReader" where
  "flushChange r =
     (if rd_have_change r
      then r\<lparr>rd_current := (rd_current r)\<lparr>lr_changes := lr_changes (rd_current r) @ [rd_change r]\<rparr>,
             rd_change := newChange, rd_have_change := False\<rparr>
      else r)"

definition flushRecord :: "LdifReader \<Rightarrow> LdifReader" where
  "flushRecord r =
     (let r = flushChange r; cur = rd_current r in
      if lr_dn cur \<noteq> []
      then r\<lparr>rd_records := rd_records r @ [cur\<lparr>lr_entry := (lr_entry cur)\<lparr>de_dn := lr_dn cur\<rparr>\<rparr>], rd_current := newRecord\<rparr>
      else r)"

text \<open>A name and a value.\<close>

definition ldifPair :: "string \<Rightarrow> string \<Rightarrow> LdifReader \<Rightarrow> LdifReader" where
  "ldifPair name val r =
     (if iequals name ''dn'' then let r = flushRecord r in r\<lparr>rd_current := (rd_current r)\<lparr>lr_dn := val\<rparr>\<rparr>
      else if iequals name ''changetype'' then r\<lparr>rd_current := (rd_current r)\<lparr>lr_changetype := parseChangeType val\<rparr>\<rparr>
      else if iequals name ''newrdn'' then r\<lparr>rd_current := (rd_current r)\<lparr>lr_new_rdn := val\<rparr>\<rparr>
      else if iequals name ''deleteoldrdn'' then
        r\<lparr>rd_current := (rd_current r)\<lparr>lr_delete_old_rdn := (val = ''1'' \<or> iequals val ''true'')\<rparr>\<rparr>
      else if iequals name ''newsuperior'' then r\<lparr>rd_current := (rd_current r)\<lparr>lr_new_superior := val\<rparr>\<rparr>
      else if iequals name ''add'' \<or> iequals name ''delete'' \<or> iequals name ''replace'' then
        let r = flushChange r
        in r\<lparr>rd_change := (rd_change r)\<lparr>am_op := parseModifyOp name, am_type := val\<rparr>, rd_have_change := True\<rparr>
      else let cur = rd_current r;
               r = r\<lparr>rd_current := cur\<lparr>lr_entry := (lr_entry cur)
                      \<lparr>de_attributes := smap_push name val (de_attributes (lr_entry cur))\<rparr>\<rparr>\<rparr>
        in if rd_have_change r \<and> iequals (am_type (rd_change r)) name
           then r\<lparr>rd_change := (rd_change r)\<lparr>am_values := am_values (rd_change r) @ [val]\<rparr>\<rparr> else r)"

definition ldifLine :: "string \<Rightarrow> LdifReader \<Rightarrow> LdifReader" where
  "ldifLine line r =
     (let line = trimInPlace line in
      if line = [] then flushRecord r
      else if hd line = CHR ''#'' then r
      else if iequals (take (min (length line) 8) line) ''version:'' then r
      else case find_char (CHR '':'') line of
        None \<Rightarrow> if line = ''-'' then flushChange r else r
      | Some colon \<Rightarrow> ldifPair (trimInPlace (take colon line)) (trimInPlace (drop (colon + 1) line)) r)"

definition newReader :: LdifReader where
  "newReader = \<lparr>rd_records = [], rd_current = newRecord, rd_change = newChange, rd_have_change = False\<rparr>"

definition parseLdifText :: "string \<Rightarrow> LdifRecord list" where
  "parseLdifText t = rd_records (flushRecord (fold ldifLine (splitLines t) newReader))"

definition parseLdifFile :: "string option \<Rightarrow> LdifRecord list" where
  "parseLdifFile file = (case file of None \<Rightarrow> [] | Some t \<Rightarrow> parseLdifText t)"

definition formatEntry :: "DirectoryEntry \<Rightarrow> string" where
  "formatEntry entry =
     ''dn: '' @ de_dn entry @ [CHR 0x0A] @
     concat (map (\<lambda>(name, values). concat (map (\<lambda>v. name @ '': '' @ v @ [CHR 0x0A]) values)) (de_attributes entry)) @ [CHR 0x0A]"

definition formatLdif :: "DirectoryEntry list \<Rightarrow> string" where
  "formatLdif entries = concat (map formatEntry entries)"

section \<open>The file backend\<close>

text \<open>The import: the entry being read and the entries of the backend.\<close>

definition importFlush :: "DirectoryEntry \<times> MemoryState \<Rightarrow> DirectoryEntry \<times> MemoryState" where
  "importFlush st =
     (case st of (current, entries) \<Rightarrow>
        if de_dn current \<noteq> [] then (emptyEntry, snd (mem_add entries current)) else st)"

definition importLine :: "string \<Rightarrow> DirectoryEntry \<times> MemoryState \<Rightarrow> DirectoryEntry \<times> MemoryState" where
  "importLine line st =
     (let line = trimInPlace line in
      if line = [] then importFlush st
      else if hd line = CHR ''#'' then st
      else if take 3 line = ''dn:'' then
        (case importFlush st of (current, entries) \<Rightarrow> (current\<lparr>de_dn := trimInPlace (drop 3 line)\<rparr>, entries))
      else case find_char (CHR '':'') line of
        None \<Rightarrow> st
      | Some colon \<Rightarrow>
          (case st of (current, entries) \<Rightarrow>
             (current\<lparr>de_attributes := smap_push (trimInPlace (take colon line)) (trimInPlace (drop (colon + 1) line))
                (de_attributes current)\<rparr>, entries)))"

definition importFile :: "string option \<Rightarrow> MemoryState \<Rightarrow> bool \<times> MemoryState" where
  "importFile file entries =
     (case file of
        None \<Rightarrow> (False, entries)
      | Some t \<Rightarrow> (True, snd (importFlush (fold importLine (splitLines t) (emptyEntry, entries)))))"

text \<open>What \<^verbatim>\<open>exportFile\<close> writes.\<close>

definition exportFile :: "MemoryState \<Rightarrow> string" where
  "exportFile entries = concat (map formatEntry (mem_search entries [] Subtree allFilter))"

text \<open>The state of the file backend: the entries, the path, the file, and whether it can be written; a
  failed export is only logged.\<close>

record LdifState =
  ls_entries :: MemoryState
  ls_path :: string
  ls_file :: "string option"
  ls_writable :: bool

definition ldif_initialize :: "LdifState \<Rightarrow> bool \<times> LdifState" where
  "ldif_initialize s =
     (if ls_path s = [] then (True, s)
      else case importFile (ls_file s) (ls_entries s) of (ok, entries) \<Rightarrow> (ok, s\<lparr>ls_entries := entries\<rparr>))"

definition ldif_persist :: "LdifState \<Rightarrow> LdifState" where
  "ldif_persist s = (if ls_path s = [] \<or> \<not> ls_writable s then s else s\<lparr>ls_file := Some (exportFile (ls_entries s))\<rparr>)"

definition ldif_update :: "(MemoryState \<Rightarrow> bool \<times> MemoryState) \<Rightarrow> LdifState \<Rightarrow> bool \<times> LdifState" where
  "ldif_update f s = (case f (ls_entries s) of (ok, entries) \<Rightarrow> (ok, s\<lparr>ls_entries := entries\<rparr>))"

definition ldifBackend :: "LdifState Backend" where
  "ldifBackend =
     \<lparr>be_lookup = (\<lambda>s. mem_lookup (ls_entries s)), be_search = (\<lambda>s. mem_search (ls_entries s)),
      be_add = (\<lambda>s e. ldif_update (\<lambda>m. mem_add m e) s), be_modify = (\<lambda>s e. ldif_update (\<lambda>m. mem_modify m e) s),
      be_remove = (\<lambda>s dn. ldif_update (\<lambda>m. mem_remove m dn) s),
      be_rename = (\<lambda>s old new. ldif_update (\<lambda>m. mem_rename m old new) s),
      be_hasChildren = (\<lambda>s. mem_hasChildren (ls_entries s)), be_persist = ldif_persist\<rparr>"


section \<open>The file backend is a directory\<close>

lemma ldif_update_eq: "ldif_update f s = (ok, s') \<Longrightarrow> \<exists>m. f (ls_entries s) = (ok, m) \<and> ls_entries s' = m"
  by (auto simp: ldif_update_def split: prod.splits)

lemma ls_entries_persist [simp]: "ls_entries (ldif_persist s) = ls_entries s"
  by (simp add: ldif_persist_def)

interpretation ldif: directory ldifBackend "mem_inv \<circ> ls_entries" "ci_map \<circ> ls_entries"
proof
  note mem = memory.names memory.lookup_abs memory.search_abs memory.children_abs
  fix s :: LdifState and n e dn base scope f assume inv: "(mem_inv \<circ> ls_entries) s"
  then have m: "mem_inv (ls_entries s)" by simp
  show "(ci_map \<circ> ls_entries) s n = Some e \<Longrightarrow> toLowerAscii (de_dn e) = n \<and> n \<noteq> []"
    using memory.names [OF m] by simp
  show "be_lookup ldifBackend s dn = (ci_map \<circ> ls_entries) s (toLowerAscii dn)"
    using memory.lookup_abs [OF m] by (simp add: ldifBackend_def memoryBackend_def)
  show "set (be_search ldifBackend s base scope f) =
      {e. \<exists>n. (ci_map \<circ> ls_entries) s n = Some e \<and> inScope scope (de_dn e) base \<and> matches f e}"
    using memory.search_abs [OF m] by (simp add: ldifBackend_def memoryBackend_def)
  show "be_hasChildren ldifBackend s dn = (\<exists>n e. (ci_map \<circ> ls_entries) s n = Some e \<and> dnIsOneLevelChild (de_dn e) dn)"
    using memory.children_abs [OF m] by (simp add: ldifBackend_def memoryBackend_def)
  show "(mem_inv \<circ> ls_entries) (be_persist ldifBackend s) \<and> (ci_map \<circ> ls_entries) (be_persist ldifBackend s) = (ci_map \<circ> ls_entries) s"
    using m by (simp add: ldifBackend_def)
next
  fix s :: LdifState and e ok s' assume inv: "(mem_inv \<circ> ls_entries) s"
  then have m: "mem_inv (ls_entries s)" by simp
  { assume "be_add ldifBackend s e = (ok, s')"
    then have "be_add memoryBackend (ls_entries s) e = (ok, ls_entries s')"
      using ldif_update_eq [of "\<lambda>m. mem_add m e" s ok s'] by (simp add: ldifBackend_def memoryBackend_def)
    from memory.add_abs [OF m this] show "(mem_inv \<circ> ls_entries) s' \<and>
        ok = (de_dn e \<noteq> [] \<and> (ci_map \<circ> ls_entries) s (toLowerAscii (de_dn e)) = None) \<and>
        (ci_map \<circ> ls_entries) s' = (if ok then ((ci_map \<circ> ls_entries) s)(toLowerAscii (de_dn e) \<mapsto> e) else (ci_map \<circ> ls_entries) s)"
      by simp }
  { assume "be_modify ldifBackend s e = (ok, s')"
    then have "be_modify memoryBackend (ls_entries s) e = (ok, ls_entries s')"
      using ldif_update_eq [of "\<lambda>m. mem_modify m e" s ok s'] by (simp add: ldifBackend_def memoryBackend_def)
    from memory.modify_abs [OF m this] show "(mem_inv \<circ> ls_entries) s' \<and>
        ok = ((ci_map \<circ> ls_entries) s (toLowerAscii (de_dn e)) \<noteq> None) \<and>
        (ci_map \<circ> ls_entries) s' = (if ok then ((ci_map \<circ> ls_entries) s)(toLowerAscii (de_dn e) \<mapsto> e) else (ci_map \<circ> ls_entries) s)"
      by simp }
next
  fix s :: LdifState and dn ok s' assume inv: "(mem_inv \<circ> ls_entries) s" and "be_remove ldifBackend s dn = (ok, s')"
  then have "be_remove memoryBackend (ls_entries s) dn = (ok, ls_entries s')"
    using ldif_update_eq [of "\<lambda>m. mem_remove m dn" s ok s'] by (simp add: ldifBackend_def memoryBackend_def)
  with memory.remove_abs [of "ls_entries s" dn ok "ls_entries s'"] inv show "(mem_inv \<circ> ls_entries) s' \<and>
      ok = ((ci_map \<circ> ls_entries) s (toLowerAscii dn) \<noteq> None) \<and>
      (ci_map \<circ> ls_entries) s' = (if ok then ((ci_map \<circ> ls_entries) s)(toLowerAscii dn := None) else (ci_map \<circ> ls_entries) s)"
    by simp
next
  fix s :: LdifState and old new ok s' assume inv: "(mem_inv \<circ> ls_entries) s" and "be_rename ldifBackend s old new = (ok, s')"
  then have bm: "be_rename memoryBackend (ls_entries s) old new = (ok, ls_entries s')"
    using ldif_update_eq [of "\<lambda>m. mem_rename m old new" s ok s'] by (simp add: ldifBackend_def memoryBackend_def)
  from inv have m: "mem_inv (ls_entries s)" by simp
  from memory.rename_abs [OF m bm] show "(mem_inv \<circ> ls_entries) s' \<and>
      ok = (new \<noteq> [] \<and> (ci_map \<circ> ls_entries) s (toLowerAscii old) \<noteq> None \<and>
        (dnEquals old new \<or> (ci_map \<circ> ls_entries) s (toLowerAscii new) = None)) \<and>
      (ci_map \<circ> ls_entries) s' = (if ok \<and> \<not> dnEquals old new
        then ((ci_map \<circ> ls_entries) s)(toLowerAscii old := None,
          toLowerAscii new \<mapsto> (the ((ci_map \<circ> ls_entries) s (toLowerAscii old)))\<lparr>de_dn := new\<rparr>)
        else (ci_map \<circ> ls_entries) s)"
    unfolding o_apply .
qed

section \<open>Reading back what was written\<close>

lemma splitLines_line: "CHR 0x0A \<notin> set l \<Longrightarrow> splitLines (l @ CHR 0x0A # t) = l # splitLines t"
proof -
  have "CHR 0x0A \<notin> set l \<Longrightarrow> getlines (l @ CHR 0x0A # t) cur = (cur @ l) # getlines t []" for cur
    by (induction l arbitrary: cur) auto
  then show "CHR 0x0A \<notin> set l \<Longrightarrow> ?thesis" by (simp add: splitLines_def)
qed

definition trimmed :: "string \<Rightarrow> bool" where
  "trimmed v \<longleftrightarrow> v = [] \<or> last v \<notin> {CHR 0x0D, CHR '' '', CHR 0x09} \<and> hd v \<notin> {CHR '' '', CHR 0x09}"

lemma trimInPlace_id: "trimmed v \<Longrightarrow> trimInPlace v = v"
proof (cases "v = []")
  case False
  assume t: "trimmed v"
  with False have "dropWhile (\<lambda>c. c = CHR 0x0D \<or> c = CHR '' '' \<or> c = CHR 0x09) (rev v) = rev v"
    by (cases "rev v") (auto simp: trimmed_def hd_rev [symmetric])
  moreover have "dropWhile (\<lambda>c. c = CHR '' '' \<or> c = CHR 0x09) v = v"
    using t False by (cases v) (auto simp: trimmed_def)
  ultimately show ?thesis by (simp add: trimInPlace_def)
qed (simp add: trimInPlace_def)

lemma trimInPlace_space: "trimmed v \<Longrightarrow> trimInPlace (CHR '' '' # v) = v"
proof (cases "v = []")
  case False
  assume t: "trimmed v"
  with False have "dropWhile (\<lambda>c. c = CHR 0x0D \<or> c = CHR '' '' \<or> c = CHR 0x09) (rev v @ [CHR '' '']) = rev v @ [CHR '' '']"
    by (cases "rev v") (auto simp: trimmed_def hd_rev [symmetric])
  moreover have "dropWhile (\<lambda>c. c = CHR '' '' \<or> c = CHR 0x09) v = v"
    using t False by (cases v) (auto simp: trimmed_def)
  ultimately show ?thesis by (simp add: trimInPlace_def)
qed (simp add: trimInPlace_def)

text \<open>A written line, as the readers see it.\<close>

definition shownLine :: "string \<Rightarrow> string \<Rightarrow> string" where
  "shownLine name v = (if v = [] then name @ '':'' else name @ '': '' @ v)"

lemma trimInPlace_line:
  assumes "trimmed name" "name \<noteq> []" "trimmed v"
  shows "trimInPlace (name @ '': '' @ v) = shownLine name v"
proof (cases "v = []")
  case False
  then have "trimmed (name @ '': '' @ v)" using assms by (simp add: trimmed_def)
  with False trimInPlace_id show ?thesis by (simp add: shownLine_def)
next
  case True
  obtain c cs where n: "name = c # cs" using assms(2) by (cases name) auto
  with assms(1) have "c \<notin> {CHR '' '', CHR 0x09}" by (simp add: trimmed_def)
  with True n show ?thesis by (simp add: trimInPlace_def shownLine_def)
qed

section \<open>Sorted maps from their pairs\<close>

lemma smap_put_greatest: "\<forall>k' \<in> fst ` set m. k' < k \<Longrightarrow> smap_put k v m = m @ [(k, v)]"
  by (induction m) (auto simp: less_not_sym)

lemma smap_put_last: "\<forall>k' \<in> fst ` set m. k' < k \<Longrightarrow> smap_put k v (m @ [(k, u)]) = m @ [(k, v)]"
  by (induction m) (auto simp: less_not_sym)

lemma map_of_greatest: "\<forall>k' \<in> fst ` set m. k' < (k :: string) \<Longrightarrow> map_of m k = None"
  by (auto simp: map_of_eq_None_iff)

lemma smap_push_last:
  assumes "\<forall>k' \<in> fst ` set m. k' < k"
  shows "fold (\<lambda>v. smap_push k v) vs (m @ [(k, us)]) = m @ [(k, us @ vs)]"
proof (induction vs arbitrary: us)
  case (Cons v vs)
  have "smap_push k v (m @ [(k, us)]) = m @ [(k, us @ [v])]"
    using assms by (simp add: smap_push_def smap_put_last map_of_greatest map_add_def)
  with Cons [of "us @ [v]"] show ?case by simp
qed simp

lemma smap_push_values:
  assumes "\<forall>k' \<in> fst ` set m. k' < k" "vs \<noteq> []"
  shows "fold (\<lambda>v. smap_push k v) vs m = m @ [(k, vs)]"
proof -
  obtain v us where vs: "vs = v # us" using assms(2) by (cases vs) auto
  have "smap_push k v m = m @ [(k, [v])]" using assms by (simp add: smap_push_def smap_put_greatest map_of_greatest)
  with smap_push_last [OF assms(1), of us "[v]"] show ?thesis by (simp add: vs)
qed

lemma fold_push_pairs:
  assumes "smap_ok (m @ pairs)" "\<forall>(k, vs) \<in> set pairs. vs \<noteq> []"
  shows "fold (\<lambda>(k, v). smap_push k v) (concat (map (\<lambda>(k, vs). map (Pair k) vs) pairs)) m = m @ pairs"
  using assms
proof (induction pairs arbitrary: m)
  case (Cons p pairs)
  obtain k vs where p: "p = (k, vs)" by fastforce
  have "\<forall>k' \<in> fst ` set m. k' < k" using Cons.prems(1) by (auto simp: smap_ok_def sorted_wrt_append p)
  then have "fold (\<lambda>(k, v). smap_push k v) (map (Pair k) vs) m = m @ [(k, vs)]"
    using smap_push_values [of m k vs] Cons.prems(2) by (simp add: p fold_map comp_def)
  with Cons.IH [of "m @ [(k, vs)]"] Cons.prems show ?case by (simp add: p)
qed simp

section \<open>Names and values the format can carry\<close>

definition ldif_value :: "string \<Rightarrow> bool" where
  "ldif_value v \<longleftrightarrow> CHR 0x0A \<notin> set v \<and> trimmed v"

definition ldif_name :: "string \<Rightarrow> bool" where
  "ldif_name n \<longleftrightarrow> ldif_value n \<and> n \<noteq> [] \<and> CHR '':'' \<notin> set n \<and> hd n \<noteq> CHR ''#'' \<and> n \<noteq> ''dn''"

definition ldif_entry :: "DirectoryEntry \<Rightarrow> bool" where
  "ldif_entry e \<longleftrightarrow> de_dn e \<noteq> [] \<and> ldif_value (de_dn e) \<and> smap_ok (de_attributes e) \<and>
     (\<forall>(n, vs) \<in> set (de_attributes e). ldif_name n \<and> vs \<noteq> [] \<and> (\<forall>v \<in> set vs. ldif_value v))"

definition attributePairs :: "DirectoryEntry \<Rightarrow> (string \<times> string) list" where
  "attributePairs e = concat (map (\<lambda>(n, vs). map (Pair n) vs) (de_attributes e))"

definition entryLines :: "DirectoryEntry \<Rightarrow> string list" where
  "entryLines e = (''dn: '' @ de_dn e) # map (\<lambda>(n, v). n @ '': '' @ v) (attributePairs e) @ [[]]"

lemma attributePairs_carried:
  assumes "ldif_entry e" "(n, v) \<in> set (attributePairs e)"
  shows "ldif_name n" "ldif_value v"
  using assms by (fastforce simp: ldif_entry_def attributePairs_def)+

lemma formatEntry_lines: "formatEntry e = concat (map (\<lambda>l. l @ [CHR 0x0A]) (entryLines e))"
proof -
  have "concat (map (\<lambda>(n, vs). concat (map (\<lambda>v. n @ '': '' @ v @ [CHR 0x0A]) vs)) ps) =
      concat (map ((\<lambda>l. l @ [CHR 0x0A]) \<circ> (\<lambda>(n, v). n @ '': '' @ v)) (concat (map (\<lambda>(n, vs). map (Pair n) vs) ps)))" for ps
    by (induction ps) (auto simp: comp_def)
  then show ?thesis by (simp add: formatEntry_def entryLines_def attributePairs_def)
qed

lemma splitLines_lines:
  "\<forall>l \<in> set ls. CHR 0x0A \<notin> set l \<Longrightarrow> splitLines (concat (map (\<lambda>l. l @ [CHR 0x0A]) ls) @ t) = ls @ splitLines t"
  by (induction ls) (simp_all add: splitLines_line)

lemma splitLines_format:
  assumes "\<forall>e \<in> set es. ldif_entry e"
  shows "splitLines (concat (map formatEntry es)) = concat (map entryLines es)"
  using assms
proof (induction es)
  case (Cons e es)
  then have "ldif_entry e" by simp
  then have "\<forall>l \<in> set (entryLines e). CHR 0x0A \<notin> set l"
    using attributePairs_carried [OF \<open>ldif_entry e\<close>]
    by (fastforce simp: entryLines_def ldif_name_def ldif_value_def ldif_entry_def)
  from splitLines_lines [OF this] Cons show ?case by (simp add: formatEntry_lines)
qed (simp add: splitLines_def)

lemma find_colon: "CHR '':'' \<notin> set n \<Longrightarrow> find_char (CHR '':'') (shownLine n v) = Some (length n)"
  using find_char_append [of "CHR '':''" n "[]"] find_char_append [of "CHR '':''" n "CHR '' '' # v"]
  by (simp add: shownLine_def)

lemma value_shown: "trimmed v \<Longrightarrow> trimInPlace (drop (length n + 1) (shownLine n v)) = v"
  by (simp add: shownLine_def trimInPlace_space) (simp add: trimInPlace_def)

lemma name_shown: "take (length n) (shownLine n v) = n"
  by (simp add: shownLine_def)

lemma shownLine_hd: "n \<noteq> [] \<Longrightarrow> shownLine n v \<noteq> [] \<and> hd (shownLine n v) = hd n"
  by (simp add: shownLine_def)

section \<open>The file backend reads what it wrote\<close>

lemma importLine_pair:
  assumes "ldif_name n" "ldif_value v"
  shows "importLine (n @ '': '' @ v) (cur, m) = (cur\<lparr>de_attributes := smap_push n v (de_attributes cur)\<rparr>, m)"
proof -
  have n: "trimmed n" "n \<noteq> []" "CHR '':'' \<notin> set n" "hd n \<noteq> CHR ''#''" "n \<noteq> ''dn''" and v: "trimmed v"
    using assms by (simp_all add: ldif_name_def ldif_value_def)
  have "take 3 (shownLine n v) \<noteq> ''dn:''"
  proof
    assume a: "take 3 (shownLine n v) = ''dn:''"
    then have "shownLine n v = ''dn:'' @ drop 3 (shownLine n v)" using append_take_drop_id [of 3 "shownLine n v"] by simp
    then have "find_char (CHR '':'') (shownLine n v) = Some 2"
      using find_char_append [of "CHR '':''" "''dn''" "drop 3 (shownLine n v)"] by simp
    then have "length n = 2" using find_colon [OF n(3)] by simp
    moreover have "take 2 (take 3 (shownLine n v)) = ''dn''" unfolding a by simp
    then have "take 2 (shownLine n v) = ''dn''" by (simp add: min_def)
    ultimately show False using name_shown [of n v] n(5) by simp
  qed
  then show ?thesis
    using trimInPlace_line [OF n(1,2) v] shownLine_hd [OF n(2)] find_colon [OF n(3)] value_shown [OF v] name_shown [of n v]
      n(4) trimInPlace_id [OF n(1)]
    by (simp add: importLine_def)
qed

lemma importLine_dn:
  assumes "ldif_value dn" "dn \<noteq> []"
  shows "importLine (''dn: '' @ dn) (emptyEntry, m) = (emptyEntry\<lparr>de_dn := dn\<rparr>, m)"
proof -
  have dn: "trimmed dn" using assms by (simp add: ldif_value_def)
  have "trimInPlace (''dn: '' @ dn) = ''dn: '' @ dn"
    using trimInPlace_line [of "''dn''" dn] dn assms by (simp add: trimmed_def shownLine_def)
  then show ?thesis using trimInPlace_space [OF dn] by (simp add: importLine_def importFlush_def emptyEntry_def)
qed

lemma importLine_pairs:
  assumes "\<forall>(n, v) \<in> set ps. ldif_name n \<and> ldif_value v"
  shows "fold importLine (map (\<lambda>(n, v). n @ '': '' @ v) ps) (cur, m) =
    (cur\<lparr>de_attributes := fold (\<lambda>(k, v). smap_push k v) ps (de_attributes cur)\<rparr>, m)"
  using assms
proof (induction ps arbitrary: cur)
  case (Cons p ps)
  then show ?case using importLine_pair [of "fst p" "snd p" cur m] by (simp add: case_prod_beta)
qed simp

lemma fold_attributePairs:
  assumes "smap_ok (de_attributes e)" "\<forall>(n, vs) \<in> set (de_attributes e). vs \<noteq> []"
  shows "fold (\<lambda>(k, v). smap_push k v) (attributePairs e) [] = de_attributes e"
  using fold_push_pairs [of "[]" "de_attributes e"] assms by (simp add: attributePairs_def)

lemma ldif_entry_pairs: "ldif_entry e \<Longrightarrow> fold (\<lambda>(k, v). smap_push k v) (attributePairs e) [] = de_attributes e"
  by (rule fold_attributePairs) (auto simp: ldif_entry_def)

lemma import_entry:
  assumes "ldif_entry e"
  shows "fold importLine (entryLines e) (emptyEntry, m) = (emptyEntry, snd (mem_add m e))"
proof -
  note push = ldif_entry_pairs [OF assms]
  have "\<forall>(n, v) \<in> set (attributePairs e). ldif_name n \<and> ldif_value v"
    using attributePairs_carried [OF assms] by auto
  from importLine_pairs [OF this, of "emptyEntry\<lparr>de_dn := de_dn e\<rparr>" m]
  have "fold importLine (map (\<lambda>(n, v). n @ '': '' @ v) (attributePairs e)) (emptyEntry\<lparr>de_dn := de_dn e\<rparr>, m) = (e, m)"
    by (simp add: push emptyEntry_def)
  moreover have "importLine [] (e, m) = (emptyEntry, snd (mem_add m e))"
    using assms by (simp add: importLine_def trimInPlace_def importFlush_def ldif_entry_def)
  ultimately show ?thesis
    using importLine_dn [of "de_dn e" m] assms by (simp add: entryLines_def ldif_entry_def)
qed

lemma mem_add_greatest:
  assumes "mem_inv (m @ [(de_dn e, e)])"
  shows "mem_add m e = (True, m @ [(de_dn e, e)])"
proof -
  have "\<forall>k' \<in> fst ` set m. k' < de_dn e"
    using assms by (auto simp: mem_inv_def ci_ok_def smap_ok_def sorted_wrt_append)
  moreover have "\<not> (\<exists>p \<in> set m. dnEquals (fst p) (de_dn e))"
    using assms by (force simp: mem_inv_def ci_ok_def dnEquals_iff)
  ultimately show ?thesis using assms by (simp add: mem_add_def smap_put_greatest mem_inv_def)
qed

lemma mem_inv_take: "mem_inv (m @ m') \<Longrightarrow> mem_inv m"
  by (auto simp: mem_inv_def ci_ok_def smap_ok_def sorted_wrt_append)

lemma import_entries:
  assumes "mem_inv (m @ m')" "\<forall>(k, e) \<in> set m'. ldif_entry e \<and> k = de_dn e"
  shows "fold importLine (concat (map (entryLines \<circ> snd) m')) (emptyEntry, m) = (emptyEntry, m @ m')"
  using assms
proof (induction m' arbitrary: m)
  case (Cons p m')
  obtain e where p: "p = (de_dn e, e)" and e: "ldif_entry e" using Cons.prems(2) by (cases p) auto
  have "mem_inv (m @ [(de_dn e, e)])" using mem_inv_take [of "m @ [p]" m'] Cons.prems(1) p by simp
  from mem_add_greatest [OF this] import_entry [OF e] Cons.IH [of "m @ [p]"] Cons.prems show ?case by (simp add: p)
qed simp

lemma mem_search_all: "mem_search m [] Subtree allFilter = map snd m"
  by (simp add: mem_search_def inScope_def dnEndsWith_def matches_def allFilter_def defaultNode_def)

lemma import_export:
  assumes "mem_inv m" "\<forall>(k, e) \<in> set m. ldif_entry e \<and> k = de_dn e"
  shows "importFile (Some (exportFile m)) [] = (True, m)"
proof -
  have "splitLines (exportFile m) = concat (map (entryLines \<circ> snd) m)"
    using splitLines_format [of "map snd m"] assms(2) by (simp add: exportFile_def mem_search_all comp_def case_prod_beta)
  with import_entries [of "[]" m] assms show ?thesis by (simp add: importFile_def importFlush_def emptyEntry_def)
qed

section \<open>The clients read what they print\<close>

definition ldif_keyword :: "string \<Rightarrow> bool" where
  "ldif_keyword n \<longleftrightarrow> toLowerAscii n \<in>
     set [''dn'', ''changetype'', ''newrdn'', ''deleteoldrdn'', ''newsuperior'', ''add'', ''delete'', ''replace'', ''version'']"

lemma iequals_keyword: "\<not> ldif_keyword n \<Longrightarrow> ldif_keyword k \<Longrightarrow> \<not> iequals n k"
  by (auto simp: iequals_def ldif_keyword_def)

lemma ldif_keywords:
  "ldif_keyword ''dn''" "ldif_keyword ''changetype''" "ldif_keyword ''newrdn''" "ldif_keyword ''deleteoldrdn''"
  "ldif_keyword ''newsuperior''" "ldif_keyword ''add''" "ldif_keyword ''delete''" "ldif_keyword ''replace''"
  by code_simp+

lemma ldifPair_attribute:
  assumes "\<not> ldif_keyword n" "\<not> rd_have_change r"
  shows "ldifPair n v r = r\<lparr>rd_current := (rd_current r)\<lparr>lr_entry := (lr_entry (rd_current r))
    \<lparr>de_attributes := smap_push n v (de_attributes (lr_entry (rd_current r)))\<rparr>\<rparr>\<rparr>"
  using assms by (simp add: ldifPair_def iequals_keyword ldif_keywords Let_def)

lemma colon_toLowerAscii: "CHR '':'' \<in> set (toLowerAscii s) \<longleftrightarrow> CHR '':'' \<in> set s"
proof -
  have "tolower c = CHR '':'' \<longleftrightarrow> c = CHR '':''" for c
    by (rule tolower_eq_other) (simp_all add: isupper_def islower_def)
  then show ?thesis unfolding toLowerAscii_def set_map image_iff by metis
qed

lemma not_version:
  assumes "CHR '':'' \<notin> set n" "\<not> ldif_keyword n"
  shows "\<not> iequals (take (min (length (shownLine n v)) 8) (shownLine n v)) ''version:''"
proof
  let ?l = "toLowerAscii (shownLine n v)" and ?n = "toLowerAscii n"
  assume "iequals (take (min (length (shownLine n v)) 8) (shownLine n v)) ''version:''"
  moreover have "toLowerAscii ''version:'' = ''version:''" by code_simp
  ultimately have "take 8 ?l = ''version:''"
    by (simp add: iequals_def toLowerAscii_def take_map take_all_iff min_def split: if_splits)
  then have "?l = ''version'' @ CHR '':'' # drop 8 ?l" using append_take_drop_id [of 8 ?l] by simp
  then have version: "takeWhile (\<lambda>c. c \<noteq> CHR '':'') ?l = takeWhile (\<lambda>c. c \<noteq> CHR '':'') (''version'' @ CHR '':'' # drop 8 ?l)"
    by (rule arg_cong)
  have l: "?l = ?n @ CHR '':'' # toLowerAscii (drop (length n + 1) (shownLine n v))"
    by (simp add: shownLine_def toLowerAscii_def tolower_def isupper_def)
  have n: "CHR '':'' \<notin> set ?n" using assms(1) by (simp add: colon_toLowerAscii)
  then have "takeWhile (\<lambda>c. c \<noteq> CHR '':'') (?n @ CHR '':'' # w) = ?n" for w
    by (subst takeWhile_append2) auto
  then have "takeWhile (\<lambda>c. c \<noteq> CHR '':'') ?l = ?n" by (subst l)
  with version have "?n = ''version''" by simp
  with assms(2) show False by (simp add: ldif_keyword_def)
qed

lemma ldifLine_pair:
  assumes "ldif_name n" "\<not> ldif_keyword n" "ldif_value v" "\<not> rd_have_change r"
  shows "ldifLine (n @ '': '' @ v) r = r\<lparr>rd_current := (rd_current r)\<lparr>lr_entry := (lr_entry (rd_current r))
    \<lparr>de_attributes := smap_push n v (de_attributes (lr_entry (rd_current r)))\<rparr>\<rparr>\<rparr>"
proof -
  have n: "trimmed n" "n \<noteq> []" "CHR '':'' \<notin> set n" "hd n \<noteq> CHR ''#''" and v: "trimmed v"
    using assms by (simp_all add: ldif_name_def ldif_value_def)
  show ?thesis
    using trimInPlace_line [OF n(1,2) v] shownLine_hd [OF n(2)] find_colon [OF n(3)] value_shown [OF v] name_shown [of n v]
      n(4) trimInPlace_id [OF n(1)] not_version [OF n(3) assms(2)] ldifPair_attribute [OF assms(2,4)]
    by (simp add: ldifLine_def)
qed

lemma ldifLine_dn:
  assumes "ldif_value dn" "dn \<noteq> []" "\<not> rd_have_change r" "rd_current r = newRecord"
  shows "ldifLine (''dn: '' @ dn) r = r\<lparr>rd_current := newRecord\<lparr>lr_dn := dn\<rparr>\<rparr>"
proof -
  have dn: "trimmed dn" using assms by (simp add: ldif_value_def)
  have t: "trimmed ''dn''" by (simp add: trimmed_def)
  have "trimInPlace (''dn: '' @ dn) = ''dn: '' @ dn"
    using trimInPlace_line [OF t _ dn] assms by (simp add: shownLine_def)
  moreover have "find_char (CHR '':'') (''dn: '' @ dn) = Some 2"
    using find_char_append [of "CHR '':''" "''dn''" "CHR '' '' # dn"] by simp
  moreover have "\<not> iequals (take (min (length (''dn: '' @ dn)) 8) (''dn: '' @ dn)) ''version:''"
    by (simp add: iequals_def toLowerAscii_def tolower_def isupper_def take_Cons')
  moreover have "flushRecord r = r" using assms by (simp add: flushRecord_def flushChange_def newRecord_def)
  ultimately show ?thesis
    using trimInPlace_space [OF dn] trimInPlace_id [OF t] assms by (simp add: ldifLine_def ldifPair_def)
qed

lemma ldifLine_pairs:
  assumes "\<forall>(n, v) \<in> set ps. ldif_name n \<and> \<not> ldif_keyword n \<and> ldif_value v" "\<not> rd_have_change r"
  shows "fold ldifLine (map (\<lambda>(n, v). n @ '': '' @ v) ps) r = r\<lparr>rd_current := (rd_current r)\<lparr>lr_entry := (lr_entry (rd_current r))
    \<lparr>de_attributes := fold (\<lambda>(k, v). smap_push k v) ps (de_attributes (lr_entry (rd_current r)))\<rparr>\<rparr>\<rparr>"
  using assms
proof (induction ps arbitrary: r)
  case (Cons p ps)
  then show ?case using ldifLine_pair [of "fst p" "snd p" r] by (simp add: case_prod_beta)
qed simp

definition entryRecord :: "DirectoryEntry \<Rightarrow> LdifRecord" where
  "entryRecord e = newRecord\<lparr>lr_dn := de_dn e, lr_entry := e\<rparr>"

lemma read_entry:
  assumes "ldif_entry e" "\<forall>n \<in> fst ` set (de_attributes e). \<not> ldif_keyword n"
    "\<not> rd_have_change r" "rd_current r = newRecord"
  shows "fold ldifLine (entryLines e) r = r\<lparr>rd_records := rd_records r @ [entryRecord e]\<rparr>"
proof -
  note push = ldif_entry_pairs [OF assms(1)]
  have "\<forall>(n, v) \<in> set (attributePairs e). ldif_name n \<and> \<not> ldif_keyword n \<and> ldif_value v"
    using attributePairs_carried [OF assms(1)] assms(2) by (force simp: attributePairs_def)
  from ldifLine_pairs [OF this, of "r\<lparr>rd_current := newRecord\<lparr>lr_dn := de_dn e\<rparr>\<rparr>"] assms(3)
  have "fold ldifLine (map (\<lambda>(n, v). n @ '': '' @ v) (attributePairs e)) (r\<lparr>rd_current := newRecord\<lparr>lr_dn := de_dn e\<rparr>\<rparr>) =
      r\<lparr>rd_current := newRecord\<lparr>lr_dn := de_dn e, lr_entry := e\<lparr>de_dn := []\<rparr>\<rparr>\<rparr>"
    by (simp add: push newRecord_def emptyEntry_def)
  moreover have "ldifLine [] (r\<lparr>rd_current := newRecord\<lparr>lr_dn := de_dn e, lr_entry := e\<lparr>de_dn := []\<rparr>\<rparr>\<rparr>) =
      r\<lparr>rd_records := rd_records r @ [entryRecord e]\<rparr>"
    using assms by (simp add: ldifLine_def trimInPlace_def flushRecord_def flushChange_def Let_def ldif_entry_def entryRecord_def)
  ultimately show ?thesis
    using ldifLine_dn [of "de_dn e" r] assms by (simp add: entryLines_def ldif_entry_def)
qed

lemma read_entries:
  assumes "\<forall>e \<in> set es. ldif_entry e \<and> (\<forall>n \<in> fst ` set (de_attributes e). \<not> ldif_keyword n)"
    "\<not> rd_have_change r" "rd_current r = newRecord"
  shows "fold ldifLine (concat (map entryLines es)) r = r\<lparr>rd_records := rd_records r @ map entryRecord es\<rparr>"
  using assms
proof (induction es arbitrary: r)
  case (Cons e es)
  then show ?case using read_entry [of e r] by simp
qed simp

lemma parse_format:
  assumes "\<forall>e \<in> set es. ldif_entry e \<and> (\<forall>n \<in> fst ` set (de_attributes e). \<not> ldif_keyword n)"
  shows "parseLdifText (formatLdif es) = map entryRecord es"
  using splitLines_format [of es] read_entries [OF assms, of newReader] assms
  by (simp add: parseLdifText_def formatLdif_def newReader_def flushRecord_def flushChange_def newRecord_def)

section \<open>Properties\<close>

text \<open>C37: Restarting the file backend restores the directory.  After \<^verbatim>\<open>persist\<close> has rewritten the file, a backend that
  starts empty over the same file reads back exactly the entries, in their order and with their
  attributes and values in order, provided that every entry is stored under its own spelling and has
  only names and values the format can carry (no line feed, no outer blanks, no colon in a name, no
  attribute without values).\<close>

theorem restart_restores:
  assumes "mem_inv (ls_entries s)" and "\<forall>(k, e) \<in> set (ls_entries s). ldif_entry e \<and> k = de_dn e"
    and "ls_path s \<noteq> []" and "ls_writable s"
  shows "ldif_initialize ((ldif_persist s)\<lparr>ls_entries := []\<rparr>) = (True, ldif_persist s)"
  using import_export [OF assms(1,2)] assms(3,4) by (simp add: ldif_initialize_def ldif_persist_def)

definition demoFile :: LdifState where
  "demoFile = \<lparr>ls_entries = [(''cn=a,dc=x'', \<lparr>de_dn = ''cn=a,dc=x'', de_attributes = [(''cn'', [''a'', ''b: c'']), (''sn'', [''''])]\<rparr>),
      (''dc=x'', \<lparr>de_dn = ''dc=x'', de_attributes = []\<rparr>)], ls_path = ''/var/x.ldif'', ls_file = None, ls_writable = True\<rparr>"

theorem restart_restores_witness:
  "ldif_initialize ((ldif_persist demoFile)\<lparr>ls_entries := []\<rparr>) = (True, ldif_persist demoFile) \<and>
   ls_file (ldif_persist demoFile) \<noteq> None"
proof
  show "ldif_initialize ((ldif_persist demoFile)\<lparr>ls_entries := []\<rparr>) = (True, ldif_persist demoFile)"
  proof (rule restart_restores)
    show "mem_inv (ls_entries demoFile)" by code_simp
    show "\<forall>(k, e) \<in> set (ls_entries demoFile). ldif_entry e \<and> k = de_dn e" by code_simp
  qed (simp_all add: demoFile_def)
qed (simp add: ldif_persist_def demoFile_def)

text \<open>What the clients print as LDIF they read back: one content record per entry, in order, with the entry's
  name, attributes and values, for entries the format can carry whose attributes are not named like
  the reader's keywords (\<^verbatim>\<open>dn\<close>, \<^verbatim>\<open>changetype\<close>, \<^verbatim>\<open>add\<close> and so on, in any case).\<close>

lemma ldif_text_roundtrip:
  assumes "\<forall>e \<in> set es. ldif_entry e \<and> (\<forall>n \<in> fst ` set (de_attributes e). \<not> ldif_keyword n)"
  shows "map lr_entry (parseLdifText (formatLdif es)) = es \<and>
    map lr_dn (parseLdifText (formatLdif es)) = map de_dn es \<and>
    (\<forall>r \<in> set (parseLdifText (formatLdif es)). lr_changetype r = ContentChange \<and> lr_changes r = [])"
  unfolding parse_format [OF assms] by (simp add: comp_def entryRecord_def newRecord_def)











end
