(* ===== verification/Sqlite.thy ===== *)
theory Sqlite
  imports Ldif "HOL-Library.Multiset"
begin

text \<open>
  The SQLite backend, \<^verbatim>\<open>src/simple-ldapd/backend/sqlite.cpp\<close>.  SQLite itself is not part of the program: it is the
  record \<open>Sqlite\<close> of the calls the code makes, a parameter of every definition.  What SQLite documents
  about the statements that occur here (tables, transactions, cascading foreign keys, failures) is the locale \<open>sql_database\<close>.
  Over every database that satisfies it the backend is shown to behave as the in-memory backend, with
  the same answers in the same order, and to leave the tables as they were whenever an update
  fails, at whichever statement that writes.  Queries are assumed to answer: the code takes a query that fails for one
  without rows (\<open>sq_rows\<close>), and then \<^verbatim>\<open>add\<close> may store a second spelling of a name.  The mutex makes every operation one step.
\<close>

section \<open>Calls of SQLite\<close>

datatype SqlValue = SqlNull | SqlText string | SqlInteger int

text \<open>
  \<open>sq_open\<close>: \<^verbatim>\<open>sqlite3_open\<close> of a path.  \<open>sq_exec\<close>: \<^verbatim>\<open>sqlite3_exec\<close> of a text, and whether it returned
  \<^verbatim>\<open>SQLITE_OK\<close>.  \<open>sq_prepares\<close>: whether a text can be prepared.  \<open>sq_run\<close>: prepare, bind the parameters and step
  once, and whether that gave \<^verbatim>\<open>SQLITE_DONE\<close>.  \<open>sq_rows\<close>: prepare, bind and step while there are rows;
  no rows when preparing or binding fails.
\<close>

record 'd Sqlite =
  sq_open :: "string \<Rightarrow> 'd option"
  sq_exec :: "'d \<Rightarrow> string \<Rightarrow> bool \<times> 'd"
  sq_prepares :: "'d \<Rightarrow> string \<Rightarrow> bool"
  sq_run :: "'d \<Rightarrow> string \<Rightarrow> SqlValue list \<Rightarrow> bool \<times> 'd"
  sq_rows :: "'d \<Rightarrow> string \<Rightarrow> SqlValue list \<Rightarrow> SqlValue list list"

definition selectStored :: string where
  "selectStored = ''SELECT dn FROM entries WHERE lower(dn) = lower(?1)''"

definition selectAttributes :: string where
  "selectAttributes = ''SELECT type, value FROM attributes WHERE dn = ?1 ORDER BY ord''"

definition deleteAttributes :: string where
  "deleteAttributes = ''DELETE FROM attributes WHERE dn = ?1''"

definition insertAttribute :: string where
  "insertAttribute = ''INSERT INTO attributes(dn, type, value, ord) VALUES(?1, ?2, ?3, ?4)''"

definition countEntries :: string where
  "countEntries = ''SELECT COUNT(*) FROM entries''"

definition selectEntries :: string where
  "selectEntries = ''SELECT dn FROM entries''"

definition selectAllAttributes :: string where
  "selectAllAttributes = ''SELECT dn, type, value FROM attributes ORDER BY dn, ord''"

definition insertEntry :: string where
  "insertEntry = ''INSERT INTO entries(dn) VALUES(?1)''"

definition deleteEntry :: string where
  "deleteEntry = ''DELETE FROM entries WHERE dn = ?1''"

definition updateEntry :: string where
  "updateEntry = ''UPDATE entries SET dn = ?1 WHERE dn = ?2''"

section \<open>The implementation class\<close>

definition columnText :: "SqlValue list \<Rightarrow> nat \<Rightarrow> string" where
  "columnText row i =
     (if i < length row then case row ! i of SqlNull \<Rightarrow> [] | SqlText s \<Rightarrow> cStr s | SqlInteger n \<Rightarrow> toStringInt n else [])"

definition beginTransaction :: "'d Sqlite \<Rightarrow> 'd \<Rightarrow> bool \<times> 'd" where
  "beginTransaction Q db = sq_exec Q db ''BEGIN IMMEDIATE''"

definition commit :: "'d Sqlite \<Rightarrow> 'd \<Rightarrow> bool \<times> 'd" where
  "commit Q db = sq_exec Q db ''COMMIT''"

definition rollback :: "'d Sqlite \<Rightarrow> 'd \<Rightarrow> 'd" where
  "rollback Q db = snd (sq_exec Q db ''ROLLBACK'')"

definition storedDn :: "'d Sqlite \<Rightarrow> 'd \<Rightarrow> string \<Rightarrow> string option" where
  "storedDn Q db dn = (case sq_rows Q db selectStored [SqlText dn] of [] \<Rightarrow> None | row # _ \<Rightarrow> Some (columnText row 0))"

definition loadAttributes :: "'d Sqlite \<Rightarrow> 'd \<Rightarrow> string \<Rightarrow> DirectoryEntry" where
  "loadAttributes Q db dn =
     \<lparr>de_dn = dn, de_attributes = fold (\<lambda>row. smap_push (columnText row 0) (columnText row 1))
        (sq_rows Q db selectAttributes [SqlText dn]) []\<rparr>"

fun insertValues :: "'d Sqlite \<Rightarrow> string \<Rightarrow> (string \<times> string) list \<Rightarrow> nat \<Rightarrow> 'd \<Rightarrow> bool \<times> 'd" where
  "insertValues Q dn [] ord db = (True, db)"
| "insertValues Q dn ((name, v) # pairs) ord db =
     (case sq_run Q db insertAttribute [SqlText dn, SqlText name, SqlText v, SqlInteger (int ord)] of (ok, db) \<Rightarrow>
        if ok then insertValues Q dn pairs (ord + 1) db else (False, db))"

definition writeAttributes :: "'d Sqlite \<Rightarrow> 'd \<Rightarrow> DirectoryEntry \<Rightarrow> bool \<times> 'd" where
  "writeAttributes Q db entry =
     (case sq_run Q db deleteAttributes [SqlText (de_dn entry)] of (ok, db) \<Rightarrow>
        if \<not> ok then (False, db)
        else if \<not> sq_prepares Q db insertAttribute then (False, db)
        else insertValues Q (de_dn entry) (attributePairs entry) 0 db)"

definition entryCount :: "'d Sqlite \<Rightarrow> 'd \<Rightarrow> int" where
  "entryCount Q db = (case sq_rows Q db countEntries [] of (SqlInteger n # _) # _ \<Rightarrow> n | [] \<Rightarrow> -1 | _ \<Rightarrow> 0)"

definition addRow :: "SqlValue list \<Rightarrow> DirectoryEntry smap \<Rightarrow> DirectoryEntry smap" where
  "addRow row by_dn =
     (let dn = columnText row 0 in
      case map_of by_dn dn of
        None \<Rightarrow> by_dn
      | Some entry \<Rightarrow>
          smap_put dn (entry\<lparr>de_attributes := smap_push (columnText row 1) (columnText row 2) (de_attributes entry)\<rparr>) by_dn)"

definition allEntries :: "'d Sqlite \<Rightarrow> 'd \<Rightarrow> DirectoryEntry list" where
  "allEntries Q db =
     (let by_dn = fold (\<lambda>row. smap_put (columnText row 0) \<lparr>de_dn = columnText row 0, de_attributes = []\<rparr>)
                    (sq_rows Q db selectEntries []) [];
          by_dn = fold addRow (sq_rows Q db selectAllAttributes []) by_dn
      in map snd by_dn)"

section \<open>The backend\<close>

text \<open>The members: the path, the seed file (its path and contents) and the open database.\<close>

record 'd SqliteState =
  sl_path :: string
  sl_seed :: string
  sl_seed_file :: "string option"
  sl_db :: "'d option"

text \<open>The end of an update: what the statements of a transaction gave, then commit or rollback.\<close>

definition finishUpdate :: "'d Sqlite \<Rightarrow> bool \<times> 'd \<Rightarrow> bool \<times> 'd" where
  "finishUpdate Q result =
     (case result of (ok, db) \<Rightarrow>
        if \<not> ok then (False, rollback Q db)
        else case commit Q db of (ok, db) \<Rightarrow> if ok then (True, db) else (False, rollback Q db))"

text \<open>The seeding loop; the flag is false after a failed statement, and the rest is not read.\<close>

fun seedRecords :: "'d Sqlite \<Rightarrow> LdifRecord list \<Rightarrow> 'd \<Rightarrow> bool \<times> 'd" where
  "seedRecords Q [] db = (True, db)"
| "seedRecords Q (r # records) db =
     (if lr_dn r = [] \<or> de_dn (lr_entry r) = [] then seedRecords Q records db
      else if lr_changetype r \<noteq> ContentChange \<and> lr_changetype r \<noteq> AddChange then seedRecords Q records db
      else case sq_run Q db insertEntry [SqlText (de_dn (lr_entry r))] of (ok, db) \<Rightarrow>
        if \<not> ok then (False, db)
        else case writeAttributes Q db (lr_entry r) of (ok, db) \<Rightarrow>
          if \<not> ok then (False, db) else seedRecords Q records db)"

definition seed :: "'d Sqlite \<Rightarrow> LdifRecord list \<Rightarrow> 'd \<Rightarrow> bool \<times> 'd" where
  "seed Q records db =
     (case beginTransaction Q db of (ok, db) \<Rightarrow>
        if \<not> ok then (False, db) else finishUpdate Q (seedRecords Q records db))"

fun execAll :: "'d Sqlite \<Rightarrow> string list \<Rightarrow> 'd \<Rightarrow> bool \<times> 'd" where
  "execAll Q [] db = (True, db)"
| "execAll Q (sql # sqls) db = (case sq_exec Q db sql of (ok, db) \<Rightarrow> if ok then execAll Q sqls db else (False, db))"

definition createTables :: "string list" where
  "createTables =
     [''PRAGMA foreign_keys = ON'', ''PRAGMA journal_mode = WAL'',
      ''CREATE TABLE IF NOT EXISTS entries (dn TEXT PRIMARY KEY NOT NULL)'',
      ''CREATE TABLE IF NOT EXISTS attributes (dn TEXT NOT NULL, type TEXT NOT NULL, value TEXT NOT NULL, ord INTEGER NOT NULL, FOREIGN KEY(dn) REFERENCES entries(dn) ON DELETE CASCADE ON UPDATE CASCADE)'',
      ''CREATE INDEX IF NOT EXISTS attributes_dn ON attributes(dn)'']"

definition sqlite_initialize :: "'d Sqlite \<Rightarrow> 'd SqliteState \<Rightarrow> bool \<times> 'd SqliteState" where
  "sqlite_initialize Q s =
     (if sl_path s = [] then (False, s)
      else case sq_open Q (sl_path s) of
        None \<Rightarrow> (False, s)
      | Some db \<Rightarrow>
          (case execAll Q createTables db of (ok, db) \<Rightarrow>
             if \<not> ok then (False, s\<lparr>sl_db := Some db\<rparr>)
             else if entryCount Q db = 0 \<and> sl_seed s \<noteq> [] then
               (case seed Q (parseLdifFile (sl_seed_file s)) db of (ok, db) \<Rightarrow> (ok, s\<lparr>sl_db := Some db\<rparr>))
             else (True, s\<lparr>sl_db := Some db\<rparr>)))"

definition sqlite_lookup :: "'d Sqlite \<Rightarrow> 'd SqliteState \<Rightarrow> string \<Rightarrow> DirectoryEntry option" where
  "sqlite_lookup Q s dn = (case sl_db s of None \<Rightarrow> None | Some db \<Rightarrow> map_option (loadAttributes Q db) (storedDn Q db dn))"

definition sqlite_search :: "'d Sqlite \<Rightarrow> 'd SqliteState \<Rightarrow> string \<Rightarrow> SearchScope \<Rightarrow> SearchFilter \<Rightarrow> DirectoryEntry list" where
  "sqlite_search Q s base_dn scope f =
     (case sl_db s of None \<Rightarrow> []
      | Some db \<Rightarrow> filter (\<lambda>entry. inScope scope (de_dn entry) base_dn \<and> matches f entry) (allEntries Q db))"

definition addStatements :: "'d Sqlite \<Rightarrow> 'd \<Rightarrow> DirectoryEntry \<Rightarrow> bool \<times> 'd" where
  "addStatements Q db entry =
     (case sq_run Q db insertEntry [SqlText (de_dn entry)] of (ok, db) \<Rightarrow>
        if ok then writeAttributes Q db entry else (False, db))"

definition add_db :: "'d Sqlite \<Rightarrow> 'd \<Rightarrow> DirectoryEntry \<Rightarrow> bool \<times> 'd" where
  "add_db Q db entry =
     (if de_dn entry = [] then (False, db)
      else if storedDn Q db (de_dn entry) \<noteq> None then (False, db)
      else case beginTransaction Q db of (ok, db) \<Rightarrow>
        if \<not> ok then (False, db) else finishUpdate Q (addStatements Q db entry))"

definition modify_db :: "'d Sqlite \<Rightarrow> 'd \<Rightarrow> DirectoryEntry \<Rightarrow> bool \<times> 'd" where
  "modify_db Q db entry =
     (case storedDn Q db (de_dn entry) of
        None \<Rightarrow> (False, db)
      | Some stored \<Rightarrow>
          (case beginTransaction Q db of (ok, db) \<Rightarrow>
             if \<not> ok then (False, rollback Q db) else finishUpdate Q (writeAttributes Q db (entry\<lparr>de_dn := stored\<rparr>))))"

definition remove_db :: "'d Sqlite \<Rightarrow> 'd \<Rightarrow> string \<Rightarrow> bool \<times> 'd" where
  "remove_db Q db dn =
     (case storedDn Q db dn of
        None \<Rightarrow> (False, db)
      | Some stored \<Rightarrow>
          (case beginTransaction Q db of (ok, db) \<Rightarrow>
             if \<not> ok then (False, db) else finishUpdate Q (sq_run Q db deleteEntry [SqlText stored])))"

definition rename_db :: "'d Sqlite \<Rightarrow> 'd \<Rightarrow> string \<Rightarrow> string \<Rightarrow> bool \<times> 'd" where
  "rename_db Q db from to =
     (if from = [] \<or> to = [] then (False, db)
      else case storedDn Q db from of
        None \<Rightarrow> (False, db)
      | Some stored \<Rightarrow>
          if dnEquals from to then (True, db)
          else if storedDn Q db to \<noteq> None then (False, db)
          else case beginTransaction Q db of (ok, db) \<Rightarrow>
            if \<not> ok then (False, db) else finishUpdate Q (sq_run Q db updateEntry [SqlText to, SqlText stored]))"

definition sqlite_update :: "('d \<Rightarrow> bool \<times> 'd) \<Rightarrow> 'd SqliteState \<Rightarrow> bool \<times> 'd SqliteState" where
  "sqlite_update f s =
     (case sl_db s of None \<Rightarrow> (False, s) | Some db \<Rightarrow> (case f db of (ok, db) \<Rightarrow> (ok, s\<lparr>sl_db := Some db\<rparr>)))"

definition sqlite_hasChildren :: "'d Sqlite \<Rightarrow> 'd SqliteState \<Rightarrow> string \<Rightarrow> bool" where
  "sqlite_hasChildren Q s dn =
     (case sl_db s of None \<Rightarrow> False | Some db \<Rightarrow> \<exists>entry \<in> set (allEntries Q db). dnIsOneLevelChild (de_dn entry) dn)"

definition sqliteBackend :: "'d Sqlite \<Rightarrow> 'd SqliteState Backend" where
  "sqliteBackend Q =
     \<lparr>be_lookup = sqlite_lookup Q, be_search = sqlite_search Q,
      be_add = (\<lambda>s e. sqlite_update (\<lambda>db. add_db Q db e) s), be_modify = (\<lambda>s e. sqlite_update (\<lambda>db. modify_db Q db e) s),
      be_remove = (\<lambda>s dn. sqlite_update (\<lambda>db. remove_db Q db dn) s),
      be_rename = (\<lambda>s old new. sqlite_update (\<lambda>db. rename_db Q db old new) s),
      be_hasChildren = sqlite_hasChildren Q, be_persist = (\<lambda>s. s)\<rparr>"

text \<open>\<^verbatim>\<open>exportFile\<close>: the new contents of the file, when it can be written.\<close>

definition sqlite_exportFile :: "'d Sqlite \<Rightarrow> 'd SqliteState \<Rightarrow> bool \<Rightarrow> string option" where
  "sqlite_exportFile Q s writable =
     (case sl_db s of None \<Rightarrow> None | Some db \<Rightarrow> if writable then Some (formatLdif (allEntries Q db)) else None)"

section \<open>What SQLite documents\<close>

text \<open>The contents of the two tables; the columns of \<^verbatim>\<open>attributes\<close> are \<^verbatim>\<open>dn\<close>, \<^verbatim>\<open>type\<close>, \<^verbatim>\<open>value\<close> and \<^verbatim>\<open>ord\<close>.\<close>

type_synonym attributeRow = "string \<times> string \<times> string \<times> int"

record Tables =
  tb_entries :: "string list"
  tb_attributes :: "attributeRow list"

abbreviation rowOrd :: "attributeRow \<Rightarrow> int" where
  "rowOrd r \<equiv> snd (snd (snd r))"

text \<open>The effect of a statement that ends with \<^verbatim>\<open>SQLITE_DONE\<close>; \<open>None\<close> when a primary or foreign key forbids it.  Deleting or
  updating an entry cascades to its attributes.\<close>

definition sql_effect :: "string \<Rightarrow> SqlValue list \<Rightarrow> Tables \<Rightarrow> Tables option" where
  "sql_effect sql params t =
     (case params of
        [SqlText dn] \<Rightarrow>
          if sql = insertEntry then
            if dn \<in> set (tb_entries t) then None else Some (t\<lparr>tb_entries := tb_entries t @ [dn]\<rparr>)
          else if sql = deleteAttributes then Some (t\<lparr>tb_attributes := filter (\<lambda>r. fst r \<noteq> dn) (tb_attributes t)\<rparr>)
          else if sql = deleteEntry then
            Some (t\<lparr>tb_entries := filter (\<lambda>k. k \<noteq> dn) (tb_entries t), tb_attributes := filter (\<lambda>r. fst r \<noteq> dn) (tb_attributes t)\<rparr>)
          else None
      | [SqlText new, SqlText old] \<Rightarrow>
          if sql = updateEntry then
            if new \<noteq> old \<and> old \<in> set (tb_entries t) \<and> new \<in> set (tb_entries t) then None
            else Some (t\<lparr>tb_entries := map (\<lambda>k. if k = old then new else k) (tb_entries t),
                         tb_attributes := map (\<lambda>r. if fst r = old then (new, snd r) else r) (tb_attributes t)\<rparr>)
          else None
      | [SqlText dn, SqlText name, SqlText v, SqlInteger ord] \<Rightarrow>
          if sql = insertAttribute then
            if dn \<in> set (tb_entries t) then Some (t\<lparr>tb_attributes := tb_attributes t @ [(dn, name, v, ord)]\<rparr>) else None
          else None
      | _ \<Rightarrow> None)"

text \<open>The result of statements inside a transaction that began with the tables \<open>u\<close>: success with the effect \<open>T\<close>, or
  a failure that leaves the transaction open or has rolled it back (full disk, I/O error).\<close>

definition tx_result :: "('d \<Rightarrow> Tables \<times> Tables option) \<Rightarrow> Tables \<Rightarrow> Tables option \<Rightarrow> bool \<times> 'd \<Rightarrow> bool" where
  "tx_result view u T r \<longleftrightarrow>
     (case r of (ok, d) \<Rightarrow>
        if ok then \<exists>t. T = Some t \<and> view d = (t, Some u) else view d = (u, None) \<or> (\<exists>t. view d = (t, Some u)))"

abbreviation nul_free :: "string \<Rightarrow> bool" where
  "nul_free s \<equiv> CHR 0x00 \<notin> set s"

text \<open>
  A database with the tables of the backend: \<open>view\<close> gives their contents and, inside a transaction, the contents
  at its beginning.  Transactions may fail to begin or to commit and statements may fail at any time;
  reading statements return their rows (queries that fail are outside the contract), in the order of their \<^verbatim>\<open>ORDER BY\<close> clause and otherwise in any order.
\<close>

locale sql_database =
  fixes Q :: "'d Sqlite"
    and view :: "'d \<Rightarrow> Tables \<times> Tables option"
  assumes begin_law: "view d = (t, None) \<Longrightarrow> sq_exec Q d ''BEGIN IMMEDIATE'' = (ok, d') \<Longrightarrow>
      view d' = (t, if ok then Some t else None)"
    and commit_law: "view d = (t, Some u) \<Longrightarrow> sq_exec Q d ''COMMIT'' = (ok, d') \<Longrightarrow>
      if ok then view d' = (t, None) else view d' = (t, Some u) \<or> view d' = (u, None)"
    and rollback_law: "view d = (t, v) \<Longrightarrow> sq_exec Q d ''ROLLBACK'' = (ok, d') \<Longrightarrow>
      view d' = (case v of None \<Rightarrow> t | Some u \<Rightarrow> u, None)"
    and run_law: "view d = (t, Some u) \<Longrightarrow> tx_result view u (sql_effect sql params t) (sq_run Q d sql params)"
    and stored_law: "view d = (t, v) \<Longrightarrow> nul_free dn \<Longrightarrow> \<exists>ks.
      mset ks = mset (filter (\<lambda>k. iequals k dn) (tb_entries t)) \<and>
      sq_rows Q d selectStored [SqlText dn] = map (\<lambda>k. [SqlText k]) ks"
    and attributes_law: "view d = (t, v) \<Longrightarrow> nul_free dn \<Longrightarrow> \<exists>rs.
      mset rs = mset (filter (\<lambda>r. fst r = dn) (tb_attributes t)) \<and> sorted (map rowOrd rs) \<and>
      sq_rows Q d selectAttributes [SqlText dn] = map (\<lambda>(k, n, v, i). [SqlText n, SqlText v]) rs"
    and entries_law: "view d = (t, v) \<Longrightarrow> \<exists>ks.
      mset ks = mset (tb_entries t) \<and> sq_rows Q d selectEntries [] = map (\<lambda>k. [SqlText k]) ks"
    and all_attributes_law: "view d = (t, v) \<Longrightarrow> \<exists>rs.
      mset rs = mset (tb_attributes t) \<and>
      sorted_wrt (\<lambda>r r'. fst r < fst r' \<or> fst r = fst r' \<and> rowOrd r \<le> rowOrd r') rs \<and>
      sq_rows Q d selectAllAttributes [] = map (\<lambda>(k, n, v, i). [SqlText k, SqlText n, SqlText v]) rs"

text \<open>A database on which nothing fails that the keys allow.\<close>

definition reliable :: "'d Sqlite \<Rightarrow> ('d \<Rightarrow> Tables \<times> Tables option) \<Rightarrow> bool" where
  "reliable Q view \<longleftrightarrow>
     (\<forall>d. fst (sq_exec Q d ''BEGIN IMMEDIATE'') \<and> fst (sq_exec Q d ''COMMIT'') \<and> sq_prepares Q d insertAttribute) \<and>
     (\<forall>d sql params. sql_effect sql params (fst (view d)) \<noteq> None \<longrightarrow> fst (sq_run Q d sql params))"

section \<open>Transactions\<close>

text \<open>The rows of an entry.\<close>

fun pairRows :: "string \<Rightarrow> (string \<times> string) list \<Rightarrow> nat \<Rightarrow> attributeRow list" where
  "pairRows dn [] i = []"
| "pairRows dn ((n, v) # ps) i = (dn, n, v, int i) # pairRows dn ps (i + 1)"

lemmas sql_texts = insertEntry_def deleteAttributes_def deleteEntry_def updateEntry_def insertAttribute_def

lemma sql_effect_simps:
  "sql_effect insertEntry [SqlText dn] t =
     (if dn \<in> set (tb_entries t) then None else Some (t\<lparr>tb_entries := tb_entries t @ [dn]\<rparr>))"
  "sql_effect deleteAttributes [SqlText dn] t = Some (t\<lparr>tb_attributes := filter (\<lambda>r. fst r \<noteq> dn) (tb_attributes t)\<rparr>)"
  "sql_effect deleteEntry [SqlText dn] t = Some (t\<lparr>tb_entries := filter (\<lambda>k. k \<noteq> dn) (tb_entries t),
     tb_attributes := filter (\<lambda>r. fst r \<noteq> dn) (tb_attributes t)\<rparr>)"
  "sql_effect updateEntry [SqlText new, SqlText old] t =
     (if new \<noteq> old \<and> old \<in> set (tb_entries t) \<and> new \<in> set (tb_entries t) then None
      else Some (t\<lparr>tb_entries := map (\<lambda>k. if k = old then new else k) (tb_entries t),
                   tb_attributes := map (\<lambda>r. if fst r = old then (new, snd r) else r) (tb_attributes t)\<rparr>))"
  "sql_effect insertAttribute [SqlText dn, SqlText n, SqlText v, SqlInteger i] t =
     (if dn \<in> set (tb_entries t) then Some (t\<lparr>tb_attributes := tb_attributes t @ [(dn, n, v, i)]\<rparr>) else None)"
  by (simp_all add: sql_effect_def sql_texts)

definition written :: "DirectoryEntry \<Rightarrow> Tables \<Rightarrow> Tables" where
  "written e t = t\<lparr>tb_attributes := filter (\<lambda>r. fst r \<noteq> de_dn e) (tb_attributes t) @ pairRows (de_dn e) (attributePairs e) 0\<rparr>"

lemma tx_result_iff:
  "tx_result view u T (ok, d) \<longleftrightarrow>
     (if ok then \<exists>t. T = Some t \<and> view d = (t, Some u) else view d = (u, None) \<or> (\<exists>t. view d = (t, Some u)))"
  by (simp add: tx_result_def)

context sql_database
begin

lemma tx_insertValues:
  assumes "view d = (t, Some u)" "dn \<in> set (tb_entries t)"
  shows "tx_result view u (Some (t\<lparr>tb_attributes := tb_attributes t @ pairRows dn ps i\<rparr>)) (insertValues Q dn ps i d)"
  using assms
proof (induction ps arbitrary: d t i)
  case Nil
  then show ?case by (simp add: tx_result_iff)
next
  case (Cons p ps)
  obtain n v where p: "p = (n, v)" by fastforce
  obtain ok d1 where r: "sq_run Q d insertAttribute [SqlText dn, SqlText n, SqlText v, SqlInteger (int i)] = (ok, d1)" by fastforce
  from run_law [OF Cons.prems(1), of insertAttribute "[SqlText dn, SqlText n, SqlText v, SqlInteger (int i)]"]
  have law: "tx_result view u (Some (t\<lparr>tb_attributes := tb_attributes t @ [(dn, n, v, int i)]\<rparr>)) (ok, d1)"
    by (simp add: r sql_effect_simps Cons.prems(2))
  show ?case
  proof (cases ok)
    case True
    with law Cons.IH [of d1 "t\<lparr>tb_attributes := tb_attributes t @ [(dn, n, v, int i)]\<rparr>" "i + 1"] Cons.prems(2)
    show ?thesis by (simp add: p r tx_result_iff)
  next
    case False
    with law show ?thesis by (simp add: p r tx_result_iff)
  qed
qed

lemma tx_writeAttributes:
  assumes "view d = (t, Some u)" "de_dn e \<in> set (tb_entries t)"
  shows "tx_result view u (Some (written e t)) (writeAttributes Q d e)"
proof -
  obtain ok d1 where r: "sq_run Q d deleteAttributes [SqlText (de_dn e)] = (ok, d1)" by fastforce
  let ?t = "t\<lparr>tb_attributes := filter (\<lambda>r. fst r \<noteq> de_dn e) (tb_attributes t)\<rparr>"
  have law: "tx_result view u (Some ?t) (ok, d1)"
    using run_law [OF assms(1), of deleteAttributes "[SqlText (de_dn e)]"] by (simp add: r sql_effect_simps)
  show ?thesis
  proof (cases "ok \<and> sq_prepares Q d1 insertAttribute")
    case True
    with law tx_insertValues [of d1 ?t u "de_dn e" "attributePairs e" 0] assms(2) show ?thesis
      by (simp add: writeAttributes_def r tx_result_iff written_def)
  next
    case False
    with law show ?thesis by (auto simp: writeAttributes_def r tx_result_iff split: if_splits)
  qed
qed

lemma tx_addStatements:
  assumes "view d = (t, Some u)" "de_dn e \<notin> set (tb_entries t)"
  shows "tx_result view u (Some (written e (t\<lparr>tb_entries := tb_entries t @ [de_dn e]\<rparr>))) (addStatements Q d e)"
proof -
  obtain ok d1 where r: "sq_run Q d insertEntry [SqlText (de_dn e)] = (ok, d1)" by fastforce
  have law: "tx_result view u (Some (t\<lparr>tb_entries := tb_entries t @ [de_dn e]\<rparr>)) (ok, d1)"
    using run_law [OF assms(1), of insertEntry "[SqlText (de_dn e)]"] assms(2) by (simp add: r sql_effect_simps)
  with tx_writeAttributes [of d1 "t\<lparr>tb_entries := tb_entries t @ [de_dn e]\<rparr>" u e] show ?thesis
    by (cases ok) (auto simp: addStatements_def r tx_result_iff)
qed

lemma rollback_view: "view d = (t, Some u) \<or> view d = (u, None) \<Longrightarrow> view (rollback Q d) = (u, None)"
  using rollback_law [of d] by (cases "sq_exec Q d ''ROLLBACK''") (auto simp: rollback_def)

lemma finishUpdate_view:
  assumes "tx_result view u T r" "finishUpdate Q r = (ok, d')"
  shows "if ok then \<exists>t. T = Some t \<and> view d' = (t, None) else view d' = (u, None)"
proof -
  obtain ok1 d1 where r: "r = (ok1, d1)" by fastforce
  obtain ok2 d2 where c: "sq_exec Q d1 ''COMMIT'' = (ok2, d2)" by fastforce
  show ?thesis
  proof (cases ok1)
    case True
    then obtain t where t: "T = Some t" "view d1 = (t, Some u)" using assms(1) r by (auto simp: tx_result_iff)
    from commit_law [OF t(2) c] t assms(2) True rollback_view [of d2] show ?thesis
      by (cases ok2) (auto simp: finishUpdate_def r commit_def c)
  next
    case False
    with assms rollback_view [of d1] show ?thesis by (auto simp: finishUpdate_def r tx_result_iff)
  qed
qed

lemma transaction_view:
  assumes "view d = (t, None)"
    and "\<And>d1. view d1 = (t, Some t) \<Longrightarrow> tx_result view t T (stmts d1)"
    and "\<And>d1. view d1 = (t, None) \<Longrightarrow> view (failed d1) = (t, None)"
    and "(case beginTransaction Q d of (ok, d) \<Rightarrow> if \<not> ok then (False, failed d) else finishUpdate Q (stmts d)) = (ok, d')"
  shows "if ok then \<exists>t'. T = Some t' \<and> view d' = (t', None) else view d' = (t, None)"
proof -
  obtain ok1 d1 where b: "sq_exec Q d ''BEGIN IMMEDIATE'' = (ok1, d1)" by fastforce
  note law = begin_law [OF assms(1) b]
  show ?thesis
  proof (cases ok1)
    case True
    then show ?thesis using law assms(4) by (intro finishUpdate_view [OF assms(2)]) (simp_all add: beginTransaction_def b)
  next
    case False
    then show ?thesis using law assms(3,4) by (auto simp: beginTransaction_def b)
  qed
qed

end

section \<open>The directory the tables hold\<close>

definition sql_entry :: "DirectoryEntry \<Rightarrow> bool" where
  "sql_entry e \<longleftrightarrow> nul_free (de_dn e) \<and> smap_ok (de_attributes e) \<and>
     (\<forall>(n, vs) \<in> set (de_attributes e). nul_free n \<and> vs \<noteq> [] \<and> (\<forall>v \<in> set vs. nul_free v))"

abbreviation entryRows :: "DirectoryEntry \<Rightarrow> attributeRow list" where
  "entryRows e \<equiv> pairRows (de_dn e) (attributePairs e) 0"

abbreviation tableRows :: "MemoryState \<Rightarrow> attributeRow list" where
  "tableRows m \<equiv> concat (map (entryRows \<circ> snd) m)"

text \<open>The tables hold the in-memory directory \<open>m\<close>: its names, each under its own spelling, and the rows of its entries.\<close>

definition represents :: "Tables \<Rightarrow> MemoryState \<Rightarrow> bool" where
  "represents t m \<longleftrightarrow> mem_inv m \<and> (\<forall>(k, e) \<in> set m. k = de_dn e \<and> sql_entry e) \<and>
     mset (tb_entries t) = mset (map fst m) \<and> mset (tb_attributes t) = mset (tableRows m)"

lemma representsD:
  assumes "represents t m"
  shows "mem_inv m" "ci_ok m" "smap_ok m" "(k, e) \<in> set m \<Longrightarrow> k = de_dn e \<and> sql_entry e"
    "mset (tb_entries t) = mset (map fst m)" "mset (tb_attributes t) = mset (tableRows m)"
    "set (tb_entries t) = fst ` set m"
  using assms mset_eq_setD [of "tb_entries t" "map fst m"] by (auto simp: represents_def mem_inv_def ci_ok_def)

lemma cStr_id: "nul_free s \<Longrightarrow> cStr s = s"
  by (auto simp: cStr_def takeWhile_eq_all_conv)

lemma pairRows_dn: "r \<in> set (pairRows dn ps i) \<Longrightarrow> fst r = dn"
  by (induction ps arbitrary: i) auto

lemma pairRows_ge: "r \<in> set (pairRows dn ps i) \<Longrightarrow> int i \<le> rowOrd r"
  by (induction ps arbitrary: i) fastforce+

lemma pairRows_sorted: "sorted_wrt (\<lambda>r r'. rowOrd r < rowOrd r') (pairRows dn ps i)"
proof (induction ps arbitrary: i)
  case (Cons p ps)
  then show ?case using pairRows_ge [of _ dn ps "i + 1"] by (cases p) fastforce
qed simp

lemma sorted_ord_unique:
  assumes "mset rs = mset rs'" "sorted (map rowOrd rs)" "sorted_wrt (\<lambda>r r'. rowOrd r < rowOrd r') rs'"
  shows "rs = rs'"
proof -
  have s': "sorted (map rowOrd rs')" "distinct (map rowOrd rs')"
    using assms(3) strict_sorted_iff [of "map rowOrd rs'"] by (simp_all add: sorted_wrt_map)
  have "mset (map rowOrd rs) = mset (map rowOrd rs')" using assms(1) by simp
  then have "distinct (map rowOrd rs)" using s'(2) mset_eq_imp_distinct_iff by blast
  moreover have "set rs = set rs'" using assms(1) by (rule mset_eq_setD)
  moreover have "inj_on rowOrd (set rs')" using s'(2) by (simp add: distinct_map)
  ultimately show ?thesis using s' assms(2) by (intro map_sorted_distinct_set_unique [of rowOrd]) simp_all
qed

lemma tableRows_filter:
  assumes "\<forall>(k, e) \<in> set m. k = de_dn e"
  shows "filter (\<lambda>r. P (fst r)) (tableRows m) = tableRows (filter (\<lambda>p. P (fst p)) m)"
  using assms
proof (induction m)
  case (Cons p m)
  obtain e where p: "p = (de_dn e, e)" using Cons.prems by (cases p) auto
  have "filter (\<lambda>r. P (fst r)) (entryRows e) = (if P (de_dn e) then entryRows e else [])"
    by (auto simp: filter_empty_conv filter_id_conv dest: pairRows_dn)
  with Cons show ?case by (simp add: p)
qed simp

lemma filter_key: "smap_ok m \<Longrightarrow> (k, e) \<in> set m \<Longrightarrow> filter (\<lambda>p. fst p = k) m = [(k, e)]"
proof (induction m)
  case (Cons p m)
  have "fst p < fst q" if "q \<in> set m" for q using Cons.prems(1) that by (cases p) (auto simp: smap_ok_Cons)
  then have "fst p = k \<Longrightarrow> filter (\<lambda>p. fst p = k) m = []" by (fastforce simp: filter_empty_conv)
  with Cons show ?case by (cases p) (auto simp: smap_ok_Cons filter_empty_conv)
qed simp

lemma rows_of_entry:
  assumes "represents t m" "(k, e) \<in> set m"
  shows "mset (filter (\<lambda>r. fst r = k) (tb_attributes t)) = mset (entryRows e)"
proof -
  have "\<forall>(k, e) \<in> set m. k = de_dn e" using representsD(4) [OF assms(1)] by auto
  then have "filter (\<lambda>r. fst r = k) (tableRows m) = entryRows e"
    by (simp add: tableRows_filter [of m "\<lambda>n. n = k"] filter_key [OF representsD(3) [OF assms(1)] assms(2)])
  moreover have "mset (filter (\<lambda>r. fst r = k) (tb_attributes t)) = mset (filter (\<lambda>r. fst r = k) (tableRows m))"
    unfolding mset_filter representsD(6) [OF assms(1)] ..
  ultimately show ?thesis by (rule subst [where P = "\<lambda>rs. _ = mset rs"])
qed

lemma filter_ci:
  assumes "ci_ok m"
  shows "filter (\<lambda>k. iequals k dn) (map fst m) = (case find (\<lambda>p. dnEquals (fst p) dn) m of None \<Rightarrow> [] | Some p \<Rightarrow> [fst p])"
  using assms
proof (induction m)
  case (Cons p m)
  have ok: "ci_ok m" and k: "\<forall>q \<in> set m. toLowerAscii (fst q) \<noteq> toLowerAscii (fst p)"
    using Cons.prems by (cases p, auto simp: ci_ok_Cons)+
  show ?case
  proof (cases "iequals (fst p) dn")
    case True
    with k have "filter (\<lambda>k. iequals k dn) (map fst m) = []" by (auto simp: filter_empty_conv iequals_def)
    with True show ?thesis by (simp add: dnEquals_def)
  next
    case False
    with Cons.IH [OF ok] show ?thesis by (simp add: dnEquals_def)
  qed
qed simp

lemma sql_entry_pairs:
  assumes "sql_entry e"
  shows "(n, v) \<in> set (attributePairs e) \<Longrightarrow> nul_free n \<and> nul_free v"
    "fold (\<lambda>(n, v). smap_push n v) (attributePairs e) [] = de_attributes e"
proof -
  show "(n, v) \<in> set (attributePairs e) \<Longrightarrow> nul_free n \<and> nul_free v"
    using assms by (fastforce simp: sql_entry_def attributePairs_def)
  show "fold (\<lambda>(n, v). smap_push n v) (attributePairs e) [] = de_attributes e"
    using assms by (intro fold_attributePairs) (auto simp: sql_entry_def)
qed

lemma pairRows_pairs: "map (\<lambda>(k, n, v, i). (n, v)) (pairRows dn ps i) = ps"
  by (induction ps arbitrary: i) auto

lemma pairRows_mem: "(k, n, v, j) \<in> set (pairRows dn ps i) \<Longrightarrow> (n, v) \<in> set ps"
  by (induction ps arbitrary: i) fastforce+

lemma push_rows:
  assumes "sql_entry e"
  shows "fold (\<lambda>(k, n, v, i). smap_push (cStr n) (cStr v)) (entryRows e) [] = de_attributes e"
proof -
  have "fold (\<lambda>(k, n, v, i). smap_push (cStr n) (cStr v)) (entryRows e) [] =
      fold (\<lambda>(n, v). smap_push n v) (map (\<lambda>(k, n, v, i). (n, v)) (entryRows e)) []"
    unfolding fold_map using sql_entry_pairs(1) [OF assms] by (intro fold_cong) (auto simp: cStr_id dest: pairRows_mem)
  then show ?thesis by (simp add: pairRows_pairs sql_entry_pairs(2) [OF assms])
qed

section \<open>Reading\<close>

lemma columnText_simps [simp]:
  "columnText (SqlText s # row) 0 = cStr s"
  "columnText (x # SqlText s # row) (Suc 0) = cStr s"
  "columnText (x # y # SqlText s # row) 2 = cStr s"
  by (simp_all add: columnText_def)

context sql_database
begin

lemma storedDn_find:
  assumes "view d = (t, None)" "represents t m" "nul_free dn"
  shows "storedDn Q d dn = map_option fst (find (\<lambda>p. dnEquals (fst p) dn) m)"
proof -
  obtain ks where ks: "mset ks = mset (filter (\<lambda>k. iequals k dn) (tb_entries t))"
    and rows: "sq_rows Q d selectStored [SqlText dn] = map (\<lambda>k. [SqlText k]) ks"
    using stored_law [OF assms(1,3)] by blast
  have "mset ks = mset (filter (\<lambda>k. iequals k dn) (map fst m))"
    unfolding ks mset_filter representsD(5) [OF assms(2)] ..
  then have k: "mset ks = mset (case find (\<lambda>p. dnEquals (fst p) dn) m of None \<Rightarrow> [] | Some p \<Rightarrow> [fst p])"
    unfolding filter_ci [OF representsD(2) [OF assms(2)]] .
  show ?thesis
  proof (cases "find (\<lambda>p. dnEquals (fst p) dn) m")
    case None
    with k rows show ?thesis by (simp add: storedDn_def)
  next
    case (Some p)
    then have "ks = [fst p]" using k by simp
    moreover have "p \<in> set m" using Some by (auto simp: find_Some_iff)
    then have "nul_free (fst p)" using representsD(4) [OF assms(2), of "fst p" "snd p"] by (simp add: sql_entry_def)
    ultimately show ?thesis using rows Some by (simp add: storedDn_def cStr_id)
  qed
qed

lemma loadAttributes_entry:
  assumes "view d = (t, None)" "represents t m" "(k, e) \<in> set m"
  shows "loadAttributes Q d k = e"
proof -
  have e: "k = de_dn e" "sql_entry e" using representsD(4) [OF assms(2,3)] by simp_all
  then have "nul_free k" by (simp add: sql_entry_def)
  then obtain rs where rs: "mset rs = mset (filter (\<lambda>r. fst r = k) (tb_attributes t))" "sorted (map rowOrd rs)"
    and rows: "sq_rows Q d selectAttributes [SqlText k] = map (\<lambda>(k, n, v, i). [SqlText n, SqlText v]) rs"
    using attributes_law [OF assms(1)] by blast
  have "rs = entryRows e"
    using rs rows_of_entry [OF assms(2,3)] pairRows_sorted by (intro sorted_ord_unique) simp_all
  then show ?thesis using push_rows [OF e(2)]
    by (simp add: loadAttributes_def rows fold_map comp_def case_prod_beta') (simp add: e(1))
qed

lemma lookup_eq:
  assumes "view d = (t, None)" "represents t m" "nul_free dn" "sl_db s = Some d"
  shows "sqlite_lookup Q s dn = mem_lookup m dn"
proof (cases "find (\<lambda>p. dnEquals (fst p) dn) m")
  case (Some p)
  then have "(fst p, snd p) \<in> set m" by (auto simp: find_Some_iff)
  with Some assms show ?thesis
    by (simp add: sqlite_lookup_def mem_lookup_def storedDn_find [OF assms(1-3)] loadAttributes_entry)
qed (use assms in \<open>simp add: sqlite_lookup_def mem_lookup_def storedDn_find [OF assms(1-3)]\<close>)

end

lemma smap_ext:
  assumes "smap_ok a" "smap_ok b" "map_of a = map_of b"
  shows "a = b"
proof -
  have s: "set a = set b"
    using assms distinct_smap_keys map_of_inject_set by blast
  have "inj_on fst (set b)" using distinct_smap_keys [OF assms(2)] by (simp add: distinct_map)
  then show ?thesis using assms(1,2) s distinct_smap_keys
    by (intro map_sorted_distinct_set_unique [of fst]) (simp_all add: smap_ok_def strict_sorted_imp_sorted)
qed

lemma fold_names:
  "smap_ok b \<Longrightarrow> smap_ok (fold (\<lambda>k. smap_put k (f k)) ks b)"
  "map_of (fold (\<lambda>k. smap_put k (f k)) ks b) k = (if k \<in> set ks then Some (f k) else map_of b k)"
  by (induction ks arbitrary: b) (auto simp: smap_simps)

definition attributeFold :: "attributeRow list \<Rightarrow> DirectoryEntry \<Rightarrow> DirectoryEntry" where
  "attributeFold rs e = e\<lparr>de_attributes := fold (\<lambda>(k, n, v, i). smap_push (cStr n) (cStr v)) rs (de_attributes e)\<rparr>"

lemma fold_addRow:
  assumes "smap_ok b" "\<forall>r \<in> set rs. nul_free (fst r)"
  shows "smap_ok (fold addRow (map (\<lambda>(k, n, v, i). [SqlText k, SqlText n, SqlText v]) rs) b) \<and>
    map_of (fold addRow (map (\<lambda>(k, n, v, i). [SqlText k, SqlText n, SqlText v]) rs) b) k =
      map_option (attributeFold (filter (\<lambda>r. fst r = k) rs)) (map_of b k)"
  using assms
proof (induction rs arbitrary: b)
  case Nil
  then show ?case by (simp add: attributeFold_def option.map_ident)
next
  case (Cons r rs)
  obtain k' n v i where r: "r = (k', n, v, i)" by (cases r)
  let ?row = "[SqlText k', SqlText n, SqlText v]"
  have k: "columnText ?row 0 = k'" using Cons.prems(2) by (simp add: r cStr_id)
  have "smap_ok (addRow ?row b)" using Cons.prems(1) by (auto simp: addRow_def Let_def split: option.splits)
  moreover have "map_of (addRow ?row b) k = map_option (attributeFold (filter (\<lambda>r. fst r = k) [r])) (map_of b k)" for k
    unfolding addRow_def k Let_def by (auto simp: attributeFold_def r smap_simps option.map_ident split: option.splits)
  ultimately show ?case using Cons.IH [of "addRow ?row b"] Cons.prems(2)
    by (auto simp: r attributeFold_def option.map_comp comp_def)
qed

lemma rows_by_dn:
  assumes "sorted_wrt (\<lambda>r r'. fst r < fst r' \<or> fst r = fst r' \<and> rowOrd r \<le> rowOrd r') (rs :: attributeRow list)"
  shows "sorted (map rowOrd (filter (\<lambda>r. fst r = k) rs))"
proof -
  have "sorted_wrt (\<lambda>r r'. fst r < fst r' \<or> fst r = fst r' \<and> rowOrd r \<le> rowOrd r') (filter (\<lambda>r. fst r = k) rs)"
    using assms by (rule sorted_wrt_filter)
  then have "sorted_wrt (\<lambda>r r'. rowOrd r \<le> rowOrd r') (filter (\<lambda>r. fst r = k) rs)"
    by (rule sorted_wrt_mono_rel [rotated]) auto
  then show ?thesis by (simp add: sorted_map)
qed

lemma names_nul_free: "represents t m \<Longrightarrow> (k, e) \<in> set m \<Longrightarrow> nul_free k \<and> nul_free (de_dn e)"
  using representsD(4) [of t m k e] by (simp add: sql_entry_def)

context sql_database
begin

lemma allEntries_eq:
  assumes "view d = (t, None)" "represents t m"
  shows "allEntries Q d = map snd m"
proof -
  obtain ks where ks: "mset ks = mset (tb_entries t)" and names: "sq_rows Q d selectEntries [] = map (\<lambda>k. [SqlText k]) ks"
    using entries_law [OF assms(1)] by blast
  obtain rs where rs: "mset rs = mset (tb_attributes t)"
    and srt: "sorted_wrt (\<lambda>r r'. fst r < fst r' \<or> fst r = fst r' \<and> rowOrd r \<le> rowOrd r') rs"
    and rows: "sq_rows Q d selectAllAttributes [] = map (\<lambda>(k, n, v, i). [SqlText k, SqlText n, SqlText v]) rs"
    using all_attributes_law [OF assms(1)] by blast
  have keys: "set ks = fst ` set m" using mset_eq_setD [OF ks] representsD(7) [OF assms(2)] by simp
  have nul: "nul_free k" if "k \<in> set ks" for k using that names_nul_free [OF assms(2)] by (auto simp: keys)
  have "mset rs = mset (tableRows m)" unfolding rs by (rule representsD(6) [OF assms(2)])
  then have "set rs = set (tableRows m)" by (rule mset_eq_setD)
  then have nul': "\<forall>r \<in> set rs. nul_free (fst r)"
    using names_nul_free [OF assms(2)] by (fastforce dest!: pairRows_dn)
  let ?empty = "\<lambda>k. \<lparr>de_dn = k, de_attributes = []\<rparr>" and ?f = "\<lambda>k. smap_put k \<lparr>de_dn = k, de_attributes = []\<rparr>"
  have b: "fold (\<lambda>row. smap_put (columnText row 0) \<lparr>de_dn = columnText row 0, de_attributes = []\<rparr>)
      (map (\<lambda>k. [SqlText k]) ks) [] = fold ?f ks []"
    unfolding fold_map comp_def using nul by (intro fold_cong) (simp_all add: cStr_id)
  let ?all = "fold addRow (map (\<lambda>(k, n, v, i). [SqlText k, SqlText n, SqlText v]) rs) (fold ?f ks [])"
  note folded = fold_addRow [OF fold_names(1) [OF smap_ok_Nil] nul', of ?empty ks]
  have "map_of ?all k = map_of m k" for k
  proof (cases "k \<in> set ks")
    case True
    then obtain e where e: "(k, e) \<in> set m" using keys by auto
    have "mset (filter (\<lambda>r. fst r = k) rs) = mset (entryRows e)"
      using rows_of_entry [OF assms(2) e] rs by (simp add: mset_filter)
    then have "filter (\<lambda>r. fst r = k) rs = entryRows e"
      using rows_by_dn [OF srt] pairRows_sorted by (rule sorted_ord_unique)
    moreover have "attributeFold (entryRows e) (?empty k) = e"
      using push_rows [of e] representsD(4) [OF assms(2) e] by (simp add: attributeFold_def)
    moreover have "map_of m k = Some e"
      using e distinct_smap_keys [OF representsD(3) [OF assms(2)]] by (simp add: map_of_is_SomeI)
    ultimately show ?thesis using folded True by (simp add: fold_names(2))
  next
    case False
    then have "map_of m k = None" by (simp add: map_of_eq_None_iff keys)
    with folded False show ?thesis by (simp add: fold_names(2))
  qed
  then have "?all = m" using folded representsD(3) [OF assms(2)] by (intro smap_ext) auto
  then show ?thesis by (simp add: allEntries_def names rows b Let_def)
qed

lemma search_eq:
  assumes "view d = (t, None)" "represents t m" "sl_db s = Some d"
  shows "sqlite_search Q s base scope f = mem_search m base scope f"
proof -
  have "filter (\<lambda>p. inScope scope (de_dn (snd p)) base \<and> matches f (snd p)) m =
      filter (\<lambda>p. inScope scope (fst p) base \<and> matches f (snd p)) m"
    using representsD(4) [OF assms(2)] by (intro filter_cong) auto
  then show ?thesis by (simp add: sqlite_search_def assms(3) allEntries_eq [OF assms(1,2)] mem_search_def filter_map comp_def)
qed

lemma hasChildren_eq:
  assumes "view d = (t, None)" "represents t m" "sl_db s = Some d"
  shows "sqlite_hasChildren Q s dn = mem_hasChildren m dn"
  using representsD(4) [OF assms(2)]
  by (force simp: sqlite_hasChildren_def assms(3) allEntries_eq [OF assms(1,2)] mem_hasChildren_def)

end

section \<open>Updating\<close>

lemma mset_tableRows: "mset (tableRows m) = (\<Sum>p \<in># mset m. mset (entryRows (snd p)))"
  by (induction m) simp_all

lemma mset_smap_put: "smap_ok m \<Longrightarrow> mset (smap_put k v m) = add_mset (k, v) (mset (filter (\<lambda>p. fst p \<noteq> k) m))"
proof (induction m)
  case (Cons p m)
  have p: "\<forall>q \<in> set m. fst p < fst q" "smap_ok m" using Cons.prems by (cases p, simp add: smap_ok_Cons)+
  show ?case
  proof (cases "k \<le> fst p")
    case True
    with p(1) have "filter (\<lambda>q. fst q \<noteq> k) m = m" by (fastforce simp: filter_id_conv)
    with True show ?thesis by (cases p) (auto simp: add_mset_commute simp del: mset_filter)
  next
    case False
    with Cons.IH [OF p(2)] show ?thesis by (cases p) (auto simp: add_mset_commute simp del: mset_filter)
  qed
qed simp

lemma represents_put:
  assumes rep: "represents t m" and inv: "mem_inv (smap_put (de_dn e) e m)" and e: "sql_entry e"
    and entries: "mset (tb_entries t') = add_mset (de_dn e) (mset (filter (\<lambda>k. k \<noteq> de_dn e) (tb_entries t)))"
    and attrs: "mset (tb_attributes t') = mset (filter (\<lambda>r. fst r \<noteq> de_dn e) (tb_attributes t)) + mset (entryRows e)"
  shows "represents t' (smap_put (de_dn e) e m)"
proof -
  note ok = representsD(3) [OF rep]
  let ?m = "filter (\<lambda>p. fst p \<noteq> de_dn e) m"
  have dn: "\<forall>(k, e) \<in> set m. k = de_dn e" using representsD(4) [OF rep] by auto
  have "mset (map fst (smap_put (de_dn e) e m)) = add_mset (de_dn e) (image_mset fst (mset ?m))"
    unfolding mset_map mset_smap_put [OF ok] by simp
  also have "image_mset fst (mset ?m) = mset (filter (\<lambda>k. k \<noteq> de_dn e) (map fst m))"
    by (simp add: filter_map comp_def del: mset_filter)
  also have "\<dots> = mset (filter (\<lambda>k. k \<noteq> de_dn e) (tb_entries t))"
    unfolding mset_filter representsD(5) [OF rep] ..
  finally have k: "mset (tb_entries t') = mset (map fst (smap_put (de_dn e) e m))" unfolding entries ..
  have "mset (tableRows (smap_put (de_dn e) e m)) = mset (entryRows e) + mset (tableRows ?m)"
    unfolding mset_tableRows mset_smap_put [OF ok] by simp
  also have "mset (tableRows ?m) = mset (filter (\<lambda>r. fst r \<noteq> de_dn e) (tb_attributes t))"
    unfolding tableRows_filter [OF dn, of "\<lambda>n. n \<noteq> de_dn e", symmetric] mset_filter representsD(6) [OF rep] ..
  finally have "mset (tb_attributes t') = mset (tableRows (smap_put (de_dn e) e m))" unfolding attrs by (rule trans [OF add.commute sym])
  moreover have "\<forall>(k, e) \<in> set (smap_put (de_dn e) e m). k = de_dn e \<and> sql_entry e"
    using representsD(4) [OF rep] e by (auto simp: set_smap_put [OF ok])
  ultimately show ?thesis using inv k by (simp add: represents_def)
qed

lemma represents_del:
  assumes rep: "represents t m"
  shows "represents (t\<lparr>tb_entries := filter (\<lambda>n. n \<noteq> k) (tb_entries t),
    tb_attributes := filter (\<lambda>r. fst r \<noteq> k) (tb_attributes t)\<rparr>) (smap_del k m)"
proof -
  note ok = representsD(3) [OF rep]
  have dn: "\<forall>(k, e) \<in> set m. k = de_dn e" using representsD(4) [OF rep] by auto
  have "mset (filter (\<lambda>n. n \<noteq> k) (tb_entries t)) = mset (filter (\<lambda>n. n \<noteq> k) (map fst m))"
    unfolding mset_filter representsD(5) [OF rep] ..
  moreover have "filter (\<lambda>n. n \<noteq> k) (map fst m) = map fst (smap_del k m)"
    by (simp add: smap_del_filter [OF ok] filter_map comp_def)
  moreover have "mset (filter (\<lambda>r. fst r \<noteq> k) (tb_attributes t)) = mset (tableRows (smap_del k m))"
    unfolding smap_del_filter [OF ok] tableRows_filter [OF dn, of "\<lambda>n. n \<noteq> k", symmetric] mset_filter representsD(6) [OF rep] ..
  moreover have "\<forall>(k, e) \<in> set (smap_del k m). k = de_dn e \<and> sql_entry e"
    using representsD(4) [OF rep] by (auto simp: smap_del_filter [OF ok])
  ultimately show ?thesis using mem_inv_del [OF representsD(1) [OF rep], of k] unfolding represents_def by simp
qed

lemma mset_without: "distinct xs \<Longrightarrow> k \<in> set xs \<Longrightarrow> mset xs = add_mset k (mset (filter (\<lambda>n. n \<noteq> k) xs))"
proof (induction xs)
  case (Cons x xs)
  show ?case
  proof (cases "x = k")
    case True
    then have "filter (\<lambda>n. n \<noteq> k) xs = xs" using Cons.prems(1) by (auto simp: filter_id_conv)
    with True show ?thesis by (simp del: mset_filter)
  next
    case False
    with Cons show ?thesis by (simp add: add_mset_commute del: mset_filter)
  qed
qed simp

lemma entries_without:
  assumes "represents t m" "(k, e) \<in> set m"
  shows "mset (tb_entries t) = add_mset k (mset (filter (\<lambda>n. n \<noteq> k) (tb_entries t)))"
proof -
  have d: "distinct (tb_entries t)"
    using distinct_smap_keys [OF representsD(3) [OF assms(1)]] representsD(5) [OF assms(1)] mset_eq_imp_distinct_iff by blast
  have "k \<in> set (tb_entries t)" using assms representsD(7) by force
  with d show ?thesis by (rule mset_without)
qed

lemma pairRows_rename: "map (\<lambda>r. (new, snd r)) (pairRows dn ps i) = pairRows new ps i"
  by (induction ps arbitrary: i) auto

lemma represents_add:
  assumes rep: "represents t m" and e: "sql_entry e" and add: "mem_add m e = (True, m')"
  shows "represents (written e (t\<lparr>tb_entries := tb_entries t @ [de_dn e]\<rparr>)) m' \<and> de_dn e \<notin> set (tb_entries t)"
proof -
  have m': "m' = smap_put (de_dn e) e m" and new: "\<forall>p \<in> set m. \<not> dnEquals (fst p) (de_dn e)"
    using add by (auto simp: mem_add_def split: if_splits)
  have "mem_inv m'" using mem_add_directory [OF representsD(1) [OF rep] add] by simp
  moreover have fresh: "de_dn e \<notin> set (tb_entries t)" using new representsD(7) [OF rep] by auto
  then have "filter (\<lambda>k. k \<noteq> de_dn e) (tb_entries t) = tb_entries t" by (auto simp: filter_id_conv)
  ultimately show ?thesis using fresh unfolding m'
    by (auto intro!: represents_put [OF rep _ e] simp: written_def simp del: mset_filter)
qed

lemma represents_modify:
  assumes rep: "represents t m" and e: "sql_entry e" and mod: "mem_modify m e = (True, m')" and k: "(de_dn e, e0) \<in> set m"
  shows "represents (written e t) m'"
proof -
  obtain k' e1 where f: "find (\<lambda>pair. dnEquals (fst pair) (de_dn e)) m = Some (k', e1)" and m': "m' = smap_put k' e m"
    using mod by (auto simp: mem_modify_def split: option.splits)
  note found = mem_found [OF representsD(1) [OF rep] f]
  have "k' = de_dn e" using found(2,3) k by (auto simp: ci_key_def iequals_def)
  moreover have "mem_inv m'" using mem_modify_directory [OF representsD(1) [OF rep] mod] by simp
  ultimately show ?thesis using entries_without [OF rep k] unfolding m'
    by (auto intro!: represents_put [OF rep _ e] simp: written_def simp del: mset_filter)
qed

lemma row_names:
  assumes "represents t m" "r \<in> set (tb_attributes t)"
  shows "fst r \<in> set (tb_entries t)"
proof -
  have "r \<in> set (tableRows m)" using mset_eq_setD [OF representsD(6) [OF assms(1)]] assms(2) by simp
  then obtain k e where e: "(k, e) \<in> set m" "r \<in> set (entryRows e)" by auto
  then have "fst r = k" using pairRows_dn representsD(4) [OF assms(1) e(1)] by metis
  with e(1) representsD(7) [OF assms(1)] show ?thesis by force
qed

lemma represents_rename:
  assumes rep: "represents t m" and k: "(k, e) \<in> set m" and new: "new \<notin> set (tb_entries t)" "nul_free new"
    and inv: "mem_inv (smap_put new (e\<lparr>de_dn := new\<rparr>) (smap_del k m))"
  shows "represents (t\<lparr>tb_entries := map (\<lambda>n. if n = k then new else n) (tb_entries t),
    tb_attributes := map (\<lambda>r. if fst r = k then (new, snd r) else r) (tb_attributes t)\<rparr>) (smap_put new (e\<lparr>de_dn := new\<rparr>) (smap_del k m))"
proof -
  let ?e = "e\<lparr>de_dn := new\<rparr>"
  let ?t = "t\<lparr>tb_entries := filter (\<lambda>n. n \<noteq> k) (tb_entries t), tb_attributes := filter (\<lambda>r. fst r \<noteq> k) (tb_attributes t)\<rparr>"
  let ?names = "filter (\<lambda>n. n \<noteq> k) (tb_entries t)" and ?rows = "filter (\<lambda>r. fst r \<noteq> k) (tb_attributes t)"
  have names: "filter (\<lambda>n. n \<noteq> new) ?names = ?names" using new(1) by (intro filter_True) auto
  have "\<forall>r \<in> set (tb_attributes t). fst r \<noteq> new" using row_names [OF rep] new(1) by metis
  then have rows: "filter (\<lambda>r. fst r \<noteq> new) ?rows = ?rows" by (intro filter_True) auto
  have split: "mset (map f xs) = mset (filter (\<lambda>x. \<not> P x) xs) + image_mset g (mset (filter P xs))"
    if "\<And>x. f x = (if P x then g x else x)" for f g :: "'x \<Rightarrow> 'x" and P xs
    by (induction xs) (simp_all add: that)
  have ne: "mset (map (\<lambda>n. if n = k then new else n) (tb_entries t)) = add_mset new (mset ?names)"
    using split [of _ "\<lambda>n. n = k" "\<lambda>n. new" "tb_entries t"] arg_cong [OF entries_without [OF rep k], of "filter_mset (\<lambda>n. n = k)"]
    by (simp add: filter_filter_mset)
  have "image_mset (\<lambda>r. (new, snd r)) (mset (filter (\<lambda>r. fst r = k) (tb_attributes t))) = mset (map (\<lambda>r. (new, snd r)) (entryRows e))"
    unfolding mset_map rows_of_entry [OF rep k] ..
  also have "\<dots> = mset (entryRows ?e)" unfolding pairRows_rename by (simp add: attributePairs_def)
  finally have na: "mset (map (\<lambda>r. if fst r = k then (new, snd r) else r) (tb_attributes t)) = mset ?rows + mset (entryRows ?e)"
    using split [of "\<lambda>r. if fst r = k then (new, snd r) else r" "\<lambda>r. fst r = k" "\<lambda>r. (new, snd r)" "tb_attributes t"]
    by (simp del: mset_filter)
  have e: "sql_entry ?e" using representsD(4) [OF rep k] new(2) by (simp add: sql_entry_def)
  show ?thesis
    using represents_put [OF represents_del [OF rep, of k], of ?e] inv e ne na names rows by (simp del: mset_filter)
qed

section \<open>Every update, and every failure\<close>

fun be_update :: "'s Backend \<Rightarrow> update \<Rightarrow> 's \<Rightarrow> bool \<times> 's" where
  "be_update B (UAdd e) s = be_add B s e"
| "be_update B (UModify e) s = be_modify B s e"
| "be_update B (URemove dn) s = be_remove B s dn"
| "be_update B (URename old new) s = be_rename B s old new"

fun db_update :: "'d Sqlite \<Rightarrow> update \<Rightarrow> 'd \<Rightarrow> bool \<times> 'd" where
  "db_update Q (UAdd e) d = add_db Q d e"
| "db_update Q (UModify e) d = modify_db Q d e"
| "db_update Q (URemove dn) d = remove_db Q d dn"
| "db_update Q (URename old new) d = rename_db Q d old new"

lemma be_update_sqlite: "be_update (sqliteBackend Q) u s = sqlite_update (db_update Q u) s"
  by (cases u; cases "sl_db s") (simp_all add: sqliteBackend_def sqlite_update_def)

fun sql_storable :: "update \<Rightarrow> bool" where
  "sql_storable (UAdd e) \<longleftrightarrow> sql_entry e"
| "sql_storable (UModify e) \<longleftrightarrow> sql_entry e"
| "sql_storable (URemove dn) \<longleftrightarrow> nul_free dn"
| "sql_storable (URename old new) \<longleftrightarrow> nul_free old \<and> nul_free new"

text \<open>The in-memory backend stores a modified entry with the spelling of the request, this one with the stored spelling.\<close>

fun respelled :: "update \<Rightarrow> MemoryState \<Rightarrow> bool \<times> MemoryState" where
  "respelled (UModify e) m =
     (case find (\<lambda>p. dnEquals (fst p) (de_dn e)) m of
        None \<Rightarrow> (False, m)
      | Some p \<Rightarrow> mem_modify m (e\<lparr>de_dn := fst p\<rparr>))"
| "respelled u m = mem_update u m"

text \<open>What a refinement step promises: a success is a success in memory and the tables follow, a failure leaves the
  tables alone, and on a reliable database there is no failure that the memory does not have.\<close>

definition refines_step :: "'d Sqlite \<Rightarrow> ('d \<Rightarrow> Tables \<times> Tables option) \<Rightarrow> Tables \<Rightarrow> bool \<times> MemoryState \<Rightarrow> bool \<times> 'd \<Rightarrow> bool" where
  "refines_step Q view t spec r \<longleftrightarrow>
     (if fst r then fst spec \<and> (\<exists>t'. view (snd r) = (t', None) \<and> represents t' (snd spec)) else view (snd r) = (t, None)) \<and>
     (reliable Q view \<and> fst spec \<longrightarrow> fst r)"

context sql_database
begin

lemma reliable_run: "reliable Q view \<Longrightarrow> view d = (t, v) \<Longrightarrow> sql_effect sql ps t = Some t' \<Longrightarrow> fst (sq_run Q d sql ps)"
  unfolding reliable_def by (metis fst_conv option.distinct(1))

lemma reliable_insertValues:
  assumes "reliable Q view" "view d = (t, Some u)" "dn \<in> set (tb_entries t)"
  shows "fst (insertValues Q dn ps i d)"
  using assms(2,3)
proof (induction ps arbitrary: d t i)
  case (Cons p ps)
  obtain n v where p: "p = (n, v)" by fastforce
  let ?ps = "[SqlText dn, SqlText n, SqlText v, SqlInteger (int i)]"
  obtain ok d1 where r: "sq_run Q d insertAttribute ?ps = (ok, d1)" by fastforce
  have ok: ok using reliable_run [OF assms(1) Cons.prems(1), of insertAttribute ?ps] Cons.prems(2) by (simp add: r sql_effect_simps)
  from run_law [OF Cons.prems(1), of insertAttribute ?ps] ok Cons.prems(2)
  have "view d1 = (t\<lparr>tb_attributes := tb_attributes t @ [(dn, n, v, int i)]\<rparr>, Some u)"
    by (simp add: r sql_effect_simps tx_result_iff)
  from Cons.IH [OF this] Cons.prems(2) ok show ?case by (simp add: p r)
qed simp

lemma reliable_writeAttributes:
  assumes "reliable Q view" "view d = (t, Some u)" "de_dn e \<in> set (tb_entries t)"
  shows "fst (writeAttributes Q d e)"
proof -
  obtain ok d1 where r: "sq_run Q d deleteAttributes [SqlText (de_dn e)] = (ok, d1)" by fastforce
  have ok: ok using reliable_run [OF assms(1,2), of deleteAttributes "[SqlText (de_dn e)]"] by (simp add: r sql_effect_simps)
  from run_law [OF assms(2), of deleteAttributes "[SqlText (de_dn e)]"] ok
  have "view d1 = (t\<lparr>tb_attributes := filter (\<lambda>r. fst r \<noteq> de_dn e) (tb_attributes t)\<rparr>, Some u)"
    by (simp add: r sql_effect_simps tx_result_iff)
  from reliable_insertValues [OF assms(1) this] assms(1,3) ok show ?thesis
    by (simp add: writeAttributes_def r reliable_def)
qed

lemma reliable_addStatements:
  assumes "reliable Q view" "view d = (t, Some u)" "de_dn e \<notin> set (tb_entries t)"
  shows "fst (addStatements Q d e)"
proof -
  obtain ok d1 where r: "sq_run Q d insertEntry [SqlText (de_dn e)] = (ok, d1)" by fastforce
  have ok: ok using reliable_run [OF assms(1,2), of insertEntry "[SqlText (de_dn e)]"] assms(3) by (simp add: r sql_effect_simps)
  from run_law [OF assms(2), of insertEntry "[SqlText (de_dn e)]"] ok assms(3)
  have "view d1 = (t\<lparr>tb_entries := tb_entries t @ [de_dn e]\<rparr>, Some u)"
    by (simp add: r sql_effect_simps tx_result_iff)
  from reliable_writeAttributes [OF assms(1) this] ok show ?thesis by (simp add: addStatements_def r)
qed

lemma transaction_refines:
  assumes "view d = (t, None)"
    and "\<And>d1. view d1 = (t, Some t) \<Longrightarrow> tx_result view t (Some t') (stmts d1)"
    and "\<And>d1. reliable Q view \<Longrightarrow> view d1 = (t, Some t) \<Longrightarrow> fst (stmts d1)"
    and "\<And>d1. view d1 = (t, None) \<Longrightarrow> view (failed d1) = (t, None)"
    and "represents t' m'"
  shows "refines_step Q view t (True, m')
    (case beginTransaction Q d of (ok, d) \<Rightarrow> if \<not> ok then (False, failed d) else finishUpdate Q (stmts d))"
    (is "refines_step _ _ _ _ ?r")
proof -
  have "if fst ?r then \<exists>t''. Some t' = Some t'' \<and> view (snd ?r) = (t'', None) else view (snd ?r) = (t, None)"
    by (rule transaction_view [of d t "Some t'" stmts failed "fst ?r" "snd ?r", OF assms(1,2,4)]) simp_all
  moreover have "fst ?r" if rel: "reliable Q view"
  proof -
    obtain ok1 d1 where b: "sq_exec Q d ''BEGIN IMMEDIATE'' = (ok1, d1)" by fastforce
    have ok1: ok1 using rel b unfolding reliable_def by (metis fst_conv)
    then have "view d1 = (t, Some t)" using begin_law [OF assms(1) b] by simp
    from assms(3) [OF rel this] obtain d2 where s: "stmts d1 = (True, d2)" by (metis prod.collapse)
    have "fst (sq_exec Q d2 ''COMMIT'')" using rel by (simp add: reliable_def)
    then show ?thesis using ok1 by (simp add: beginTransaction_def b s finishUpdate_def commit_def case_prod_beta)
  qed
  ultimately show ?thesis using assms(5) by (auto simp: refines_step_def split: if_splits)
qed

end

lemma refines_unchanged: "\<not> fst spec \<Longrightarrow> view d = (t, None) \<Longrightarrow> refines_step Q view t spec (False, d)"
  by (simp add: refines_step_def)

lemma find_entry:
  assumes "represents t m" "find (\<lambda>p. dnEquals (fst p) dn) m = Some p"
  shows "(fst p, snd p) \<in> set m" "fst p = de_dn (snd p)" "nul_free (fst p)" "fst p \<in> set (tb_entries t)"
    "toLowerAscii (fst p) = toLowerAscii dn"
proof -
  show "(fst p, snd p) \<in> set m" and "toLowerAscii (fst p) = toLowerAscii dn"
    using assms(2) by (auto simp: find_Some_iff dnEquals_iff)
  then show "fst p = de_dn (snd p)" "nul_free (fst p)" "fst p \<in> set (tb_entries t)"
    using representsD(4) [OF assms(1)] names_nul_free [OF assms(1)] representsD(7) [OF assms(1)] by (blast, blast, force)
qed

context sql_database
begin

lemma add_refines:
  assumes v: "view d = (t, None)" and rep: "represents t m" and e: "sql_entry e"
  shows "refines_step Q view t (mem_add m e) (add_db Q d e)"
proof (cases "fst (mem_add m e)")
  case True
  then obtain m' where add: "mem_add m e = (True, m')" by (cases "mem_add m e") auto
  note new = represents_add [OF rep e add]
  have "storedDn Q d (de_dn e) = None" "de_dn e \<noteq> []"
    using add e by (auto simp: storedDn_find [OF v rep] sql_entry_def mem_add_def find_None_iff split: if_splits)
  then have "add_db Q d e = (case beginTransaction Q d of (ok, d) \<Rightarrow> if \<not> ok then (False, d) else finishUpdate Q (addStatements Q d e))"
    by (simp add: add_db_def)
  then show ?thesis unfolding add using new
    by (auto intro!: transaction_refines [where stmts = "\<lambda>d. addStatements Q d e" and failed = "\<lambda>d. d"] v tx_addStatements reliable_addStatements)
next
  case False
  then have "de_dn e = [] \<or> storedDn Q d (de_dn e) \<noteq> None"
    using e by (auto simp: storedDn_find [OF v rep] sql_entry_def mem_add_def find_None_iff split: if_splits)
  then have "add_db Q d e = (False, d)" by (auto simp: add_db_def)
  with False v show ?thesis by (simp add: refines_unchanged)
qed

lemma modify_refines:
  assumes v: "view d = (t, None)" and rep: "represents t m" and e: "sql_entry e"
  shows "refines_step Q view t (respelled (UModify e) m) (modify_db Q d e)"
proof (cases "find (\<lambda>p. dnEquals (fst p) (de_dn e)) m")
  case None
  with e v show ?thesis by (simp add: modify_db_def storedDn_find [OF v rep] sql_entry_def refines_unchanged)
next
  case (Some p)
  note found = find_entry [OF rep Some]
  let ?e = "e\<lparr>de_dn := fst p\<rparr>"
  have e': "sql_entry ?e" "(de_dn ?e, snd p) \<in> set m" "de_dn ?e \<in> set (tb_entries t)"
    using e found by (simp_all add: sql_entry_def)
  have "find (\<lambda>p. dnEquals (fst p) (de_dn ?e)) m = Some p"
    using Some found(5) by (simp add: dnEquals_iff)
  then obtain m' where mod: "mem_modify m ?e = (True, m')" by (cases p) (simp add: mem_modify_def)
  have "modify_db Q d e = (case beginTransaction Q d of (ok, d) \<Rightarrow> if \<not> ok then (False, rollback Q d) else finishUpdate Q (writeAttributes Q d ?e))"
    using e Some by (simp add: modify_db_def storedDn_find [OF v rep] sql_entry_def)
  moreover have "refines_step Q view t (True, m') (case beginTransaction Q d of (ok, d) \<Rightarrow>
      if \<not> ok then (False, rollback Q d) else finishUpdate Q (writeAttributes Q d ?e))"
    by (rule transaction_refines [where stmts = "\<lambda>d. writeAttributes Q d ?e", OF v _ _ _ represents_modify [OF rep e'(1) mod e'(2)]])
      (use e'(3) in \<open>auto intro: tx_writeAttributes reliable_writeAttributes rollback_view\<close>)
  ultimately show ?thesis using Some mod by simp
qed

lemma remove_refines:
  assumes v: "view d = (t, None)" and rep: "represents t m" and dn: "nul_free dn"
  shows "refines_step Q view t (mem_remove m dn) (remove_db Q d dn)"
proof (cases "find (\<lambda>p. dnEquals (fst p) dn) m")
  case None
  with v show ?thesis by (simp add: remove_db_def storedDn_find [OF v rep dn] refines_unchanged mem_remove_def)
next
  case (Some p)
  obtain k e where p: "p = (k, e)" by fastforce
  have "refines_step Q view t (True, smap_del k m) (case beginTransaction Q d of (ok, d) \<Rightarrow>
      if \<not> ok then (False, d) else finishUpdate Q (sq_run Q d deleteEntry [SqlText k]))"
    by (rule transaction_refines [where stmts = "\<lambda>d. sq_run Q d deleteEntry [SqlText k]" and failed = "\<lambda>d. d",
        OF v _ _ _ represents_del [OF rep]])
      (auto simp: sql_effect_simps intro: reliable_run dest: run_law [of _ _ _ deleteEntry "[SqlText k]"])
  then show ?thesis using Some by (simp add: p remove_db_def storedDn_find [OF v rep dn] mem_remove_def)
qed

lemma rename_refines:
  assumes v: "view d = (t, None)" and rep: "represents t m" and nul: "nul_free old" "nul_free new"
  shows "refines_step Q view t (mem_rename m old new) (rename_db Q d old new)"
proof -
  note ok = representsD(2) [OF rep] and inv = representsD(1) [OF rep]
  note stored = storedDn_find [OF v rep nul(1)] storedDn_find [OF v rep nul(2)]
  have clash: "(\<exists>p \<in> set m. \<not> dnEquals (fst p) old \<and> dnEquals (fst p) new) \<longleftrightarrow>
      \<not> dnEquals old new \<and> find (\<lambda>p. dnEquals (fst p) new) m \<noteq> None"
    unfolding find_None_iff dnEquals_iff by metis
  consider "old = [] \<or> new = []" | "find (\<lambda>p. dnEquals (fst p) old) m = None"
    | p where "old \<noteq> []" "new \<noteq> []" "find (\<lambda>p. dnEquals (fst p) old) m = Some p" by blast
  then show ?thesis
  proof cases
    case 1
    then show ?thesis using v by (auto simp: mem_rename_def rename_db_def refines_unchanged)
  next
    case 2
    then show ?thesis using v
      by (auto simp: mem_rename_def rename_db_def stored renameScan_find [OF ok] refines_unchanged)
  next
    case 3
    obtain k e where p: "p = (k, e)" by fastforce
    note found = find_entry [OF rep 3(3)]
    consider "dnEquals old new" | "\<not> dnEquals old new" "find (\<lambda>p. dnEquals (fst p) new) m \<noteq> None"
      | "\<not> dnEquals old new" "find (\<lambda>p. dnEquals (fst p) new) m = None" by blast
    then show ?thesis
    proof cases
      case 1
      then have "mem_rename m old new = (True, m)" "rename_db Q d old new = (True, d)"
        using 3 clash by (auto simp: mem_rename_def rename_db_def stored renameScan_find [OF ok] p)
      then show ?thesis using v rep by (simp add: refines_step_def)
    next
      case 2
      then show ?thesis using 3 v clash
        by (auto simp: mem_rename_def rename_db_def stored renameScan_find [OF ok] refines_unchanged)
    next
      case free: 3
      let ?m = "smap_put new (e\<lparr>de_dn := new\<rparr>) (smap_del k m)"
      have ren: "mem_rename m old new = (True, ?m)"
        using 3 free clash by (auto simp: mem_rename_def renameScan_find [OF ok] p)
      have new: "new \<notin> set (tb_entries t)" using free(2) representsD(7) [OF rep] by (auto simp: find_None_iff)
      have "refines_step Q view t (True, ?m) (case beginTransaction Q d of (ok, d) \<Rightarrow>
          if \<not> ok then (False, d) else finishUpdate Q (sq_run Q d updateEntry [SqlText new, SqlText k]))"
        using mem_rename_directory [OF inv ren] found(1) new
        by (intro transaction_refines [where stmts = "\<lambda>d. sq_run Q d updateEntry [SqlText new, SqlText k]" and failed = "\<lambda>d. d",
            OF v _ _ _ represents_rename [OF rep _ new nul(2)]])
          (auto simp: p sql_effect_simps intro: reliable_run dest: run_law [of _ _ _ updateEntry "[SqlText new, SqlText k]"])
      then show ?thesis unfolding ren using 3 free by (simp add: rename_db_def stored p)
    qed
  qed
qed

lemma db_update_refines:
  assumes "view d = (t, None)" "represents t m" "sql_storable u"
  shows "refines_step Q view t (respelled u m) (db_update Q u d)"
  using assms(3) add_refines [OF assms(1,2)] modify_refines [OF assms(1,2)] remove_refines [OF assms(1,2)] rename_refines [OF assms(1,2)]
  by (cases u) simp_all

end

section \<open>Sequences of updates\<close>

text \<open>The in-memory directory after those updates of a sequence that reported success.\<close>

fun applied :: "update list \<Rightarrow> bool list \<Rightarrow> MemoryState \<Rightarrow> MemoryState" where
  "applied (u # us) (ok # oks) m = applied us oks (if ok then snd (respelled u m) else m)"
| "applied us oks m = m"

context sql_database
begin

lemma run_refines_memory:
  assumes "sl_db s = Some d" "view d = (t, None)" "represents t m" "\<forall>u \<in> set us. sql_storable u"
    and "run (be_update (sqliteBackend Q)) us s = (oks, s')"
  shows "(\<exists>d' t'. sl_db s' = Some d' \<and> view d' = (t', None) \<and> represents t' (applied us oks m)) \<and>
    (reliable Q view \<longrightarrow> run respelled us m = (oks, applied us oks m))"
  using assms
proof (induction us arbitrary: s d t m oks)
  case (Cons u us)
  obtain ok d1 where u: "db_update Q u d = (ok, d1)" by fastforce
  then have step: "be_update (sqliteBackend Q) u s = (ok, s\<lparr>sl_db := Some d1\<rparr>)"
    using Cons.prems(1) by (simp add: be_update_sqlite sqlite_update_def)
  obtain oks1 where us: "run (be_update (sqliteBackend Q)) us (s\<lparr>sl_db := Some d1\<rparr>) = (oks1, s')" and oks: "oks = ok # oks1"
    using Cons.prems(5) step by (auto split: prod.splits)
  have ref: "refines_step Q view t (respelled u m) (ok, d1)"
    using db_update_refines [OF Cons.prems(2,3), of u] Cons.prems(4) u by simp
  obtain okm m1 where r: "respelled u m = (okm, m1)" by fastforce
  let ?m = "if ok then m1 else m"
  obtain t1 where t1: "view d1 = (t1, None)" "represents t1 ?m"
    using ref Cons.prems(3) by (cases ok) (auto simp: refines_step_def r)
  have same: "m1 = m" if "\<not> okm"
    using that r by (cases u) (auto simp: mem_add_def mem_modify_def mem_remove_def mem_rename_def split: option.splits if_splits)
  have "okm = ok \<and> m1 = ?m" if "reliable Q view"
    using ref that same by (auto simp: refines_step_def r split: if_splits)
  with Cons.IH [OF _ t1 _ us] Cons.prems(4) show ?case by (auto simp: oks r)
qed auto

end

section \<open>The seed file is read as a whole or not at all\<close>

context sql_database
begin

lemma tx_seedRecords:
  assumes "view d = (t, Some u)"
  shows "\<exists>T. tx_result view u T (seedRecords Q rs d)"
  using assms
proof (induction rs arbitrary: d t)
  case Nil
  then show ?case by (auto simp: tx_result_iff)
next
  case (Cons r rs)
  let ?e = "lr_entry r"
  obtain ok d1 where i: "sq_run Q d insertEntry [SqlText (de_dn ?e)] = (ok, d1)" by fastforce
  obtain ok2 d2 where w: "writeAttributes Q d1 ?e = (ok2, d2)" by fastforce
  note law = run_law [OF Cons.prems, of insertEntry "[SqlText (de_dn ?e)]", unfolded i sql_effect_simps]
  show ?case
  proof (cases "ok")
    case True
    with law have v: "view d1 = (t\<lparr>tb_entries := tb_entries t @ [de_dn ?e]\<rparr>, Some u)" by (auto simp: tx_result_iff split: if_splits)
    from tx_writeAttributes [OF v, of ?e] w have w': "tx_result view u (Some (written ?e (t\<lparr>tb_entries := tb_entries t @ [de_dn ?e]\<rparr>))) (ok2, d2)"
      by simp
    show ?thesis
    proof (cases ok2)
      case True
      with w' Cons.IH [of d2] Cons.IH [OF Cons.prems] \<open>ok\<close> show ?thesis by (auto simp: i w tx_result_iff)
    next
      case False
      with w' Cons.IH [OF Cons.prems] \<open>ok\<close> show ?thesis by (auto simp: i w tx_result_iff)
    qed
  next
    case False
    with law Cons.IH [OF Cons.prems] show ?thesis by (auto simp: i tx_result_iff)
  qed
qed

lemma failed_seed:
  assumes "view d = (t, None)" "seed Q rs d = (False, d')"
  shows "view d' = (t, None)"
proof -
  obtain ok d1 where b: "beginTransaction Q d = (ok, d1)" by fastforce
  note law = begin_law [OF assms(1) b [unfolded beginTransaction_def]]
  show ?thesis
  proof (cases ok)
    case True
    then obtain T where "tx_result view t T (seedRecords Q rs d1)" using law tx_seedRecords [of d1] by auto
    from finishUpdate_view [OF this, of False d'] assms(2) True b show ?thesis by (simp add: seed_def)
  qed (use law b assms in \<open>simp add: seed_def\<close>)
qed

end

end
