(* ===== verification/SqliteTables.thy ===== *)
theory SqliteTables
  imports Sqlite "HOL-Library.Product_Lexorder"
begin

text \<open>
  A database for \<^verbatim>\<open>src/simple-ldapd/backend/sqlite.cpp\<close>: two tables in memory with one level of transactions, on which every
  call takes its outcome from a script of faults.  It satisfies the contract \<open>sql_database\<close>, so the contract can be met, with and
  without failures, and the properties of the backend have inputs to run on.
\<close>

section \<open>The engine\<close>

datatype fault = Fine | Fails | RollsBack

record TableDb =
  td_tables :: Tables
  td_saved :: "Tables option"
  td_faults :: "fault list"

definition td_view :: "TableDb \<Rightarrow> Tables \<times> Tables option" where
  "td_view db = (td_tables db, td_saved db)"

definition nextFault :: "TableDb \<Rightarrow> fault" where
  "nextFault db = (case td_faults db of [] \<Rightarrow> Fine | f # _ \<Rightarrow> f)"

text \<open>The database after a call that failed.\<close>

definition faulted :: "TableDb \<Rightarrow> TableDb" where
  "faulted db =
     (let db' = db\<lparr>td_faults := tl (td_faults db)\<rparr> in
      case (nextFault db, td_saved db) of
        (RollsBack, Some u) \<Rightarrow> db'\<lparr>td_tables := u, td_saved := None\<rparr>
      | _ \<Rightarrow> db')"

definition td_exec :: "TableDb \<Rightarrow> string \<Rightarrow> bool \<times> TableDb" where
  "td_exec db sql =
     (if sql = ''ROLLBACK'' then
        (case td_saved db of None \<Rightarrow> (False, db) | Some u \<Rightarrow> (True, db\<lparr>td_tables := u, td_saved := None\<rparr>))
      else if nextFault db \<noteq> Fine then (False, faulted db)
      else let db = db\<lparr>td_faults := tl (td_faults db)\<rparr> in
        if sql = ''BEGIN IMMEDIATE'' then (True, db\<lparr>td_saved := Some (td_tables db)\<rparr>)
        else if sql = ''COMMIT'' then (True, db\<lparr>td_saved := None\<rparr>)
        else (True, db))"

definition td_run :: "TableDb \<Rightarrow> string \<Rightarrow> SqlValue list \<Rightarrow> bool \<times> TableDb" where
  "td_run db sql params =
     (if nextFault db \<noteq> Fine then (False, faulted db)
      else case sql_effect sql params (td_tables db) of
        None \<Rightarrow> (False, db\<lparr>td_faults := tl (td_faults db)\<rparr>)
      | Some t \<Rightarrow> (True, db\<lparr>td_tables := t, td_faults := tl (td_faults db)\<rparr>))"

definition td_rows :: "TableDb \<Rightarrow> string \<Rightarrow> SqlValue list \<Rightarrow> SqlValue list list" where
  "td_rows db sql params =
     (let t = td_tables db in
      case params of
        [SqlText dn] \<Rightarrow>
          if sql = selectStored then map (\<lambda>k. [SqlText k]) (filter (\<lambda>k. iequals k dn) (tb_entries t))
          else if sql = selectAttributes then
            map (\<lambda>(k, n, v, i). [SqlText n, SqlText v]) (sort_key rowOrd (filter (\<lambda>r. fst r = dn) (tb_attributes t)))
          else []
      | [] \<Rightarrow>
          if sql = selectEntries then map (\<lambda>k. [SqlText k]) (tb_entries t)
          else if sql = countEntries then [[SqlInteger (int (length (tb_entries t)))]]
          else if sql = selectAllAttributes then
            map (\<lambda>(k, n, v, i). [SqlText k, SqlText n, SqlText v]) (sort_key (\<lambda>r. (fst r, rowOrd r)) (tb_attributes t))
          else []
      | _ \<Rightarrow> [])"

definition emptyTables :: Tables where
  "emptyTables = \<lparr>tb_entries = [], tb_attributes = []\<rparr>"

definition tableEngine :: "TableDb Sqlite" where
  "tableEngine =
     \<lparr>sq_open = (\<lambda>path. Some \<lparr>td_tables = emptyTables, td_saved = None, td_faults = []\<rparr>), sq_exec = td_exec,
      sq_prepares = (\<lambda>db sql. True), sq_run = td_run, sq_rows = td_rows\<rparr>"

section \<open>It keeps the contract\<close>

lemma td_view_iff: "td_view db = (t, v) \<longleftrightarrow> td_tables db = t \<and> td_saved db = v"
  by (simp add: td_view_def)

lemma faulted_view:
  "td_saved db = None \<Longrightarrow> td_view (faulted db) = td_view db"
  "td_saved db = Some u \<Longrightarrow> td_view (faulted db) = (td_tables db, Some u) \<or> td_view (faulted db) = (u, None)"
  by (auto simp: faulted_def td_view_def Let_def split: fault.splits option.splits)

lemma sorted_pairs:
  "sorted_wrt (\<lambda>r r'. fst r < fst r' \<or> fst r = fst r' \<and> rowOrd r \<le> rowOrd r') (sort_key (\<lambda>r. (fst r, rowOrd r)) (rs :: attributeRow list))"
proof -
  have "sorted (map (\<lambda>r. (fst r, rowOrd r)) (sort_key (\<lambda>r. (fst r, rowOrd r)) rs))" by simp
  then show ?thesis unfolding sorted_map by (rule sorted_wrt_mono_rel [rotated]) (auto simp: less_eq_prod_def)
qed

interpretation tables: sql_database tableEngine td_view
proof
  fix db t u v ok db' assume "td_view db = (t, v)" "sq_exec tableEngine db ''ROLLBACK'' = (ok, db')"
  then show "td_view db' = (case v of None \<Rightarrow> t | Some u \<Rightarrow> u, None)"
    by (auto simp: tableEngine_def td_exec_def td_view_def split: option.splits)
next
  fix db t ok db' assume "td_view db = (t, None)" "sq_exec tableEngine db ''BEGIN IMMEDIATE'' = (ok, db')"
  then show "td_view db' = (t, if ok then Some t else None)"
    using faulted_view(1) [of db] by (auto simp: tableEngine_def td_exec_def td_view_def Let_def split: if_splits)
next
  fix db t u ok db' assume "td_view db = (t, Some u)" "sq_exec tableEngine db ''COMMIT'' = (ok, db')"
  then show "if ok then td_view db' = (t, None) else td_view db' = (t, Some u) \<or> td_view db' = (u, None)"
    using faulted_view(2) [of db u] by (auto simp: tableEngine_def td_exec_def td_view_def Let_def split: if_splits)
next
  fix db t u sql params assume v: "td_view db = (t, Some u)"
  then show "tx_result td_view u (sql_effect sql params t) (sq_run tableEngine db sql params)"
    using faulted_view(2) [of db u]
    by (auto simp: tableEngine_def td_run_def tx_result_iff td_view_def split: option.splits)
next
  fix db t v dn assume "td_view db = (t, v)"
  then show "\<exists>ks. mset ks = mset (filter (\<lambda>k. iequals k dn) (tb_entries t)) \<and>
      sq_rows tableEngine db selectStored [SqlText dn] = map (\<lambda>k. [SqlText k]) ks"
    by (intro exI [of _ "filter (\<lambda>k. iequals k dn) (tb_entries t)"]) (simp add: tableEngine_def td_rows_def td_view_def)
  show "\<exists>rs. mset rs = mset (filter (\<lambda>r. fst r = dn) (tb_attributes t)) \<and> sorted (map rowOrd rs) \<and>
      sq_rows tableEngine db selectAttributes [SqlText dn] = map (\<lambda>(k, n, v, i). [SqlText n, SqlText v]) rs"
    using \<open>td_view db = (t, v)\<close>
    by (intro exI [of _ "sort_key rowOrd (filter (\<lambda>r. fst r = dn) (tb_attributes t))"])
      (simp add: tableEngine_def td_rows_def td_view_def selectStored_def selectAttributes_def)
next
  fix db t v assume "td_view db = (t, v)"
  then show "\<exists>ks. mset ks = mset (tb_entries t) \<and> sq_rows tableEngine db selectEntries [] = map (\<lambda>k. [SqlText k]) ks"
    by (intro exI [of _ "tb_entries t"]) (simp add: tableEngine_def td_rows_def td_view_def)
  show "\<exists>rs. mset rs = mset (tb_attributes t) \<and>
      sorted_wrt (\<lambda>r r'. fst r < fst r' \<or> fst r = fst r' \<and> rowOrd r \<le> rowOrd r') rs \<and>
      sq_rows tableEngine db selectAllAttributes [] = map (\<lambda>(k, n, v, i). [SqlText k, SqlText n, SqlText v]) rs"
    using \<open>td_view db = (t, v)\<close> sorted_pairs
    by (intro exI [of _ "sort_key (\<lambda>r. (fst r, rowOrd r)) (tb_attributes t)"])
      (simp add: tableEngine_def td_rows_def td_view_def selectEntries_def countEntries_def selectAllAttributes_def)
qed

section \<open>Properties\<close>

text \<open>C13: The SQLite backend behaves as the in-memory one, whichever of its writing statements fail.  Take a database that keeps SQLite's contract, whose
  queries therefore answer, and that holds an in-memory directory, and any sequence of add, modify, remove and rename operations whose names and
  values have no NUL character and whose attributes each have a value.  Afterwards lookups, searches (entries, their order, their
  attributes and values) and the test for children answer as the in-memory directory does after exactly those operations that reported
  success: an operation whose statements, commit or rollback fail at any point has changed nothing.  The one difference to the in-memory operations is
  that a modification keeps the stored spelling of the entry's name (\<open>respelled\<close>).  On a database where nothing fails that
  the keys allow, the operations succeed exactly when they do in memory.\<close>

theorem sqlite_refines_memory:
  assumes "sql_database Q view" and "sl_db s = Some d" and "view d = (t, None)" and "represents t m"
    and "\<forall>u \<in> set us. sql_storable u" and "run (be_update (sqliteBackend Q)) us s = (oks, s')"
  shows "(\<forall>dn. nul_free dn \<longrightarrow> be_lookup (sqliteBackend Q) s' dn = mem_lookup (applied us oks m) dn) \<and>
    (\<forall>base scope f. be_search (sqliteBackend Q) s' base scope f = mem_search (applied us oks m) base scope f) \<and>
    (\<forall>dn. be_hasChildren (sqliteBackend Q) s' dn = mem_hasChildren (applied us oks m) dn) \<and>
    (reliable Q view \<longrightarrow> run respelled us m = (oks, applied us oks m))"
proof -
  note refined = sql_database.run_refines_memory [OF assms]
  then obtain d' t' where d': "sl_db s' = Some d'" "view d' = (t', None)" "represents t' (applied us oks m)" by blast
  from refined sql_database.lookup_eq [OF assms(1) d'(2,3) _ d'(1)] sql_database.search_eq [OF assms(1) d'(2,3,1)]
    sql_database.hasChildren_eq [OF assms(1) d'(2,3,1)]
  show ?thesis by (simp add: sqliteBackend_def)
qed

definition demoUpdates :: "update list" where
  "demoUpdates =
     [UAdd \<lparr>de_dn = ''dc=x'', de_attributes = [(''cn'', [''a'', ''b''])]\<rparr>, UAdd \<lparr>de_dn = ''dc=x'', de_attributes = [(''cn'', [''c''])]\<rparr>]"

text \<open>A database that fails at the third statement, inside the first transaction.\<close>

definition demoSqlite :: "TableDb SqliteState" where
  "demoSqlite = \<lparr>sl_path = ''x.db'', sl_seed = [], sl_seed_file = None,
     sl_db = Some \<lparr>td_tables = emptyTables, td_saved = None, td_faults = [Fine, Fine, RollsBack]\<rparr>\<rparr>"

theorem sqlite_refines_memory_witness:
  "fst (run (be_update (sqliteBackend tableEngine)) demoUpdates demoSqlite) = [False, True] \<and>
   be_search (sqliteBackend tableEngine) (snd (run (be_update (sqliteBackend tableEngine)) demoUpdates demoSqlite)) ''dc=x'' Base allFilter =
     mem_search (applied demoUpdates [False, True] []) ''dc=x'' Base allFilter"
proof
  let ?r = "run (be_update (sqliteBackend tableEngine)) demoUpdates demoSqlite"
  show oks: "fst ?r = [False, True]" by code_simp
  have "sl_db demoSqlite = Some (the (sl_db demoSqlite))" by code_simp
  moreover have "td_view (the (sl_db demoSqlite)) = (emptyTables, None)" by code_simp
  moreover have "represents emptyTables []" by (simp add: represents_def mem_inv_def emptyTables_def)
  moreover have "\<forall>u \<in> set demoUpdates. sql_storable u" by code_simp
  moreover have "?r = ([False, True], snd ?r)" using oks by (metis prod.collapse)
  ultimately show "be_search (sqliteBackend tableEngine) (snd ?r) ''dc=x'' Base allFilter =
      mem_search (applied demoUpdates [False, True] []) ''dc=x'' Base allFilter"
    using sqlite_refines_memory [OF tables.sql_database_axioms] by blast
qed

text \<open>The seed is inserted without the test of \<^verbatim>\<open>add\<close> for other spellings: two spellings of one name become two entries, both found by
  searches, of which removing the name removes one.\<close>

lemma seed_two_spellings:
  "let (ok, s) = sqlite_initialize tableEngine \<lparr>sl_path = ''x.db'', sl_seed = ''x.ldif'',
         sl_seed_file = Some (''dn: dc=x'' @ [CHR 0x0A, CHR 0x0A] @ ''dn: DC=X'' @ [CHR 0x0A]), sl_db = None\<rparr>;
       (removed, s') = be_remove (sqliteBackend tableEngine) s ''dc=x'' in
   ok \<and> length (be_search (sqliteBackend tableEngine) s ''dc=x'' Base allFilter) = 2 \<and> removed \<and>
   be_lookup (sqliteBackend tableEngine) s' ''dc=x'' = Some \<lparr>de_dn = ''DC=X'', de_attributes = []\<rparr>"
  by code_simp

text \<open>An attribute value with a NUL character is read back cut.\<close>

lemma nul_cuts_value:
  "let e = \<lparr>de_dn = ''dc=x'', de_attributes = [(''cn'', [[CHR ''a'', CHR 0x00, CHR ''b'']])]\<rparr>;
       s = snd (sqlite_initialize tableEngine \<lparr>sl_path = ''x.db'', sl_seed = [], sl_seed_file = None, sl_db = None\<rparr>) in
   be_lookup (sqliteBackend tableEngine) (snd (be_add (sqliteBackend tableEngine) s e)) ''dc=x'' =
     Some \<lparr>de_dn = ''dc=x'', de_attributes = [(''cn'', [''a''])]\<rparr>"
  by code_simp

text \<open>Seeding is all or nothing: when the daemon cannot start because a record of the seed file, or the commit, fails, the tables are as they were
  before, so the next start seeds again.\<close>

lemma seed_all_or_nothing:
  assumes "sql_database Q view" and "view d = (t, None)" and "seed Q records d = (False, d')"
  shows "view d' = (t, None)"
  by (rule sql_database.failed_seed [OF assms])

text \<open>A query that fails looks to the code like one without rows: with a database whose queries fail, a second spelling of a name is added.\<close>

lemma failed_query_adds_twice:
  "let Q = tableEngine\<lparr>sq_rows := (\<lambda>db sql params. [])\<rparr>;
       s = snd (sqlite_initialize Q \<lparr>sl_path = ''x.db'', sl_seed = [], sl_seed_file = None, sl_db = None\<rparr>);
       (first, s) = be_add (sqliteBackend Q) s \<lparr>de_dn = ''dc=x'', de_attributes = []\<rparr>;
       (second, s) = be_add (sqliteBackend Q) s \<lparr>de_dn = ''DC=X'', de_attributes = []\<rparr> in
   first \<and> second \<and> map_option (tb_entries \<circ> td_tables) (sl_db s) = Some [''dc=x'', ''DC=X'']"
  by code_simp

end
