(* ===== verification/Client.thy ===== *)
theory Client
  imports ClientArgs Session Ldif
begin

text \<open>
  The client side: \<^verbatim>\<open>src/simple-ldapd/cli/client.cpp\<close> (connecting, StartTLS, binding, the requests of \<^verbatim>\<open>LdapClient\<close>) and the tools
  of \<^verbatim>\<open>src/main\<close>.  \<open>Connection\<close> is what they use of the class \<^verbatim>\<open>TcpConnection\<close>; what lies outside (name resolution and
  sockets, files, the environment, the terminal, the clock, random bytes) is the record \<open>ClientEnv\<close>.  A tool is a function to its exit
  code and what it prints on standard output; messages on standard error are left out.  A loop that the server could keep running
  forever is a partial function to \<open>option\<close>.
\<close>

section \<open>Surroundings\<close>

record 'c Connection =
  tc_sendAll :: "bytes \<Rightarrow> 'c \<Rightarrow> bool \<times> 'c"
  tc_recvPdu :: "'c \<Rightarrow> bytes option \<times> 'c"
  tc_handshakeTls :: "string \<Rightarrow> 'c \<Rightarrow> bool \<times> 'c"

text \<open>Standard input: what is left of it, and whether its end has been met.\<close>

type_synonym stdin = "string \<times> bool"

record 'c ClientEnv =
  ce_connectTo :: "string \<Rightarrow> 16 word \<Rightarrow> 'c option"
  ce_initClient :: "string \<Rightarrow> string \<Rightarrow> string \<Rightarrow> bool"
  ce_read_file :: "string \<Rightarrow> string option"
  ce_ktname :: "string option"
  ce_crypto :: Crypto
  ce_rng :: rng
  ce_time :: int

text \<open>\<^verbatim>\<open>std::getline(std::cin, line)\<close>: the line is left alone when the end was met before.\<close>

definition getLine :: "string \<Rightarrow> stdin \<Rightarrow> string \<times> stdin" where
  "getLine line inp =
     (case inp of (t, eof) \<Rightarrow>
        if eof then (line, inp)
        else case find_char (CHR 0x0A) t of
          None \<Rightarrow> (t, [], True)
        | Some i \<Rightarrow> (take i t, drop (i + 1) t, False))"

section \<open>Connecting and binding\<close>

text \<open>The error, if any, and the connection, if it was made.\<close>

definition connectLdap :: "'c Connection \<Rightarrow> 'c ClientEnv \<Rightarrow> ClientOptions \<Rightarrow> string option \<times> 'c option" where
  "connectLdap C env options =
     (case ce_connectTo env (co_host options) (co_port options) of
        None \<Rightarrow> (Some (''cannot connect to '' @ co_host options @ '':'' @ toStringInt (uint (co_port options))), None)
      | Some c \<Rightarrow>
          if \<not> (co_ldaps options \<or> co_starttls options) then (None, Some c)
          else if \<not> ce_initClient env (co_ca_file options) (co_tls_cert_file options) (co_tls_key_file options) then
            (Some ''TLS client initialization failed'', Some c)
          else if co_ldaps options then
            (case tc_handshakeTls C (co_host options) c of (ok, c) \<Rightarrow>
               (if ok then None else Some ''LDAPS handshake failed'', Some c))
          else case tc_sendAll C (encodeLdapMessage (makeExtendedRequest 1 kStartTlsOid [])) c of (ok, c) \<Rightarrow>
            if \<not> ok then (Some ''StartTLS request failed'', Some c)
            else case tc_recvPdu C c of
              (None, c) \<Rightarrow> (Some ''StartTLS response truncated'', Some c)
            | (Some pdu, c) \<Rightarrow>
                (case decodeLdapMessage pdu of
                   None \<Rightarrow> (Some ''StartTLS failed'', Some c)
                 | Some response \<Rightarrow>
                     if msg_op response \<noteq> ExtendedResponse \<or> msg_result response \<noteq> Success then
                       (Some (toString (msg_result response)), Some c)
                     else case tc_handshakeTls C (co_host options) c of (ok, c) \<Rightarrow>
                       (if ok then None else Some ''StartTLS handshake failed'', Some c)))"

text \<open>The lambda \<^verbatim>\<open>sendBind\<close>: an error text or the response.\<close>

definition sendBind :: "'c Connection \<Rightarrow> LdapMessage \<Rightarrow> 'c \<Rightarrow> (string + LdapMessage) \<times> 'c" where
  "sendBind C request c =
     (case tc_sendAll C (encodeLdapMessage request) c of (ok, c) \<Rightarrow>
        if \<not> ok then (Inl ''bind send failed'', c)
        else case tc_recvPdu C c of
          (None, c) \<Rightarrow> (Inl ''bind response truncated'', c)
        | (Some pdu, c) \<Rightarrow>
            (case decodeLdapMessage pdu of
               None \<Rightarrow> (Inl ''bind failed'', c)
             | Some decoded \<Rightarrow> (if msg_op decoded \<noteq> BindResponse then Inl ''bind failed'' else Inr decoded, c)))"

text \<open>The end of every way through \<^verbatim>\<open>bindLdap\<close>: the last bind request.\<close>

definition finalBind :: "'c Connection \<Rightarrow> LdapMessage \<Rightarrow> 'c \<Rightarrow> ResultCode \<times> string \<times> 'c" where
  "finalBind C request c =
     (case sendBind C request c of
        (Inl err, c) \<Rightarrow> (Unavailable, err, c)
      | (Inr response, c) \<Rightarrow>
          if msg_result response \<noteq> Success then (msg_result response, toString (msg_result response), c)
          else (Success, [], c))"

text \<open>A first bind request of a mechanism with a challenge, and what is made of the challenge.\<close>

definition challengeBind ::
  "'c Connection \<Rightarrow> LdapMessage \<Rightarrow> (string \<Rightarrow> (ResultCode \<times> string) + string) \<Rightarrow> 'c \<Rightarrow> ((ResultCode \<times> string) + string) \<times> 'c" where
  "challengeBind C request answer c =
     (case sendBind C request c of
        (Inl err, c) \<Rightarrow> (Inl (Unavailable, err), c)
      | (Inr challenge, c) \<Rightarrow>
          if msg_result challenge \<noteq> SaslBindInProgress then (Inl (msg_result challenge, toString (msg_result challenge)), c)
          else (answer (msg_server_sasl_creds challenge), c))"

definition gssapiKeytab :: "'c ClientEnv \<Rightarrow> ClientOptions \<Rightarrow> (ResultCode \<times> string) + GssapiKeytab" where
  "gssapiKeytab env options =
     (let path = (if co_keytab options = [] then (case ce_ktname env of None \<Rightarrow> [] | Some p \<Rightarrow> p) else co_keytab options) in
      if path = [] then Inl (AuthMethodNotSupported, ''GSSAPI requires --keytab'')
      else case loadGssapiKeytab (ce_read_file env path) of
        Inl err \<Rightarrow> Inl (OperationsError, err)
      | Inr keytab \<Rightarrow>
          if kt_realm keytab = [] then Inl (OperationsError, ''GSSAPI keytab is missing realm'') else Inr keytab)"

definition saslCredentials ::
  "'c Connection \<Rightarrow> 'c ClientEnv \<Rightarrow> ClientOptions \<Rightarrow> string \<Rightarrow> SaslMechanism \<Rightarrow> 'c \<Rightarrow> ((ResultCode \<times> string) + string) \<times> int32 \<times> 'c" where
  "saslCredentials C env options password mechanism c =
     (let authcid = (if co_sasl_authcid options \<noteq> [] then co_sasl_authcid options else co_bind_dn options) in
      case mechanism of
        PlainMech \<Rightarrow> (Inr (saslPlainCredentials [] authcid password), 1, c)
      | External \<Rightarrow> (Inr authcid, 1, c)
      | DigestMd5 \<Rightarrow>
          (case challengeBind C (makeSaslBindRequest 1 (co_bind_dn options) ''DIGEST-MD5'' [])
                  (\<lambda>creds. case fst (saslDigestClientResponse (ce_crypto env) creds authcid password
                       (''ldap/'' @ co_host options) (ce_rng env)) of
                     Inl err \<Rightarrow> Inl (AuthMethodNotSupported, err) | Inr t \<Rightarrow> Inr t) c of (r, c) \<Rightarrow> (r, 2, c))
      | GssapiMech \<Rightarrow>
          (case gssapiKeytab env options of
             Inl e \<Rightarrow> (Inl e, 1, c)
           | Inr keytab \<Rightarrow>
               (case challengeBind C (makeSaslBindRequest 1 (co_bind_dn options) ''GSSAPI'' [])
                       (\<lambda>creds. if authcid = [] then Inl (InvalidCredentials, ''GSSAPI requires -U'')
                          else let t = mintGssapiTicket (ce_crypto env) keytab authcid 300 (ce_time env)
                            in if t = [] then Inl (OperationsError, ''GSSAPI ticket mint failed'') else Inr t) c of
                  (r, c) \<Rightarrow> (r, 2, c)))
      | AnonymousMech \<Rightarrow> (Inl (AuthMethodNotSupported, ''SASL mechanism is not available in the client''), 1, c))"

text \<open>The result, the error text, the next message number and the connection; the callers start with message number 1.\<close>

definition bindLdap ::
  "'c Connection \<Rightarrow> 'c ClientEnv \<Rightarrow> ClientOptions \<Rightarrow> string \<Rightarrow> 'c \<Rightarrow> ResultCode \<times> string \<times> int32 \<times> 'c" where
  "bindLdap C env options password c =
     (if co_sasl_mechanism options = [] then
        (case finalBind C (makeBindRequest 1 (co_bind_dn options) password) c of (code, err, c) \<Rightarrow> (code, err, 2, c))
      else case parseSaslMechanism (co_sasl_mechanism options) of
        None \<Rightarrow> (AuthMethodNotSupported, ''unsupported SASL mechanism'', 1, c)
      | Some mechanism \<Rightarrow>
          (case saslCredentials C env options password mechanism c of
             (Inl (code, err), i, c) \<Rightarrow> (code, err, i, c)
           | (Inr credentials, i, c) \<Rightarrow>
               (case finalBind C (makeSaslBindRequest i (co_bind_dn options) (co_sasl_mechanism options) credentials) c of
                  (code, err, c) \<Rightarrow> (code, err, i + 1, c))))"

section \<open>The client class\<close>

text \<open>The members are the next message number and the connection.\<close>

type_synonym 'c LdapClient = "int32 \<times> 'c"

definition promptPassword :: "ClientOptions \<Rightarrow> stdin \<Rightarrow> string \<times> stdin" where
  "promptPassword options inp = (if co_prompt_password options then getLine (co_password options) inp else (co_password options, inp))"

text \<open>The error text or the client; with it the connection as it was left, if there was one.\<close>

definition openBound :: "'c Connection \<Rightarrow> 'c ClientEnv \<Rightarrow> ClientOptions \<Rightarrow> stdin \<Rightarrow> (string + 'c LdapClient) \<times> 'c option" where
  "openBound C env options inp =
     (case connectLdap C env options of
        (Some err, c) \<Rightarrow> (Inl err, c)
      | (None, None) \<Rightarrow> (Inl [], None)
      | (None, Some c) \<Rightarrow>
          (case bindLdap C env options (fst (promptPassword options inp)) c of (bound, err, i, c) \<Rightarrow>
             if bound \<noteq> Success then (Inl (if err = [] then toString bound else err), Some c)
             else (Inr (1, c), Some c)))"

definition exchange :: "'c Connection \<Rightarrow> LdapMessage \<Rightarrow> 'c \<Rightarrow> LdapMessage option \<times> 'c" where
  "exchange C request c =
     (case tc_sendAll C (encodeLdapMessage request) c of (ok, c) \<Rightarrow>
        if \<not> ok then (None, c)
        else case tc_recvPdu C c of
          (None, c) \<Rightarrow> (None, c)
        | (Some pdu, c) \<Rightarrow> (decodeLdapMessage pdu, c))"

text \<open>The shape of all requests with one answer: the result, provided the answer is of the right kind.\<close>

definition clientRequest ::
  "'c Connection \<Rightarrow> (int32 \<Rightarrow> LdapMessage) \<Rightarrow> ProtocolOp \<Rightarrow> 'c LdapClient \<Rightarrow> ResultCode \<times> 'c LdapClient" where
  "clientRequest C mk op client =
     (case client of (i, c) \<Rightarrow>
        case exchange C (mk i) c of
          (None, c) \<Rightarrow> (Unavailable, i + 1, c)
        | (Some response, c) \<Rightarrow> (if msg_op response \<noteq> op then Unavailable else msg_result response, i + 1, c))"

definition client_simpleBind :: "'c Connection \<Rightarrow> string \<Rightarrow> string \<Rightarrow> 'c LdapClient \<Rightarrow> ResultCode \<times> 'c LdapClient" where
  "client_simpleBind C dn password = clientRequest C (\<lambda>i. makeBindRequest i dn password) BindResponse"

definition client_saslBind :: "'c Connection \<Rightarrow> string \<Rightarrow> string \<Rightarrow> string \<Rightarrow> 'c LdapClient \<Rightarrow> ResultCode \<times> 'c LdapClient" where
  "client_saslBind C mechanism dn credentials = clientRequest C (\<lambda>i. makeSaslBindRequest i dn mechanism credentials) BindResponse"

definition client_add :: "'c Connection \<Rightarrow> DirectoryEntry \<Rightarrow> 'c LdapClient \<Rightarrow> ResultCode \<times> 'c LdapClient" where
  "client_add C entry = clientRequest C (\<lambda>i. makeAddRequest i (toAddRequest entry)) AddResponse"

definition client_modify :: "'c Connection \<Rightarrow> string \<Rightarrow> AttributeModification list \<Rightarrow> 'c LdapClient \<Rightarrow> ResultCode \<times> 'c LdapClient" where
  "client_modify C dn changes = clientRequest C (\<lambda>i. makeModifyRequest i \<lparr>md_dn = dn, md_changes = changes\<rparr>) ModifyResponse"

definition client_del :: "'c Connection \<Rightarrow> string \<Rightarrow> 'c LdapClient \<Rightarrow> ResultCode \<times> 'c LdapClient" where
  "client_del C dn = clientRequest C (\<lambda>i. makeDelRequest i dn) DelResponse"

definition client_modifyDn :: "'c Connection \<Rightarrow> ModifyDnRequestData \<Rightarrow> 'c LdapClient \<Rightarrow> ResultCode \<times> 'c LdapClient" where
  "client_modifyDn C d = clientRequest C (\<lambda>i. makeModifyDnRequest i d) ModifyDNResponse"

definition client_passwordModify :: "'c Connection \<Rightarrow> PasswordModifyRequest \<Rightarrow> 'c LdapClient \<Rightarrow> ResultCode \<times> 'c LdapClient" where
  "client_passwordModify C q = clientRequest C (\<lambda>i. makePasswordModifyRequest i q) ExtendedResponse"

definition client_compare :: "'c Connection \<Rightarrow> CompareRequestData \<Rightarrow> 'c LdapClient \<Rightarrow> ResultCode \<times> 'c LdapClient" where
  "client_compare C q = clientRequest C (\<lambda>i. makeCompareRequest i q) CompareResponse"

definition client_whoAmI :: "'c Connection \<Rightarrow> 'c LdapClient \<Rightarrow> ResultCode \<times> string \<times> 'c LdapClient" where
  "client_whoAmI C client =
     (case client of (i, c) \<Rightarrow>
        case exchange C (makeExtendedRequest i kWhoAmIOid []) c of
          (None, c) \<Rightarrow> (Unavailable, [], i + 1, c)
        | (Some response, c) \<Rightarrow>
            if msg_op response \<noteq> ExtendedResponse then (Unavailable, [], i + 1, c)
            else (msg_result response, if msg_result response = Success then msg_extended_value response else [], i + 1, c))"

definition client_unbind :: "'c Connection \<Rightarrow> 'c LdapClient \<Rightarrow> 'c" where
  "client_unbind C client = (case client of (i, c) \<Rightarrow> snd (tc_sendAll C (encodeLdapMessage (makeUnbindRequest i)) c))"

end
