(* ===== verification/Tools.thy ===== *)
theory Tools
  imports Client
begin

text \<open>
  The command-line tools of \<^verbatim>\<open>src/main\<close>: \<^verbatim>\<open>ldapsearch\<close>, \<^verbatim>\<open>ldapadd\<close>, \<^verbatim>\<open>ldapmodify\<close>, \<^verbatim>\<open>ldapdelete\<close>, \<^verbatim>\<open>ldapcompare\<close>,
  \<^verbatim>\<open>ldappasswd\<close> and \<^verbatim>\<open>ldapwhoami\<close>, each from its arguments to the way it ends, together with the connection as it left it.
\<close>

section \<open>Beginnings and ends\<close>

text \<open>The usage message (with the exit code), the version, or an exit code and what went to standard output.\<close>

datatype ToolEnd = UsageExit int | VersionExit | Exit int string

type_synonym 'c tool = "ToolEnd \<times> 'c option"

definition toolStart :: "ClientOptions \<Rightarrow> 'c tool \<Rightarrow> 'c tool" where
  "toolStart options main =
     (if co_parse_error options then (UsageExit 1, None)
      else if co_help options then (UsageExit 0, None)
      else if co_version options then (VersionExit, None)
      else main)"

definition exitCode :: "ResultCode \<Rightarrow> int" where
  "exitCode result = uint (resultCodeByte result)"

definition endl :: string where "endl = [CHR 0x0A]"

text \<open>\<^verbatim>\<open>readInput\<close>: standard input without a path or with a dash; a file that cannot be read is empty.\<close>

definition readInput :: "'c ClientEnv \<Rightarrow> string \<Rightarrow> stdin \<Rightarrow> string \<times> stdin" where
  "readInput env path inp =
     (if path = [] \<or> path = ''-'' then (fst inp, [], snd inp)
      else (case ce_read_file env path of None \<Rightarrow> [] | Some t \<Rightarrow> t, inp))"

text \<open>A list of requests, up to the first that does not succeed.\<close>

fun untilFailure :: "('a \<Rightarrow> 'c LdapClient \<Rightarrow> ResultCode \<times> 'c LdapClient) \<Rightarrow> 'a list \<Rightarrow> 'c LdapClient \<Rightarrow> ResultCode \<times> 'c LdapClient" where
  "untilFailure f [] client = (Success, client)"
| "untilFailure f (x # xs) client =
     (case f x client of (result, client) \<Rightarrow>
        if result \<noteq> Success then (result, client) else untilFailure f xs client)"

text \<open>After the requests the tools unbind and end with the result as exit code.\<close>

definition runRequests ::
  "'c Connection \<Rightarrow> 'c ClientEnv \<Rightarrow> ClientOptions \<Rightarrow> stdin \<Rightarrow> ('c LdapClient \<Rightarrow> ResultCode \<times> 'c LdapClient) \<Rightarrow> 'c tool" where
  "runRequests C env options inp f =
     (case openBound C env options inp of
        (Inl err, c) \<Rightarrow> (Exit 1 [], c)
      | (Inr client, _) \<Rightarrow>
          (case f client of (result, client) \<Rightarrow> (Exit (exitCode result) [], Some (client_unbind C client))))"

section \<open>ldapadd, ldapmodify and ldapdelete\<close>

definition ldapadd :: "'c Connection \<Rightarrow> 'c ClientEnv \<Rightarrow> string list \<Rightarrow> stdin \<Rightarrow> 'c tool" where
  "ldapadd C env args inp =
     (let options = parseClientArgs False args in
      toolStart options
        (case readInput env (co_ldif_file options) inp of (t, inp) \<Rightarrow>
           let records = parseLdifText t in
           if records = [] then (Exit 1 [], None)
           else runRequests C env options inp
             (untilFailure (\<lambda>r. client_add C (lr_entry r))
                (filter (\<lambda>r. lr_changetype r = ContentChange \<or> lr_changetype r = AddChange) records))))"

definition modifyRecord :: "'c Connection \<Rightarrow> ClientOptions \<Rightarrow> LdifRecord \<Rightarrow> 'c LdapClient \<Rightarrow> ResultCode \<times> 'c LdapClient" where
  "modifyRecord C options r client =
     (let type = (if lr_changetype r = ContentChange then if co_add_mode options then AddChange else ModifyChange
                  else lr_changetype r) in
      case type of
        AddChange \<Rightarrow> client_add C (lr_entry r) client
      | DeleteChange \<Rightarrow> client_del C (lr_dn r) client
      | ModrdnChange \<Rightarrow>
          client_modifyDn C \<lparr>dd_dn = lr_dn r, dd_new_rdn = lr_new_rdn r, dd_delete_old_rdn = lr_delete_old_rdn r,
            dd_new_superior = lr_new_superior r\<rparr> client
      | _ \<Rightarrow>
          client_modify C (lr_dn r)
            (if lr_changes r = []
             then map (\<lambda>(n, vs). \<lparr>am_op = Replace, am_type = n, am_values = vs\<rparr>) (de_attributes (lr_entry r))
             else lr_changes r) client)"

definition ldapmodify :: "'c Connection \<Rightarrow> 'c ClientEnv \<Rightarrow> string list \<Rightarrow> stdin \<Rightarrow> 'c tool" where
  "ldapmodify C env args inp =
     (let options = parseClientArgs False args in
      toolStart options
        (case readInput env (co_ldif_file options) inp of (t, inp) \<Rightarrow>
           let records = parseLdifText t in
           if records = [] then (Exit 1 [], None)
           else runRequests C env options inp (untilFailure (modifyRecord C options) records)))"

definition ldapdelete :: "'c Connection \<Rightarrow> 'c ClientEnv \<Rightarrow> string list \<Rightarrow> stdin \<Rightarrow> 'c tool" where
  "ldapdelete C env args inp =
     (let options = parseClientArgs False args in
      toolStart options
        (let dns = co_positionals options @
               (if co_ldif_file options \<noteq> []
                then map lr_dn (filter (\<lambda>r. lr_changetype r = DeleteChange \<or> lr_changetype r = ContentChange)
                       (parseLdifFile (ce_read_file env (co_ldif_file options))))
                else []) in
         if dns = [] then (Exit 1 [], None)
         else runRequests C env options inp (untilFailure (client_del C) dns)))"

section \<open>ldapcompare, ldappasswd and ldapwhoami\<close>

definition ldapcompare :: "'c Connection \<Rightarrow> 'c ClientEnv \<Rightarrow> string list \<Rightarrow> stdin \<Rightarrow> 'c tool" where
  "ldapcompare C env args inp =
     (let options = parseClientArgs False args in
      toolStart options
        (case co_positionals options of
           dn # assertion # _ \<Rightarrow>
             (case find_char (CHR '':'') assertion of
                None \<Rightarrow> (Exit 1 [], None)
              | Some colon \<Rightarrow>
                  if colon = 0 \<or> colon + 1 \<ge> length assertion then (Exit 1 [], None)
                  else case openBound C env options inp of
                    (Inl err, c) \<Rightarrow> (Exit 1 [], c)
                  | (Inr client, _) \<Rightarrow>
                      (case client_compare C \<lparr>cd_dn = dn, cd_attribute = take colon assertion, cd_value = drop (colon + 1) assertion\<rparr> client of
                         (result, client) \<Rightarrow>
                           (Exit (exitCode result)
                              (if result = CompareTrue then ''TRUE'' @ endl else if result = CompareFalse then ''FALSE'' @ endl else []),
                            Some (client_unbind C client))))
         | _ \<Rightarrow> (Exit 1 [], None)))"

text \<open>The new password: the option, or two equal lines.\<close>

definition newPassword :: "ClientOptions \<Rightarrow> stdin \<Rightarrow> string option \<times> stdin" where
  "newPassword options inp =
     (if co_prompt_new_password options then
        (case getLine (co_new_password options) inp of (new, inp) \<Rightarrow>
           case getLine [] inp of (confirm, inp) \<Rightarrow> (if new = confirm then Some new else None, inp))
      else (Some (co_new_password options), inp))"

definition ldappasswd :: "'c Connection \<Rightarrow> 'c ClientEnv \<Rightarrow> string list \<Rightarrow> stdin \<Rightarrow> 'c tool" where
  "ldappasswd C env args inp =
     (let options = parseClientArgs True args in
      toolStart options
        (case newPassword options inp of
           (None, inp) \<Rightarrow> (Exit 1 [], None)
         | (Some new, inp) \<Rightarrow>
             if new = [] then (Exit 1 [], None)
             else case openBound C env options inp of
               (Inl err, c) \<Rightarrow> (Exit 1 [], c)
             | (Inr client, _) \<Rightarrow>
                 (case client_passwordModify C
                         \<lparr>pm_user_identity = (case co_positionals options of [] \<Rightarrow> [] | p # _ \<Rightarrow> p),
                          pm_old_password = (if co_old_password options = [] then None else Some (co_old_password options)),
                          pm_new_password = Some new\<rparr> client of
                    (result, client) \<Rightarrow>
                      (Exit (exitCode result) (if result = Success then ''Password Changed'' @ endl else []),
                       Some (client_unbind C client)))))"

definition ldapwhoami :: "'c Connection \<Rightarrow> 'c ClientEnv \<Rightarrow> string list \<Rightarrow> stdin \<Rightarrow> 'c tool" where
  "ldapwhoami C env args inp =
     (let options = parseClientArgs False args in
      toolStart options
        (case openBound C env options inp of
           (Inl err, c) \<Rightarrow> (Exit 1 [], c)
         | (Inr client, _) \<Rightarrow>
             (case client_whoAmI C client of
                (result, authzid, client) \<Rightarrow>
                  (Exit (exitCode result)
                     (if result = Success then (if authzid = [] then ''anonymous'' else authzid) @ endl else []),
                   Some (client_unbind C client)))))"

section \<open>ldapsearch\<close>

definition printEntry :: "SearchEntryData \<Rightarrow> string" where
  "printEntry e =
     ''dn: '' @ ed_dn e @ endl @
     concat (map (\<lambda>a. if pa_values a = [] then pa_type a @ '':'' @ endl
                      else concat (map (\<lambda>v. pa_type a @ '': '' @ v @ endl) (pa_values a))) (ed_attributes e)) @ endl"

text \<open>The inner loop: what was printed and the final message; \<open>None\<close> in its place when the response is truncated or unexpected.\<close>

partial_function (option) recvResults :: "'c Connection \<Rightarrow> string \<Rightarrow> 'c \<Rightarrow> (string \<times> LdapMessage option \<times> 'c) option" where
  "recvResults C out c =
     (case tc_recvPdu C c of
        (None, c) \<Rightarrow> Some (out, None, c)
      | (Some pdu, c) \<Rightarrow>
          (case decodeLdapMessage pdu of
             None \<Rightarrow> Some (out, None, c)
           | Some m \<Rightarrow>
               if msg_op m = SearchResultEntry then recvResults C (out @ printEntry (msg_entry m)) c
               else if msg_op m = SearchResultDone then Some (out, Some m, c)
               else Some (out, None, c)))"

definition nextCookie :: "LdapControl list \<Rightarrow> string" where
  "nextCookie controls =
     fold (\<lambda>ctl cookie. if lc_oid ctl = kPagedResultsOid
             then (case decodePagedResultsValue (lc_value ctl) of None \<Rightarrow> cookie | Some (_, ck) \<Rightarrow> ck) else cookie) controls []"

definition searchMessage :: "ClientOptions \<Rightarrow> SearchRequestData \<Rightarrow> int32 \<Rightarrow> string \<Rightarrow> LdapMessage" where
  "searchMessage options search i cookie =
     (let m = makeSearchRequest i search in
      if sint (co_page_size options) > 0
      then m\<lparr>msg_controls := [makePagedResultsControl (co_page_size options) cookie False]\<rparr> else m)"

text \<open>The outer loop, to the exit code.\<close>

partial_function (option) searchPages ::
  "'c Connection \<Rightarrow> ClientOptions \<Rightarrow> SearchRequestData \<Rightarrow> int32 \<Rightarrow> string \<Rightarrow> string \<Rightarrow> 'c \<Rightarrow> (int \<times> string \<times> 'c) option" where
  "searchPages C options search i cookie out c =
     (case tc_sendAll C (encodeLdapMessage (searchMessage options search i cookie)) c of (ok, c) \<Rightarrow>
        if \<not> ok then Some (1, out, c)
        else Option.bind (recvResults C out c) (\<lambda>(out, final, c).
          case final of
            None \<Rightarrow> Some (1, out, c)
          | Some m \<Rightarrow>
              let cookie = nextCookie (msg_controls m) in
              if cookie \<noteq> [] \<and> msg_result m = Success then searchPages C options search (i + 1) cookie out c
              else Some (exitCode (msg_result m), out, snd (tc_sendAll C (encodeLdapMessage (makeUnbindRequest (i + 1))) c))))"

definition searchData :: "ClientOptions \<Rightarrow> SearchRequestData" where
  "searchData options =
     \<lparr>sd_base_dn = co_base_dn options, sd_scope = co_scope options, sd_size_limit = co_size_limit options,
      sd_time_limit = co_time_limit options, sd_types_only = co_types_only options, sd_filter = parse (co_filter options),
      sd_attributes = co_attributes options\<rparr>"

definition ldapsearch :: "'c Connection \<Rightarrow> 'c ClientEnv \<Rightarrow> string list \<Rightarrow> stdin \<Rightarrow> 'c tool option" where
  "ldapsearch C env args inp =
     (let options = parseClientArgs False args in
      if co_parse_error options \<or> co_help options \<or> co_version options then Some (toolStart options (Exit 0 [], None))
      else if \<not> sf_valid (parse (co_filter options)) then Some (Exit 1 [], None)
      else case connectLdap C env options of
        (None, Some c) \<Rightarrow>
          (case bindLdap C env options (fst (promptPassword options inp)) c of (bound, err, i, c) \<Rightarrow>
             if bound \<noteq> Success then Some (Exit (exitCode bound) [], Some c)
             else map_option (\<lambda>(code, out, c). (Exit code out, Some c)) (searchPages C options (searchData options) i [] [] c))
      | (_, c) \<Rightarrow> Some (Exit 1 [], c))"

end
