(* ===== verification/ClientSafety.thy ===== *)
theory ClientSafety
  imports Tools
begin

text \<open>
  What the clients promise about a connection.  The locale \<open>conn_invariant\<close> is a property of connections that sending and
  receiving keep; in it, binding and all requests of \<^verbatim>\<open>src/simple-ldapd/cli/client.cpp\<close> are shown to keep the property, once for every use.
  It is interpreted on connections that log what is sent and whether TLS was active: a tool that was asked for TLS sends nothing but
  the StartTLS request before the handshake has succeeded.
\<close>

section \<open>Properties of connections\<close>

locale conn_invariant =
  fixes C :: "'c Connection"
    and P :: "'c \<Rightarrow> bool"
  assumes send_keeps: "P c \<Longrightarrow> P (snd (tc_sendAll C data c))"
    and recv_keeps: "P c \<Longrightarrow> P (snd (tc_recvPdu C c))"
begin

lemma send_to: "P c \<Longrightarrow> tc_sendAll C data c = (ok, c') \<Longrightarrow> P c'"
  using send_keeps [of c data] by simp

lemma recv_to: "P c \<Longrightarrow> tc_recvPdu C c = (r, c') \<Longrightarrow> P c'"
  using recv_keeps [of c] by simp

lemma sendBind_keeps: "P c \<Longrightarrow> sendBind C m c = (r, c') \<Longrightarrow> P c'"
  by (auto simp: sendBind_def split: prod.splits option.splits if_splits dest: send_to recv_to)

lemma finalBind_keeps: "P c \<Longrightarrow> finalBind C m c = (code, err, c') \<Longrightarrow> P c'"
  by (auto simp: finalBind_def split: prod.splits sum.splits if_splits dest: sendBind_keeps)

lemma challengeBind_keeps: "P c \<Longrightarrow> challengeBind C m f c = (r, c') \<Longrightarrow> P c'"
  by (auto simp: challengeBind_def split: prod.splits sum.splits if_splits dest: sendBind_keeps)

lemma saslCredentials_keeps: "P c \<Longrightarrow> saslCredentials C env options password mechanism c = (r, i, c') \<Longrightarrow> P c'"
  by (auto simp: saslCredentials_def Let_def split: SaslMechanism.splits prod.splits sum.splits if_splits dest: challengeBind_keeps)

lemma bindLdap_keeps: "P c \<Longrightarrow> bindLdap C env options password c = (code, err, i, c') \<Longrightarrow> P c'"
  by (auto simp: bindLdap_def split: prod.splits sum.splits option.splits if_splits dest: finalBind_keeps saslCredentials_keeps)

lemma exchange_keeps: "P c \<Longrightarrow> exchange C m c = (r, c') \<Longrightarrow> P c'"
  by (auto simp: exchange_def split: prod.splits option.splits if_splits dest: send_to recv_to)

lemma clientRequest_keeps: "P c \<Longrightarrow> clientRequest C mk op (i, c) = (r, i', c') \<Longrightarrow> P c'"
  by (auto simp: clientRequest_def split: prod.splits option.splits dest: exchange_keeps)

lemma client_add_keeps: "P (snd cl) \<Longrightarrow> P (snd (snd (client_add C e cl)))"
  using clientRequest_keeps [of "snd cl"] by (cases cl) (metis client_add_def prod.collapse snd_conv)

lemma client_del_keeps: "P (snd cl) \<Longrightarrow> P (snd (snd (client_del C dn cl)))"
  using clientRequest_keeps [of "snd cl"] by (cases cl) (metis client_del_def prod.collapse snd_conv)

lemma client_modify_keeps: "P (snd cl) \<Longrightarrow> P (snd (snd (client_modify C dn chs cl)))"
  using clientRequest_keeps [of "snd cl"] by (cases cl) (metis client_modify_def prod.collapse snd_conv)

lemma client_modifyDn_keeps: "P (snd cl) \<Longrightarrow> P (snd (snd (client_modifyDn C d cl)))"
  using clientRequest_keeps [of "snd cl"] by (cases cl) (metis client_modifyDn_def prod.collapse snd_conv)

lemma client_compare_keeps: "P (snd cl) \<Longrightarrow> P (snd (snd (client_compare C q cl)))"
  using clientRequest_keeps [of "snd cl"] by (cases cl) (metis client_compare_def prod.collapse snd_conv)

lemma client_passwordModify_keeps: "P (snd cl) \<Longrightarrow> P (snd (snd (client_passwordModify C q cl)))"
  using clientRequest_keeps [of "snd cl"] by (cases cl) (metis client_passwordModify_def prod.collapse snd_conv)

lemma client_whoAmI_keeps: "P (snd cl) \<Longrightarrow> P (snd (snd (snd (client_whoAmI C cl))))"
  by (cases cl) (auto simp: client_whoAmI_def split: prod.splits option.splits dest: exchange_keeps)

lemma client_unbind_keeps: "P (snd cl) \<Longrightarrow> P (client_unbind C cl)"
  by (cases cl) (simp add: client_unbind_def send_keeps)

lemma modifyRecord_keeps: "P (snd cl) \<Longrightarrow> P (snd (snd (modifyRecord C options r cl)))"
  by (simp add: modifyRecord_def Let_def client_add_keeps client_del_keeps client_modify_keeps client_modifyDn_keeps
      split: LdifChangeType.split)

lemma untilFailure_keeps:
  assumes "\<And>x cl. P (snd cl) \<Longrightarrow> P (snd (snd (f x cl)))" "P (snd cl)"
  shows "P (snd (snd (untilFailure f xs cl)))"
  using assms(2)
proof (induction xs arbitrary: cl)
  case (Cons x xs)
  then show ?case using assms(1) [of cl x] by (auto split: prod.splits)
qed simp

end

text \<open>The connection a tool leaves, if any, has a property.\<close>

definition leaves :: "('c \<Rightarrow> bool) \<Rightarrow> 'c tool \<Rightarrow> bool" where
  "leaves R r \<longleftrightarrow> (\<forall>c. snd r = Some c \<longrightarrow> R c)"

lemma leaves_simps [simp]: "leaves R (e, None)" "leaves R (e, Some c) \<longleftrightarrow> R c"
  by (simp_all add: leaves_def)

lemma leaves_toolStart [intro]: "leaves R main \<Longrightarrow> leaves R (toolStart options main)"
  by (simp add: toolStart_def)

context conn_invariant
begin

lemma recvResults_keeps:
  assumes "recvResults C out c = Some r" "P c"
  shows "P (snd (snd r))"
proof -
  have "D = C \<longrightarrow> P c \<longrightarrow> P (snd (snd r))" if "recvResults D out c = Some r" for D out c r
  proof (rule recvResults.raw_induct [OF _ that, where P = "\<lambda>D out c r. D = C \<longrightarrow> P c \<longrightarrow> P (snd (snd r))"], intro impI)
    fix f :: "'c Connection \<Rightarrow> string \<Rightarrow> 'c \<Rightarrow> (string \<times> LdapMessage option \<times> 'c) option" and D out c r
    assume IH: "\<And>D out c r. f D out c = Some r \<Longrightarrow> D = C \<longrightarrow> P c \<longrightarrow> P (snd (snd r))" and D: "D = C" and "P c"
      and run: "(case tc_recvPdu D c of (None, c) \<Rightarrow> Some (out, None, c)
        | (Some pdu, c) \<Rightarrow> (case decodeLdapMessage pdu of None \<Rightarrow> Some (out, None, c)
            | Some m \<Rightarrow> if msg_op m = SearchResultEntry then f D (out @ printEntry (msg_entry m)) c
                else if msg_op m = SearchResultDone then Some (out, Some m, c) else Some (out, None, c))) = Some r"
    have "P (snd (tc_recvPdu C c))" using \<open>P c\<close> by (rule recv_keeps)
    with run D IH show "P (snd (snd r))" by (auto split: prod.splits option.splits if_splits)
  qed
  with assms show ?thesis by blast
qed

lemma searchPages_keeps:
  assumes "searchPages C options search i cookie out c = Some r" "P c"
  shows "P (snd (snd r))"
proof -
  have "D = C \<longrightarrow> P c \<longrightarrow> P (snd (snd r))" if "searchPages D options search i cookie out c = Some r" for D options search i cookie out c r
  proof (rule searchPages.raw_induct [OF _ that, where P = "\<lambda>D options search i cookie out c r. D = C \<longrightarrow> P c \<longrightarrow> P (snd (snd r))"], intro impI)
    fix f :: "'c Connection \<Rightarrow> ClientOptions \<Rightarrow> SearchRequestData \<Rightarrow> int32 \<Rightarrow> string \<Rightarrow> string \<Rightarrow> 'c \<Rightarrow> (int \<times> string \<times> 'c) option"
      and D options search i cookie out c r
    assume IH: "\<And>D options search i cookie out c r. f D options search i cookie out c = Some r \<Longrightarrow> D = C \<longrightarrow> P c \<longrightarrow> P (snd (snd r))"
      and D: "D = C" and "P c"
      and run: "(case tc_sendAll D (encodeLdapMessage (searchMessage options search i cookie)) c of (ok, c) \<Rightarrow>
        if \<not> ok then Some (1, out, c)
        else Option.bind (recvResults D out c) (\<lambda>(out, final, c). case final of None \<Rightarrow> Some (1, out, c)
          | Some m \<Rightarrow> let cookie = nextCookie (msg_controls m) in
              if cookie \<noteq> [] \<and> msg_result m = Success then f D options search (i + 1) cookie out c
              else Some (exitCode (msg_result m), out, snd (tc_sendAll D (encodeLdapMessage (makeUnbindRequest (i + 1))) c)))) = Some r"
    obtain ok c1 where send: "tc_sendAll C (encodeLdapMessage (searchMessage options search i cookie)) c = (ok, c1)" by fastforce
    have c1: "P c1" using send_to [OF \<open>P c\<close> send] .
    show "P (snd (snd r))"
    proof (cases ok)
      case True
      with run D send obtain out1 final c2 where r: "recvResults C out c1 = Some (out1, final, c2)"
        by (auto simp: bind_eq_Some_conv)
      then have c2: "P c2" using recvResults_keeps [OF r c1] by simp
      show ?thesis
      proof (cases final)
        case None
        with run D send True r c2 show ?thesis by auto
      next
        case (Some m)
        with run D send True r c2 IH show ?thesis by (auto simp: Let_def send_keeps split: if_splits)
      qed
    qed (use run D send c1 in auto)
  qed
  with assms show ?thesis by blast
qed

end

text \<open>A run of a tool: connecting establishes the property on success, and a weaker one in any case.\<close>

locale client_run = conn_invariant C P for C :: "'c Connection" and P +
  fixes env :: "'c ClientEnv" and options :: ClientOptions and R :: "'c \<Rightarrow> bool"
  assumes connect_gives: "connectLdap C env options = (err, Some c) \<Longrightarrow> R c \<and> (err = None \<longrightarrow> P c)"
    and weaker: "P c \<Longrightarrow> R c"
begin

lemma openBound_gives:
  assumes "openBound C env options inp = (r, oc)"
  shows "(\<forall>c. oc = Some c \<longrightarrow> R c) \<and> (\<forall>cl. r = Inr cl \<longrightarrow> P (snd cl))"
proof -
  obtain err oc1 where con: "connectLdap C env options = (err, oc1)" by fastforce
  show ?thesis
  proof (cases "err = None \<and> oc1 \<noteq> None")
    case True
    then obtain c where c: "err = None" "oc1 = Some c" by auto
    then have "P c" using connect_gives con by blast
    moreover obtain code e i c' where b: "bindLdap C env options (fst (promptPassword options inp)) c = (code, e, i, c')"
      using prod_cases4 by blast
    ultimately have "P c'" by (rule bindLdap_keeps)
    then show ?thesis using assms con c b weaker by (auto simp: openBound_def split: if_splits)
  next
    case False
    then show ?thesis using assms con connect_gives by (auto simp: openBound_def split: option.splits)
  qed
qed

lemma opened:
  assumes "\<And>cl. P (snd cl) \<Longrightarrow> leaves R (f cl)"
  shows "leaves R (case fst (openBound C env options inp) of
    Inl err \<Rightarrow> (Exit 1 [], snd (openBound C env options inp)) | Inr cl \<Rightarrow> f cl)"
proof -
  obtain r oc where o': "openBound C env options inp = (r, oc)" by fastforce
  from openBound_gives [OF this] assms show ?thesis by (cases r) (auto simp: o' leaves_def)
qed

lemma unbound: "P (snd cl) \<Longrightarrow> R (client_unbind C cl)"
  by (rule weaker [OF client_unbind_keeps])

lemma runRequests_leaves:
  assumes "\<And>cl. P (snd cl) \<Longrightarrow> P (snd (snd (f cl)))"
  shows "leaves R (runRequests C env options inp f)"
  unfolding runRequests_def case_prod_beta by (rule opened) (simp add: unbound [OF assms])

lemma tools_leave:
  assumes "parseClientArgs False args = options"
  shows "leaves R (ldapadd C env args inp)" "leaves R (ldapmodify C env args inp)" "leaves R (ldapdelete C env args inp)"
    "leaves R (ldapcompare C env args inp)" "leaves R (ldapwhoami C env args inp)"
proof -
  note runs = runRequests_leaves [OF untilFailure_keeps]
  show "leaves R (ldapadd C env args inp)" "leaves R (ldapmodify C env args inp)" "leaves R (ldapdelete C env args inp)"
    unfolding ldapadd_def ldapmodify_def ldapdelete_def Let_def assms case_prod_beta
    by (auto intro!: runs client_add_keeps modifyRecord_keeps client_del_keeps)
  show "leaves R (ldapcompare C env args inp)"
    unfolding ldapcompare_def Let_def assms case_prod_beta
    by (auto split: list.split option.split simp: unbound client_compare_keeps intro!: opened)
  show "leaves R (ldapwhoami C env args inp)"
    unfolding ldapwhoami_def Let_def assms case_prod_beta
    by (auto simp: unbound client_whoAmI_keeps intro!: opened)
qed

lemma ldappasswd_leaves:
  assumes "parseClientArgs True args = options"
  shows "leaves R (ldappasswd C env args inp)"
  unfolding ldappasswd_def Let_def assms case_prod_beta
  by (auto split: option.split simp: unbound client_passwordModify_keeps intro!: opened)

end

context client_run
begin

lemma ldapsearch_leaves:
  assumes "parseClientArgs False args = options" "ldapsearch C env args inp = Some r"
  shows "leaves R r"
proof (cases "co_parse_error options \<or> co_help options \<or> co_version options \<or> \<not> sf_valid (parse (co_filter options))")
  case True
  with assms show ?thesis by (auto simp: ldapsearch_def Let_def split: if_splits)
next
  case False
  obtain err oc where con: "connectLdap C env options = (err, oc)" by fastforce
  show ?thesis
  proof (cases "err = None \<and> oc \<noteq> None")
    case True
    then obtain c where c: "err = None" "oc = Some c" by auto
    obtain code e i c' where b: "bindLdap C env options (fst (promptPassword options inp)) c = (code, e, i, c')"
      using prod_cases4 by blast
    then have "P c'" using connect_gives [OF con [unfolded c]] by (auto dest: bindLdap_keeps)
    then show ?thesis using assms False con c b
      by (auto simp: ldapsearch_def Let_def split: if_splits dest: searchPages_keeps intro!: weaker)
  next
    case err: False
    then show ?thesis using assms False con connect_gives
      by (auto simp: ldapsearch_def Let_def leaves_def split: option.splits)
  qed
qed

end

section \<open>Logged connections\<close>

text \<open>A connection with a note of whether TLS is active and a log of what was sent, each with that note.\<close>

type_synonym 'c logged = "'c \<times> bool \<times> (bool \<times> bytes) list"

definition logging :: "'c Connection \<Rightarrow> 'c logged Connection" where
  "logging C =
     \<lparr>tc_sendAll = (\<lambda>data (c, tls, log). case tc_sendAll C data c of (ok, c) \<Rightarrow> (ok, c, tls, log @ [(tls, data)])),
      tc_recvPdu = (\<lambda>(c, tls, log). case tc_recvPdu C c of (r, c) \<Rightarrow> (r, c, tls, log)),
      tc_handshakeTls = (\<lambda>host (c, tls, log). case tc_handshakeTls C host c of (ok, c) \<Rightarrow> (ok, c, ok \<or> tls, log))\<rparr>"

definition loggingEnv :: "'c ClientEnv \<Rightarrow> 'c logged ClientEnv" where
  "loggingEnv env =
     \<lparr>ce_connectTo = (\<lambda>host port. map_option (\<lambda>c. (c, False, [])) (ce_connectTo env host port)),
      ce_initClient = ce_initClient env, ce_read_file = ce_read_file env, ce_ktname = ce_ktname env,
      ce_crypto = ce_crypto env, ce_rng = ce_rng env, ce_time = ce_time env\<rparr>"

abbreviation startTlsBytes :: bytes where
  "startTlsBytes \<equiv> encodeLdapMessage (makeExtendedRequest 1 kStartTlsOid [])"

definition log_ok :: "'c logged \<Rightarrow> bool" where
  "log_ok lc \<longleftrightarrow> (case lc of (c, tls, log) \<Rightarrow> \<forall>(t, data) \<in> set log. t \<or> data = startTlsBytes)"

definition tls_on :: "'c logged \<Rightarrow> bool" where
  "tls_on lc \<longleftrightarrow> fst (snd lc) \<and> log_ok lc"

interpretation logged: conn_invariant "logging C" tls_on for C
  by unfold_locales (auto simp: logging_def tls_on_def log_ok_def split: prod.splits)

definition wantsTls :: "ClientOptions \<Rightarrow> bool" where
  "wantsTls options \<longleftrightarrow> co_ldaps options \<or> co_starttls options"

lemma connect_logged:
  assumes "connectLdap (logging C) (loggingEnv env) options = (err, Some lc)" "wantsTls options"
  shows "log_ok lc \<and> (err = None \<longrightarrow> tls_on lc)"
  using assms unfolding connectLdap_def wantsTls_def
  by (auto simp: logging_def loggingEnv_def log_ok_def tls_on_def split: option.splits prod.splits if_splits)

interpretation run: client_run "logging C" "\<lambda>lc. wantsTls options \<longrightarrow> tls_on lc" "loggingEnv env" options
  "\<lambda>lc. wantsTls options \<longrightarrow> log_ok lc" for C env options
proof
  fix c data and c' :: "'c logged" and err
  show "wantsTls options \<longrightarrow> tls_on (snd (tc_sendAll (logging C) data c))" if "wantsTls options \<longrightarrow> tls_on c"
    using that logged.send_keeps by blast
  show "wantsTls options \<longrightarrow> tls_on (snd (tc_recvPdu (logging C) c))" if "wantsTls options \<longrightarrow> tls_on c"
    using that logged.recv_keeps by blast
  show "(wantsTls options \<longrightarrow> log_ok c) \<and> (err = None \<longrightarrow> wantsTls options \<longrightarrow> tls_on c)"
    if "connectLdap (logging C) (loggingEnv env) options = (err, Some c)"
    using connect_logged [OF that] by blast
  show "wantsTls options \<longrightarrow> log_ok c" if "wantsTls options \<longrightarrow> tls_on c"
    using that by (simp add: tls_on_def)
qed

section \<open>Properties\<close>

text \<open>C15: No password leaves in the clear when TLS was asked for.  Whenever the options of any of the seven tools ask for TLS (\<^verbatim>\<open>-Z\<close> or an
  \<^verbatim>\<open>ldaps\<close> URI), whatever the server answers and wherever the run stops, the only bytes sent before the TLS handshake has succeeded are
  those of the StartTLS request; the bind request, and everything after it, goes out over TLS or not at all.\<close>

theorem tools_send_secrets_over_tls:
  assumes "wantsTls (parseClientArgs passwd args)"
    and "if passwd then r = ldappasswd (logging C) (loggingEnv env) args inp
      else r \<in> {ldapadd (logging C) (loggingEnv env) args inp, ldapmodify (logging C) (loggingEnv env) args inp,
        ldapdelete (logging C) (loggingEnv env) args inp, ldapcompare (logging C) (loggingEnv env) args inp,
        ldapwhoami (logging C) (loggingEnv env) args inp} \<or> ldapsearch (logging C) (loggingEnv env) args inp = Some r"
    and "snd r = Some (c, tls, log)" and "(False, data) \<in> set log"
  shows "data = encodeLdapMessage (makeExtendedRequest 1 kStartTlsOid [])"
proof -
  have "leaves (\<lambda>lc. wantsTls (parseClientArgs passwd args) \<longrightarrow> log_ok lc) r"
    using assms(2) run.tools_leave [OF refl, where args = args and inp = inp and C = C and env = env]
      run.ldappasswd_leaves [OF refl, where args = args and inp = inp and C = C and env = env]
      run.ldapsearch_leaves [OF refl, where args = args and inp = inp and C = C and env = env and r = r] by (auto split: if_splits)
  then have "log_ok (c, tls, log)" using assms(1,3) by (simp add: leaves_def)
  with assms(4) show ?thesis by (auto simp: log_ok_def)
qed

text \<open>A server that answers with given messages.\<close>

definition demoConnection :: "bytes list Connection" where
  "demoConnection =
     \<lparr>tc_sendAll = (\<lambda>data c. (True, c)), tc_recvPdu = (\<lambda>c. case c of [] \<Rightarrow> (None, []) | p # ps \<Rightarrow> (Some p, ps)),
      tc_handshakeTls = (\<lambda>host c. (True, c))\<rparr>"

definition demoClientEnv :: "bytes list ClientEnv" where
  "demoClientEnv =
     \<lparr>ce_connectTo = (\<lambda>host port. Some [encodeLdapMessage (makeLdapResult 1 ExtendedResponse Success []),
        encodeLdapMessage (makeBindResponse 1 Success [] []), encodeLdapMessage (makeLdapResult 1 ExtendedResponse Success [])]),
      ce_initClient = (\<lambda>ca cert key. True), ce_read_file = (\<lambda>path. None), ce_ktname = None,
      ce_crypto = demoCrypto, ce_rng = 0, ce_time = 0\<rparr>"

definition demoWhoAmI :: "bytes list logged tool" where
  "demoWhoAmI = ldapwhoami (logging demoConnection) (loggingEnv demoClientEnv) [''-Z'', ''-D'', ''cn=a'', ''-w'', ''secret''] ([], False)"

theorem tools_send_secrets_over_tls_witness:
  "let log = snd (snd (the (snd demoWhoAmI))) in
   fst demoWhoAmI = Exit 0 (''anonymous'' @ endl) \<and> map fst log = [False, True, True, True] \<and>
   snd (hd log) = encodeLdapMessage (makeExtendedRequest 1 kStartTlsOid [])"
proof -
  obtain c tls log where r: "the (snd demoWhoAmI) = (c, tls, log)" using prod_cases3 by blast
  have some: "snd demoWhoAmI \<noteq> None" by code_simp
  have tls: "wantsTls (parseClientArgs False [''-Z'', ''-D'', ''cn=a'', ''-w'', ''secret''])" by code_simp
  have code: "fst demoWhoAmI = Exit 0 (''anonymous'' @ endl)" by code_simp
  have "map fst (snd (snd (the (snd demoWhoAmI)))) = [False, True, True, True]" by code_simp
  then have l: "map fst log = [False, True, True, True]" by (simp add: r)
  then have "(False, snd (hd log)) \<in> set log" by (cases log) auto
  from tools_send_secrets_over_tls [OF tls _ _ this, of demoWhoAmI demoConnection demoClientEnv "([], False)" c tls] some r
  have "snd (hd log) = encodeLdapMessage (makeExtendedRequest 1 kStartTlsOid [])" by (auto simp: demoWhoAmI_def)
  with code l r show ?thesis by simp
qed

end
