(* ===== verification/Net.thy ===== *)
theory Net
  imports Message
begin

text \<open>
  The byte transport of \<^verbatim>\<open>src/simple-ldapd/utils/net.cpp\<close>: the loops that fill and drain a buffer
  through \<^verbatim>\<open>recv\<close>, \<^verbatim>\<open>send\<close>, \<^verbatim>\<open>SSL_read\<close> and \<^verbatim>\<open>SSL_write\<close>, and the framing of protocol data units.
  What the operating system and OpenSSL answer is an argument: the segments that arrive, the
  sizes that \<^verbatim>\<open>send\<close> takes, and the results of the OpenSSL calls in order.  The lemmas show that
  framing does not depend on how the bytes are cut into segments, that an accepted unit never
  exceeds the configured size, and that a unit written by the encoder is read back whole.
\<close>

section \<open>Plain sockets\<close>

text \<open>The segments still to be received; an empty segment stands for the end of the stream or an
  error.\<close>

type_synonym segments = "bytes list"

fun recv :: "nat \<Rightarrow> segments \<Rightarrow> bytes \<times> segments" where
  "recv want [] = ([], [])"
| "recv want (seg # segs) = (if length seg \<le> want then (seg, segs) else (take want seg, drop want seg # segs))"

lemma recv_size: "length (fst (recv want segs)) \<le> want"
  by (cases segs) auto

text \<open>The loop of \<^verbatim>\<open>recvAll\<close>; \<open>data\<close> is what was got so far, \<open>None\<close> is \<^verbatim>\<open>false\<close>.\<close>

function recvLoop :: "nat \<Rightarrow> segments \<Rightarrow> bytes \<Rightarrow> (bytes \<times> segments) option" where
  "recvLoop sz segs data =
     (if length data < sz then
        (case recv (sz - length data) segs of (chunk, segs) \<Rightarrow>
           if chunk = [] then None else recvLoop sz segs (data @ chunk))
      else Some (data, segs))"
  by pat_completeness auto
termination
  by (relation "measure (\<lambda>(sz, segs, data). sz - length data)") (auto intro!: diff_less_mono2)

declare recvLoop.simps [simp del]

definition recvAll :: "nat \<Rightarrow> segments \<Rightarrow> (bytes \<times> segments) option" where
  "recvAll sz segs = recvLoop sz segs []"

text \<open>The loop of \<^verbatim>\<open>sendAllBytes\<close>: the argument is how many bytes each call takes, zero or less for an
  error; the result is whether all was sent, and what was.\<close>

fun sendLoop :: "bytes \<Rightarrow> int list \<Rightarrow> bytes \<Rightarrow> bool \<times> bytes" where
  "sendLoop [] takes sent = (True, sent)"
| "sendLoop data [] sent = (False, sent)"
| "sendLoop data (n # takes) sent =
     (if n \<le> 0 then (False, sent)
      else sendLoop (drop (nat n) data) takes (sent @ take (nat n) data))"

definition sendAllBytes :: "bytes \<Rightarrow> int list \<Rightarrow> bool \<times> bytes" where
  "sendAllBytes data takes = sendLoop data takes []"

section \<open>TLS\<close>

text \<open>What a call of \<^verbatim>\<open>SSL_read\<close>, \<^verbatim>\<open>SSL_write\<close> or \<^verbatim>\<open>SSL_accept\<close> answers: progress (the bytes read, the number
  written, or a finished handshake), the wish to wait for the socket together with what
  \<^verbatim>\<open>poll\<close> then says, or a failure.\<close>

datatype 'a SslResult = SslDone 'a | WantRead bool | WantWrite bool | SslFailed

definition sslWait :: "'a SslResult \<Rightarrow> bool" where
  "sslWait result =
     (case result of WantRead readable \<Rightarrow> readable | WantWrite writable \<Rightarrow> writable | _ \<Rightarrow> False)"

text \<open>The loops; running out of results stands for a call that never returns.\<close>

fun sslHandshake :: "unit SslResult list \<Rightarrow> bool option" where
  "sslHandshake [] = None"
| "sslHandshake (SslDone _ # results) = Some True"
| "sslHandshake (result # results) = (if \<not> sslWait result then Some False else sslHandshake results)"

fun sslRecvAll :: "nat \<Rightarrow> bytes SslResult list \<Rightarrow> bytes \<Rightarrow> (bool \<times> bytes \<times> bytes SslResult list) option" where
  "sslRecvAll sz results data =
     (if length data < sz then
        (case results of
           [] \<Rightarrow> None
         | SslDone chunk # results \<Rightarrow>
             if chunk = [] then Some (False, data, results)
             else sslRecvAll sz results (data @ take (sz - length data) chunk)
         | result # results \<Rightarrow>
             if \<not> sslWait result then Some (False, data, results) else sslRecvAll sz results data)
      else Some (True, data, results))"

fun sslSendAll :: "bytes \<Rightarrow> nat SslResult list \<Rightarrow> bytes \<Rightarrow> (bool \<times> bytes) option" where
  "sslSendAll [] results sent = Some (True, sent)"
| "sslSendAll data [] sent = None"
| "sslSendAll data (SslDone n # results) sent =
     (if n = 0 then Some (False, sent) else sslSendAll (drop n data) results (sent @ take n data))"
| "sslSendAll data (result # results) sent =
     (if \<not> sslWait result then Some (False, sent) else sslSendAll data results sent)"

section \<open>Framing\<close>

text \<open>\<^verbatim>\<open>recvPdu\<close> over the function that fetches an exact number of bytes from a connection, \<^verbatim>\<open>recvExact\<close>;
  \<open>None\<close> is \<^verbatim>\<open>false\<close>.  First the tag and the length, then the limit and the contents.\<close>

definition pduHeader ::
  "(nat \<Rightarrow> 'c \<Rightarrow> (bytes \<times> 'c) option) \<Rightarrow> 'c \<Rightarrow> (bytes \<times> nat \<times> 'c) option" where
  "pduHeader recvExact c =
     (case recvExact 2 c of
        None \<Rightarrow> None
      | Some (pre, c) \<Rightarrow>
          if (pre ! 1) AND 0x80 = 0 then Some (pre, unat (pre ! 1), c)
          else let count = unat ((pre ! 1) AND 0x7f) in
            if count = 0 \<or> count > 4 then None
            else (case recvExact count c of
                    None \<Rightarrow> None
                  | Some (raw, c) \<Rightarrow> Some (pre @ raw, foldl (\<lambda>len b. push_bit 8 len OR unat b) 0 raw, c)))"

definition recvPdu ::
  "(nat \<Rightarrow> 'c \<Rightarrow> (bytes \<times> 'c) option) \<Rightarrow> nat \<Rightarrow> 'c \<Rightarrow> (bytes \<times> 'c) option" where
  "recvPdu recvExact max_pdu_size c =
     (case pduHeader recvExact c of
        None \<Rightarrow> None
      | Some (pdu, len, c) \<Rightarrow>
          if max_pdu_size = 0 \<or> len > max_pdu_size then None
          else if len = 0 then Some (pdu, c)
          else (case recvExact len c of None \<Rightarrow> None | Some (body, c) \<Rightarrow> Some (pdu @ body, c)))"

definition fetchList :: "nat \<Rightarrow> bytes \<Rightarrow> (bytes \<times> bytes) option" where
  "fetchList n s = (if n \<le> length s then Some (take n s, drop n s) else None)"

text \<open>A source of bytes: what it still holds is \<open>pending\<close>, and a fetch takes exactly the wanted number
  from its front, or fails when there are fewer.\<close>

locale byte_stream =
  fixes fetch :: "nat \<Rightarrow> 'c \<Rightarrow> (bytes \<times> 'c) option"
    and pending :: "'c \<Rightarrow> bytes"
  assumes fetch_Some: "fetch n c = Some (d, c') \<Longrightarrow> n \<le> length (pending c) \<and> d = take n (pending c) \<and> pending c' = drop n (pending c)"
    and fetch_None: "fetch n c = None \<Longrightarrow> length (pending c) < n"
begin

lemma fetch_stream: "map_option (\<lambda>(d, c'). (d, pending c')) (fetch n c) = fetchList n (pending c)"
  using fetch_Some [of n c] fetch_None [of n c] by (cases "fetch n c") (auto simp: fetchList_def)

lemma fetch_Some_stream: "fetch n c = Some (d, c') \<Longrightarrow> fetchList n (pending c) = Some (d, pending c')"
  using fetch_stream [of n c] by simp

lemma fetch_None_stream: "fetch n c = None \<Longrightarrow> fetchList n (pending c) = None"
  using fetch_stream [of n c] by simp

text \<open>The result depends only on the pending bytes.\<close>

lemma pduHeader_stream:
  "map_option (\<lambda>(pdu, len, c'). (pdu, len, pending c')) (pduHeader fetch c) = pduHeader fetchList (pending c)"
proof (cases "fetch 2 c")
  case None
  then show ?thesis using fetch_None_stream [OF None] by (simp add: pduHeader_def)
next
  case (Some p)
  then obtain pre c1 where p: "fetch 2 c = Some (pre, c1)" by (cases p) simp
  let ?count = "unat ((pre ! 1) AND 0x7f)"
  show ?thesis
    using p fetch_Some_stream [OF p] fetch_Some_stream [of ?count c1] fetch_None_stream [of ?count c1]
    by (cases "fetch ?count c1") (auto simp: pduHeader_def Let_def)
qed

lemma recvPdu_stream:
  "map_option (\<lambda>(pdu, c'). (pdu, pending c')) (recvPdu fetch mx c) = recvPdu fetchList mx (pending c)"
proof (cases "pduHeader fetch c")
  case None
  then show ?thesis using pduHeader_stream [of c] by (simp add: recvPdu_def)
next
  case (Some p)
  then obtain pdu len c1 where p: "pduHeader fetch c = Some (pdu, len, c1)" by (cases p) simp
  then have q: "pduHeader fetchList (pending c) = Some (pdu, len, pending c1)" using pduHeader_stream [of c] by simp
  show ?thesis
    using fetch_Some_stream [of len c1] fetch_None_stream [of len c1] p q
    by (cases "fetch len c1") (auto simp: recvPdu_def)
qed

end

lemma fetchList_Some: "fetchList n t = Some (d, t') \<Longrightarrow> t = d @ t' \<and> length d = n"
  by (auto simp: fetchList_def split: if_splits)

lemma pduHeader_list:
  assumes "pduHeader fetchList s = Some (pdu, len, s')"
  shows "s = pdu @ s' \<and> 2 \<le> length pdu \<and> length pdu \<le> 6"
  using assms
  by (auto simp: pduHeader_def Let_def dest!: fetchList_Some split: option.splits if_splits prod.splits)

lemma recvPdu_list:
  assumes "recvPdu fetchList mx s = Some (pdu, s')"
  shows "s = pdu @ s' \<and> 2 \<le> length pdu \<and> length pdu \<le> mx + 6"
  using assms
  by (auto simp: recvPdu_def dest!: fetchList_Some pduHeader_list split: option.splits if_splits prod.splits)

section \<open>Sockets are byte streams\<close>

definition socketBytes :: "segments \<Rightarrow> bytes" where
  "socketBytes segs = concat (takeWhile (\<lambda>seg. seg \<noteq> []) segs)"

lemma recvLoop_stream:
  "length data \<le> sz \<Longrightarrow>
   map_option (\<lambda>(d, s). (d, socketBytes s)) (recvLoop sz segs data) =
     map_option (\<lambda>(d, s). (data @ d, s)) (fetchList (sz - length data) (socketBytes segs))"
proof (induction sz segs data rule: recvLoop.induct)
  case (1 sz segs data)
  show ?case
  proof (cases "length data < sz")
    case False
    with "1.prems" show ?thesis by (simp add: recvLoop.simps [of sz segs data] fetchList_def)
  next
    case True
    obtain chunk segs' where r: "recv (sz - length data) segs = (chunk, segs')" by fastforce
    show ?thesis
    proof (cases "chunk = []")
      case empty: True
      have "socketBytes segs = []"
        using r empty True by (cases segs) (auto simp: socketBytes_def split: if_splits)
      with True empty r show ?thesis by (simp add: recvLoop.simps [of sz segs data] fetchList_def)
    next
      case False
      have len: "length chunk \<le> sz - length data" using recv_size [of "sz - length data" segs] r by simp
      have "socketBytes segs = chunk @ socketBytes segs'"
        using r False by (cases segs) (auto simp: socketBytes_def split: if_splits)
      with "1.IH" [OF True r [symmetric] False] True False r len show ?thesis
        by (auto simp: recvLoop.simps [of sz segs data] fetchList_def)
    qed
  qed
qed

lemma recvAll_stream: "map_option (\<lambda>(d, s). (d, socketBytes s)) (recvAll n segs) = fetchList n (socketBytes segs)"
  using recvLoop_stream [of "[]" n segs] by (simp add: recvAll_def option.map_id)

interpretation socket: byte_stream recvAll socketBytes
proof unfold_locales
  fix n c d c'
  show "recvAll n c = Some (d, c') \<Longrightarrow> n \<le> length (socketBytes c) \<and> d = take n (socketBytes c) \<and> socketBytes c' = drop n (socketBytes c)"
    using recvAll_stream [of n c] by (auto simp: fetchList_def split: if_splits)
  show "recvAll n c = None \<Longrightarrow> length (socketBytes c) < n"
    using recvAll_stream [of n c] by (auto simp: fetchList_def split: if_splits)
qed


section \<open>Units of the encoder\<close>

lemma pduHeader_readTagLength:
  assumes "readTagLength (mkReader s) = (Some (tag, len), r)"
  shows "pduHeader fetchList s = Some (take (rd_offset r) s, len, drop (rd_offset r) s)"
proof -
  obtain a b t where s: "s = a # b # t"
    using assms by (cases s rule: remdups_adj.cases)
      (auto simp: readTagLength_def readLength_def rbind_def consume_def mkReader_def rfail_def)
  show ?thesis using assms
    by (auto simp: s readTagLength_def readLength_def rbind_def consume_def mkReader_def rfail_def pduHeader_def
        fetchList_def Let_def take_Cons' drop_Cons' split: if_splits)
qed

lemma pduHeader_encode:
  assumes "n < 2 ^ 32"
  shows "pduHeader fetchList (tag # encodeLength n @ ys) = Some (tag # encodeLength n, n, ys)"
proof -
  let ?s = "tag # encodeLength n @ ys"
  have wf: "rd_wf (mkReader ?s)" and "rest (mkReader ?s) = (tag # encodeLength n) @ ys"
    by (simp_all add: mkReader_def rd_wf_def rest_def)
  with parses_readTagLength [OF assms, of tag] obtain r where
    r: "readTagLength (mkReader ?s) = (Some (tag, n), r)" "rd_wf r" "rest r = ys"
    unfolding parses_def by blast
  have "rd_data r = ?s" using advancesD [OF advances_readTagLength wf r(1)] by (simp add: mkReader_def)
  with r(3) have d: "drop (rd_offset r) ?s = ys" by (simp add: rest_def)
  have "take (rd_offset r) ?s @ ys = (tag # encodeLength n) @ ys"
    using append_take_drop_id [of "rd_offset r" ?s] unfolding d by simp
  then have "take (rd_offset r) ?s = tag # encodeLength n" by (rule append_same_eq [THEN iffD1])
  with d have "take (rd_offset r) ?s = tag # encodeLength n" "drop (rd_offset r) ?s = ys" by blast+
  then show ?thesis using pduHeader_readTagLength [OF r(1)] by simp
qed

lemma recvPdu_tlv:
  assumes "length content \<le> mx" "mx < 2 ^ 32" "0 < mx"
  shows "recvPdu fetchList mx (tlv tag content @ ys) = Some (tlv tag content, ys)"
  using pduHeader_encode [of "length content" tag "content @ ys"] assms
  by (simp add: recvPdu_def tlv_def fetchList_def)

lemma sendLoop_sent:
  "sendLoop data takes sent = (ok, out) \<Longrightarrow> \<exists>n. out = sent @ take n data \<and> (ok \<longrightarrow> out = sent @ data)"
proof (induction data takes sent rule: sendLoop.induct)
  case (3 b data n takes sent)
  show ?case
  proof (cases "n \<le> 0")
    case True
    with 3(2) show ?thesis by (auto intro: exI [of _ 0])
  next
    case False
    with 3 obtain k where "out = (sent @ take (nat n) (b # data)) @ take k (drop (nat n) (b # data))"
        "ok \<longrightarrow> out = (sent @ take (nat n) (b # data)) @ drop (nat n) (b # data)" by auto
    then show ?thesis by (intro exI [of _ "nat n + k"]) (simp add: take_add)
  qed
qed (auto intro: exI [of _ 0])

section \<open>Properties\<close>

text \<open>C31: Framing is independent of segmentation: whatever segments the bytes of the peer arrive in,
  the unit that is read, or the failure, is the one that the concatenated stream determines,
  and what stays behind for the next unit is too.\<close>

theorem framing_segmentation:
  "map_option (\<lambda>(pdu, segs'). (pdu, socketBytes segs')) (recvPdu recvAll max_pdu_size segs) =
     recvPdu fetchList max_pdu_size (socketBytes segs)"
  by (rule socket.recvPdu_stream)

text \<open>C32: A unit that is accepted has at most the configured number of content bytes and a header of
  at most six, so a session never allocates more for it, and it is exactly the front of what
  the peer sent.\<close>

theorem pdu_size_bound:
  assumes "recvPdu recvAll max_pdu_size segs = Some (pdu, segs')"
  shows "length pdu \<le> max_pdu_size + 6 \<and> socketBytes segs = pdu @ socketBytes segs'"
  using recvPdu_list [of max_pdu_size "socketBytes segs" pdu "socketBytes segs'"]
    socket.recvPdu_stream [of max_pdu_size segs] assms by simp

theorem pdu_size_bound_witness:
  "length [0x30 :: byte, 2, 5, 0] \<le> 10 + 6 \<and>
   socketBytes [[0x30, 2], [5], [0, 7]] = [0x30, 2, 5, 0] @ socketBytes [[7]]"
proof (rule pdu_size_bound)
  show "recvPdu recvAll 10 [[0x30, 2], [5], [0, 7]] = Some ([0x30, 2, 5, 0], [[7 :: byte]])"
    by (simp add: recvPdu_def pduHeader_def recvAll_def recvLoop.simps)
qed

lemma recvPdu_encoded:
  assumes "length (encodeLdapMessage m) \<le> max_pdu_size" "max_pdu_size < 2 ^ 32"
  shows "recvPdu fetchList max_pdu_size (encodeLdapMessage m @ ys) = Some (encodeLdapMessage m, ys)"
proof -
  obtain body where e: "encodeLdapMessage m = tlv kBerSequence body"
    by (simp add: encodeLdapMessage_def Let_def write_simps)
  with assms(1) have "length body \<le> max_pdu_size" "0 < max_pdu_size" by (simp_all add: tlv_def)
  with assms(2) show ?thesis unfolding e by (intro recvPdu_tlv)
qed

text \<open>The frames of the encoder are read back one by one: when a message that fits the limit is
  at the front of the stream, the next unit is exactly its encoding and the rest of the
  stream is untouched.\<close>

lemma encoded_message_framed:
  assumes "length (encodeLdapMessage m) \<le> max_pdu_size" "max_pdu_size < 2 ^ 32"
  shows "recvPdu fetchList max_pdu_size (encodeLdapMessage m @ ys) = Some (encodeLdapMessage m, ys)"
  using assms by (rule recvPdu_encoded)

end
