(* ===== verification/EndToEnd.thy ===== *)
theory EndToEnd
  imports ClientSafety SessionSafety Net
begin

text \<open>
  The clients against the server.  \<open>serverConnection\<close> is a connection whose other end is a session of the server: what a client
  sends is framed, decoded and served by one round of \<^verbatim>\<open>Session::serve\<close>, and the messages the session sends come back as one
  stream of bytes.  The lemmas follow a request through encoder, framing, decoder and handler and back.
\<close>

section \<open>A connection to a session\<close>

record 's Served =
  sc_session :: Session
  sc_world :: "'s World"
  sc_open :: bool
  sc_stream :: bytes

definition serverSend :: "'s Server \<Rightarrow> Env \<Rightarrow> bytes \<Rightarrow> 's Served \<Rightarrow> bool \<times> 's Served" where
  "serverSend sv env data s =
     (if \<not> sc_open s then (False, s)
      else case recvPdu fetchList (unat (cf_max_pdu_size (sv_config sv))) data of
        None \<Rightarrow> (True, s\<lparr>sc_open := False\<rparr>)
      | Some (pdu, _) \<Rightarrow>
          (case serveRound sv (Received 0 pdu env) 0 (sc_session s) (sc_world s) of (_, outcome, out, se, wo) \<Rightarrow>
             (True, s\<lparr>sc_session := se, sc_world := wo, sc_open := (outcome = Continue),
                      sc_stream := sc_stream s @ concat (map encodeLdapMessage out)\<rparr>)))"

definition serverRecv :: "'s Served \<Rightarrow> bytes option \<times> 's Served" where
  "serverRecv s =
     (case recvPdu fetchList (1024 * 1024) (sc_stream s) of
        None \<Rightarrow> (None, s)
      | Some (pdu, stream) \<Rightarrow> (Some pdu, s\<lparr>sc_stream := stream\<rparr>))"

definition serverConnection :: "'s Server \<Rightarrow> Env \<Rightarrow> 's Served Connection" where
  "serverConnection sv env =
     \<lparr>tc_sendAll = serverSend sv env, tc_recvPdu = serverRecv, tc_handshakeTls = (\<lambda>host s. (tp_tls (se_tls (sc_session s)), s))\<rparr>"

section \<open>Answers have named codes\<close>

lemma named_codes [simp]:
  "resultCode_ok Success" "resultCode_ok OperationsError" "resultCode_ok ProtocolError" "resultCode_ok CompareTrue"
  "resultCode_ok CompareFalse" "resultCode_ok InvalidAttributeSyntax" "resultCode_ok AttributeOrValueExists"
  "resultCode_ok NoSuchAttribute" "resultCode_ok ObjectClassViolation" "resultCode_ok NoSuchObject"
  "resultCode_ok InsufficientAccessRights" "resultCode_ok NamingViolation" "resultCode_ok NotAllowedOnNonLeaf"
  "resultCode_ok EntryAlreadyExists" "resultCode_ok InvalidDnSyntax" "resultCode_ok UndefinedAttributeType" "resultCode_ok ConstraintViolation"
  by (simp_all add: resultCode_ok_def)

lemma applyChange_code: "resultCode_ok (fst (applyChange ch attrs))"
  by (simp add: applyChange_def Let_def split: ModifyOp.split option.split prod.split)

lemma applyChanges_code: "resultCode_ok (fst (applyChanges chs attrs))"
proof (induction chs arbitrary: attrs)
  case (Cons ch chs)
  then show ?case using applyChange_code [of ch attrs] by (auto split: prod.split)
qed simp

lemma applyModifications_code: "resultCode_ok (fst (applyModifications e chs))"
  using applyChanges_code by (simp add: applyModifications_def case_prod_beta)

lemma validateAttributes_code: "resultCode_ok (fst (validateAttributes reg allowed attrs))"
proof (induction attrs)
  case (Cons p attrs)
  have "resultCode_ok (fst (validateAttribute reg allowed p))"
    by (cases p) (simp add: validateAttribute_def Let_def split: option.split)
  with Cons show ?case by (simp add: Let_def)
qed simp

lemma validateEntry_code: "resultCode_ok (fst (validateEntry reg e))"
  using validateAttributes_code
  by (simp add: validateEntry_def Let_def split: option.split sum.split)

lemma checkSchema_code: "resultCode_ok (fst (checkSchema sv e))"
  using validateEntry_code by (simp add: checkSchema_def split: option.split)

lemma rdn_codes: "resultCode_ok (fst (removeOldRdn q e))" "resultCode_ok (fst (addNewRdn q e))"
  by (auto simp: removeOldRdn_def addNewRdn_def applyModifications_code case_prod_beta split: option.split)

section \<open>Calls\<close>

datatype call = CAdd DirectoryEntry | CModify string "AttributeModification list" | CDelete string
  | CRename ModifyDnRequestData | CCompare CompareRequestData

fun callMessage :: "call \<Rightarrow> int32 \<Rightarrow> LdapMessage" where
  "callMessage (CAdd e) i = makeAddRequest i (toAddRequest e)"
| "callMessage (CModify dn chs) i = makeModifyRequest i \<lparr>md_dn = dn, md_changes = chs\<rparr>"
| "callMessage (CDelete dn) i = makeDelRequest i dn"
| "callMessage (CRename d) i = makeModifyDnRequest i d"
| "callMessage (CCompare q) i = makeCompareRequest i q"

fun callOp :: "call \<Rightarrow> ProtocolOp" where
  "callOp (CAdd e) = AddResponse"
| "callOp (CModify dn chs) = ModifyResponse"
| "callOp (CDelete dn) = DelResponse"
| "callOp (CRename d) = ModifyDNResponse"
| "callOp (CCompare q) = CompareResponse"

fun clientCall :: "'c Connection \<Rightarrow> call \<Rightarrow> 'c LdapClient \<Rightarrow> ResultCode \<times> 'c LdapClient" where
  "clientCall C (CAdd e) = client_add C e"
| "clientCall C (CModify dn chs) = client_modify C dn chs"
| "clientCall C (CDelete dn) = client_del C dn"
| "clientCall C (CRename d) = client_modifyDn C d"
| "clientCall C (CCompare q) = client_compare C q"

definition call_ok :: "call \<Rightarrow> bool" where
  "call_ok cl \<longleftrightarrow> (case cl of CModify dn chs \<Rightarrow> list_all (\<lambda>ch. op_ok (am_op ch)) chs | _ \<Rightarrow> True)"

text \<open>The handler of a call, on the server.\<close>

fun handlerCall :: "'s Server \<Rightarrow> call \<Rightarrow> int32 \<Rightarrow> Session \<Rightarrow> 's World \<Rightarrow> LdapMessage \<times> 's World" where
  "handlerCall sv (CAdd e) i se wo = handleAdd sv (callMessage (CAdd e) i) se wo"
| "handlerCall sv (CModify dn chs) i se wo = handleModify sv (callMessage (CModify dn chs) i) se wo"
| "handlerCall sv (CDelete dn) i se wo = handleDelete sv (callMessage (CDelete dn) i) se wo"
| "handlerCall sv (CRename d) i se wo = handleModifyDn sv (callMessage (CRename d) i) se wo"
| "handlerCall sv (CCompare q) i se wo = (handleCompare sv (callMessage (CCompare q) i) se wo, wo)"

lemmas make_requests = makeAddRequest_def makeModifyRequest_def makeDelRequest_def makeModifyDnRequest_def makeCompareRequest_def

lemma clientCall_request: "clientCall C cl = clientRequest C (callMessage cl) (callOp cl)"
  by (cases cl) (simp_all add: client_add_def client_modify_def client_del_def client_modifyDn_def client_compare_def fun_eq_iff clientRequest_def)

lemma callMessage_normal: "call_ok cl \<Longrightarrow> message_normal (callMessage cl i)"
  by (cases cl) (simp_all add: make_requests message_normal_def call_ok_def Let_def defaultMessage_def list_all_iff)

lemma dispatch_call: "processRequest sv env (callMessage cl i) se wo =
    (case handlerCall sv cl i se wo of (response, wo) \<Rightarrow> deliver env [response] se wo)"
  by (cases cl) (simp_all add: processRequest_def dispatch_def make_requests Let_def case_prod_beta)

lemma result_normal: "resultCode_ok code \<Longrightarrow> op \<in> {AddResponse, ModifyResponse, DelResponse, ModifyDNResponse, CompareResponse} \<Longrightarrow>
    message_normal (makeLdapResult i op code diag) \<and> msg_op (makeLdapResult i op code diag) = op"
  by (auto simp: message_normal_def makeLdapResult_def Let_def defaultMessage_def)

definition answers :: "call \<Rightarrow> int32 \<Rightarrow> LdapMessage \<Rightarrow> bool" where
  "answers cl i m \<longleftrightarrow> (\<exists>code diag. m = makeLdapResult i (callOp cl) code diag \<and> resultCode_ok code)"

lemma answersI [intro]: "resultCode_ok code \<Longrightarrow> answers cl i (makeLdapResult i (callOp cl) code diag)"
  by (auto simp: answers_def)

lemma answers_normal: "answers cl i m \<Longrightarrow> message_normal m \<and> msg_op m = callOp cl"
  using result_normal by (cases cl) (auto simp: answers_def)

lemma answers_cond: "op = callOp cl \<Longrightarrow> resultCode_ok code \<Longrightarrow> answers cl i (makeLdapResult i op code diag)"
  by auto

lemma handler_answers: "answers cl i (fst (handlerCall sv cl i se wo))"
proof (cases cl)
  case (CAdd e)
  then show ?thesis
    by (simp add: handleAdd_def make_requests Let_def case_prod_beta answers_cond checkSchema_code split: option.split)
next
  case (CModify dn chs)
  then show ?thesis
    by (simp add: handleModify_def make_requests Let_def case_prod_beta answers_cond checkSchema_code applyModifications_code
        split: option.split)
next
  case (CDelete dn)
  then show ?thesis
    by (simp add: handleDelete_def make_requests Let_def case_prod_beta answers_cond)
next
  case (CRename d)
  then show ?thesis
    by (simp add: handleModifyDn_def make_requests Let_def case_prod_beta answers_cond checkSchema_code rdn_codes split: option.split)
next
  case (CCompare q)
  then show ?thesis
    by (simp add: handleCompare_def make_requests Let_def answers_cond split: option.split)
qed

lemma sent_and_received:
  assumes "message_normal m" "length (encodeLdapMessage m) \<le> 1024 * 1024"
  shows "serverRecv (s\<lparr>sc_stream := encodeLdapMessage m\<rparr>) = (Some (encodeLdapMessage m), s\<lparr>sc_stream := []\<rparr>)"
    "decodeLdapMessage (encodeLdapMessage m) = Some m"
proof -
  have "recvPdu fetchList (1024 * 1024) (encodeLdapMessage m @ []) = Some (encodeLdapMessage m, [])"
    using assms(2) by (intro recvPdu_encoded) simp_all
  then show "serverRecv (s\<lparr>sc_stream := encodeLdapMessage m\<rparr>) = (Some (encodeLdapMessage m), s\<lparr>sc_stream := []\<rparr>)"
    by (simp add: serverRecv_def)
  show "decodeLdapMessage (encodeLdapMessage m) = Some m"
    using assms by (intro decode_encode_message) (simp_all add: fits_def)
qed

text \<open>One call: the result of the handler, its effect on the server, and nothing left over.\<close>

lemma call_served:
  assumes "sc_open s" "sc_stream s = []" "call_ok cl" "0 < en_sends env"
    and "length (encodeLdapMessage (callMessage cl i)) \<le> unat (cf_max_pdu_size (sv_config sv))"
    and "length (encodeLdapMessage (fst (handlerCall sv cl i (sc_session s) (sc_world s)))) \<le> 1024 * 1024"
  shows "clientCall (serverConnection sv env) cl (i, s) =
    (case handlerCall sv cl i (sc_session s) (sc_world s) of (response, wo) \<Rightarrow> (msg_result response, i + 1, s\<lparr>sc_world := wo\<rparr>))"
proof -
  obtain response wo where h: "handlerCall sv cl i (sc_session s) (sc_world s) = (response, wo)" by fastforce
  let ?m = "callMessage cl i"
  have normal: "message_normal response" "msg_op response = callOp cl"
    using answers_normal [OF handler_answers [of cl i sv "sc_session s" "sc_world s"]] h by simp_all
  have size: "unat (cf_max_pdu_size (sv_config sv)) < 2 ^ 32" using unsigned_less [where w = "cf_max_pdu_size (sv_config sv)", where 'a = nat] by simp
  have "recvPdu fetchList (unat (cf_max_pdu_size (sv_config sv))) (encodeLdapMessage ?m @ []) = Some (encodeLdapMessage ?m, [])"
    using assms(5) size by (rule recvPdu_encoded)
  moreover have "decodeLdapMessage (encodeLdapMessage ?m) = Some ?m"
    using callMessage_normal [OF assms(3)] assms(5) size by (intro decode_encode_message) (simp_all add: fits_def)
  ultimately have "serverSend sv env (encodeLdapMessage ?m) s = (True, s\<lparr>sc_world := wo, sc_stream := encodeLdapMessage response\<rparr>)"
    using assms(1,2,4) by (simp add: serverSend_def serveRound_def dispatch_call h deliver_def take_Cons')
  moreover note sent_and_received(1) [OF normal(1), of "s\<lparr>sc_world := wo\<rparr>"] sent_and_received(2) [OF normal(1)]
  ultimately show ?thesis using assms(2,6) normal(2)
    by (simp add: clientCall_request clientRequest_def exchange_def serverConnection_def h)
qed

section \<open>Sequences of calls\<close>

text \<open>A client makes its calls one after the other on the same connection; the server's side is its handlers, in the same order,
  with the message identifiers the client counts.\<close>

fun clientCalls :: "'c Connection \<Rightarrow> call list \<Rightarrow> 'c LdapClient \<Rightarrow> ResultCode list \<times> 'c LdapClient" where
  "clientCalls C [] c = ([], c)"
| "clientCalls C (cl # cls) c =
     (case clientCall C cl c of (code, c) \<Rightarrow> case clientCalls C cls c of (codes, c) \<Rightarrow> (code # codes, c))"

fun handlerCalls :: "'s Server \<Rightarrow> call list \<Rightarrow> int32 \<Rightarrow> Session \<Rightarrow> 's World \<Rightarrow> ResultCode list \<times> 's World" where
  "handlerCalls sv [] i se wo = ([], wo)"
| "handlerCalls sv (cl # cls) i se wo =
     (case handlerCall sv cl i se wo of (response, wo) \<Rightarrow>
        case handlerCalls sv cls (i + 1) se wo of (codes, wo) \<Rightarrow> (msg_result response # codes, wo))"

text \<open>Every request is within the server's limit and every answer within the client's.\<close>

fun calls_fit :: "'s Server \<Rightarrow> call list \<Rightarrow> int32 \<Rightarrow> Session \<Rightarrow> 's World \<Rightarrow> bool" where
  "calls_fit sv [] i se wo = True"
| "calls_fit sv (cl # cls) i se wo \<longleftrightarrow>
     call_ok cl \<and> length (encodeLdapMessage (callMessage cl i)) \<le> unat (cf_max_pdu_size (sv_config sv)) \<and>
     (case handlerCall sv cl i se wo of (response, wo) \<Rightarrow>
        length (encodeLdapMessage response) \<le> 1024 * 1024 \<and> calls_fit sv cls (i + 1) se wo)"

lemma demo_handleAdd:
  "handlerCall demoServer (CAdd (plainEntry ''ou=x'')) 7 rootSession (demoWorld []) =
     (makeLdapResult 7 AddResponse Success [], demoWorld [(''ou=x'', plainEntry ''ou=x'')])"
proof -
  have "callMessage (CAdd (plainEntry ''ou=x'')) 7 = demoAdd"
    by (simp add: demoAdd_def plainEntry_def toAddRequest_def)
  then show ?thesis using demo_add dispatch_call [of demoServer demoEnv "CAdd (plainEntry ''ou=x'')" 7 rootSession "demoWorld []"]
    by (auto simp: deliver_def demoEnv_def split: prod.splits)
qed

lemma demo_handleDelete:
  "handlerCall demoServer (CDelete ''ou=x'') 8 rootSession (demoWorld [(''ou=x'', plainEntry ''ou=x'')]) =
     (makeLdapResult 8 DelResponse Success [], demoWorld [])"
  by (simp add: handleDelete_def make_requests Let_def memoryBackend_def mem_lookup_def mem_remove_def persisted_def demoWorld_def plainEntry_def
      mem_hasChildren_def dnIsOneLevelChild_def dnParent_no_comma)

section \<open>Properties\<close>

text \<open>C14: Client and server agree: a client that makes any sequence of add, modify, delete, rename and compare calls on a connection to a
  session gets exactly the result codes that the handlers of the server give for these requests, one after the other on the same
  directory, and leaves the directory as the handlers leave it; no byte of an answer is left over, whatever the requests hold and
  whether they are carried out or refused, as long as they fit the size limits of both ends.\<close>

theorem client_calls_are_served:
  assumes "sc_open s" "sc_stream s = []" "0 < en_sends env" "calls_fit sv cls i (sc_session s) (sc_world s)"
  shows "clientCalls (serverConnection sv env) cls (i, s) =
    (case handlerCalls sv cls i (sc_session s) (sc_world s) of (codes, wo) \<Rightarrow> (codes, i + of_nat (length cls), s\<lparr>sc_world := wo\<rparr>))"
  using assms
proof (induction cls arbitrary: i s)
  case (Cons cl cls)
  obtain response wo where h: "handlerCall sv cl i (sc_session s) (sc_world s) = (response, wo)" by fastforce
  have "clientCall (serverConnection sv env) cl (i, s) = (msg_result response, i + 1, s\<lparr>sc_world := wo\<rparr>)"
    using Cons.prems h by (subst call_served) simp_all
  moreover note Cons.IH [of "s\<lparr>sc_world := wo\<rparr>" "i + 1"]
  ultimately show ?case using Cons.prems h
    by (simp add: split: prod.split)
qed simp

theorem client_calls_are_served_witness:
  "clientCalls (serverConnection demoServer demoEnv) [CAdd (plainEntry ''ou=x''), CDelete ''ou=x'']
     (7, \<lparr>sc_session = rootSession, sc_world = demoWorld [], sc_open = True, sc_stream = []\<rparr>) =
   ([Success, Success], 9, \<lparr>sc_session = rootSession, sc_world = demoWorld [], sc_open = True, sc_stream = []\<rparr>)"
proof -
  let ?s = "\<lparr>sc_session = rootSession, sc_world = demoWorld [], sc_open = True, sc_stream = []\<rparr>"
  let ?cls = "[CAdd (plainEntry ''ou=x''), CDelete ''ou=x'']"
  have "length (encodeLdapMessage (callMessage (CAdd (plainEntry ''ou=x'')) 7)) \<le> 100"
      "length (encodeLdapMessage (callMessage (CDelete ''ou=x'') 8)) \<le> 100"
      "length (encodeLdapMessage (makeLdapResult 7 AddResponse Success [])) \<le> 100"
      "length (encodeLdapMessage (makeLdapResult 8 DelResponse Success [])) \<le> 100"
    by code_simp+
  moreover have "cf_max_pdu_size (sv_config demoServer) = 1024 * 1024" by (simp add: demoServer_def defaultConfig_def)
  ultimately have fit: "calls_fit demoServer ?cls 7 rootSession (demoWorld [])"
    by (simp add: demo_handleAdd demo_handleDelete call_ok_def del: callMessage.simps handlerCall.simps)
  have "handlerCalls demoServer ?cls 7 rootSession (demoWorld []) = ([Success, Success], demoWorld [])"
    by (simp add: demo_handleAdd demo_handleDelete makeLdapResult_def Let_def del: handlerCall.simps)
  then show ?thesis using client_calls_are_served [of ?s demoEnv demoServer ?cls 7] fit
    by (simp add: demoEnv_def)
qed

end
