(* ===== verification/Transport.thy ===== *)
theory Transport
  imports Net Sasl CppStd
begin

text \<open>
  Connections, listeners and the TLS context: the rest of \<^verbatim>\<open>src/simple-ldapd/utils/net.cpp\<close>, and
  \<^verbatim>\<open>src/simple-ldapd/security/tls.cpp\<close>.  OpenSSL is the argument \<open>OpenSsl\<close>, a record of the functions the code calls, over a type
  of contexts and a type of connections; \<open>openssl_laws\<close> names what its documentation promises of them.  The results of system calls are
  arguments too.  The sockets the process holds open are a list that every operation passes on, so that the lemmas can
  account for them.  They show that no operation leaks a socket, that a context is made with TLS 1.2 or later, and that a server
  which demands client certificates serves no TLS connection without one.
\<close>

section \<open>OpenSSL\<close>

datatype SslOption = NO_SSLv2 | NO_SSLv3 | NO_COMPRESSION

definition SSL_VERIFY_NONE :: int32 where "SSL_VERIFY_NONE = 0"
definition SSL_VERIFY_PEER :: int32 where "SSL_VERIFY_PEER = 1"
definition SSL_VERIFY_FAIL_IF_NO_PEER_CERT :: int32 where "SSL_VERIFY_FAIL_IF_NO_PEER_CERT = 2"
definition TLS1_2_VERSION :: int32 where "TLS1_2_VERSION = 0x0303"

text \<open>\<open>ssl_ctx_new\<close> is told whether the method is the server's.  \<open>ssl_handshake\<close> gives the results of the successive calls of
  \<^verbatim>\<open>SSL_accept\<close> or \<^verbatim>\<open>SSL_connect\<close> and the connection afterwards.  Of a certificate, the code reads the common name.\<close>

record ('x, 's) OpenSsl =
  ssl_ctx_new :: "bool \<Rightarrow> 'x option"
  ssl_set_options :: "SslOption list \<Rightarrow> 'x \<Rightarrow> 'x"
  ssl_set_min_proto_version :: "int32 \<Rightarrow> 'x \<Rightarrow> 'x"
  ssl_use_certificate_file :: "string \<Rightarrow> 'x \<Rightarrow> bool \<times> 'x"
  ssl_use_PrivateKey_file :: "string \<Rightarrow> 'x \<Rightarrow> bool \<times> 'x"
  ssl_check_private_key :: "'x \<Rightarrow> bool"
  ssl_load_verify_locations :: "string \<Rightarrow> 'x \<Rightarrow> bool \<times> 'x"
  ssl_set_verify :: "int32 \<Rightarrow> 'x \<Rightarrow> 'x"
  ssl_load_client_CA_file :: "string \<Rightarrow> string list option"
  ssl_set_client_CA_list :: "string list \<Rightarrow> 'x \<Rightarrow> 'x"
  ssl_new :: "'x \<Rightarrow> 's option"
  ssl_set_fd :: "int \<Rightarrow> 's \<Rightarrow> 's"
  ssl_set_tlsext_host_name :: "string \<Rightarrow> 's \<Rightarrow> 's"
  ssl_handshake :: "bool \<Rightarrow> 's \<Rightarrow> unit SslResult list \<times> 's"
  ssl_get_verify_mode :: "'s \<Rightarrow> int32"
  ssl_get_peer_certificate :: "'s \<Rightarrow> string option"
  ssl_get_verify_result_ok :: "'s \<Rightarrow> bool"

section \<open>The TLS context\<close>

text \<open>A context that was not made is \<open>None\<close>, the null pointer.\<close>

type_synonym 'x TlsContext = "'x option"

definition makeCtx :: "('x, 's) OpenSsl \<Rightarrow> bool \<Rightarrow> 'x option" where
  "makeCtx S server =
     (case ssl_ctx_new S server of
        None \<Rightarrow> None
      | Some x \<Rightarrow>
          Some (ssl_set_min_proto_version S TLS1_2_VERSION (ssl_set_options S [NO_SSLv2, NO_SSLv3, NO_COMPRESSION] x)))"

text \<open>Certificate and key, which both \<^verbatim>\<open>loadCertificate\<close> and \<^verbatim>\<open>initClient\<close> load with the same condition.\<close>

definition useKeyPair :: "('x, 's) OpenSsl \<Rightarrow> string \<Rightarrow> string \<Rightarrow> 'x \<Rightarrow> 'x option" where
  "useKeyPair S cert_file key_file x =
     (case ssl_use_certificate_file S cert_file x of (ok, x) \<Rightarrow>
        if \<not> ok then None
        else case ssl_use_PrivateKey_file S key_file x of (ok, x) \<Rightarrow>
          if \<not> ok then None else if ssl_check_private_key S x then Some x else None)"

definition loadCertificate :: "('x, 's) OpenSsl \<Rightarrow> string \<Rightarrow> string \<Rightarrow> 'x TlsContext \<Rightarrow> bool \<times> 'x TlsContext" where
  "loadCertificate S cert_file key_file ctx =
     (case makeCtx S True of
        None \<Rightarrow> (False, None)
      | Some x \<Rightarrow>
          (case useKeyPair S cert_file key_file x of
             None \<Rightarrow> (False, None)
           | Some x \<Rightarrow> (True, Some x)))"

definition loadCa :: "('x, 's) OpenSsl \<Rightarrow> string \<Rightarrow> 'x TlsContext \<Rightarrow> bool \<times> 'x TlsContext" where
  "loadCa S ca_file ctx =
     (case ctx of
        None \<Rightarrow> (False, None)
      | Some x \<Rightarrow>
          (case ssl_load_verify_locations S ca_file x of (ok, x) \<Rightarrow>
             if \<not> ok then (False, Some x)
             else let x = ssl_set_verify S SSL_VERIFY_PEER x in
               (True, Some (case ssl_load_client_CA_file S ca_file of
                              None \<Rightarrow> x
                            | Some names \<Rightarrow> ssl_set_client_CA_list S names x))))"

definition requireClientCertificate :: "('x, 's) OpenSsl \<Rightarrow> 'x TlsContext \<Rightarrow> bool \<times> 'x TlsContext" where
  "requireClientCertificate S ctx =
     (case ctx of
        None \<Rightarrow> (False, None)
      | Some x \<Rightarrow> (True, Some (ssl_set_verify S (SSL_VERIFY_PEER OR SSL_VERIFY_FAIL_IF_NO_PEER_CERT) x)))"

definition clientVerify :: "('x, 's) OpenSsl \<Rightarrow> string \<Rightarrow> 'x \<Rightarrow> 'x option" where
  "clientVerify S ca_file x =
     (if ca_file \<noteq> [] then
        (case ssl_load_verify_locations S ca_file x of (ok, x) \<Rightarrow>
           if \<not> ok then None else Some (ssl_set_verify S SSL_VERIFY_PEER x))
      else Some (ssl_set_verify S SSL_VERIFY_NONE x))"

definition initClient :: "('x, 's) OpenSsl \<Rightarrow> string \<Rightarrow> string \<Rightarrow> string \<Rightarrow> 'x TlsContext \<Rightarrow> bool \<times> 'x TlsContext" where
  "initClient S ca_file cert_file key_file ctx =
     (case makeCtx S False of
        None \<Rightarrow> (False, None)
      | Some x \<Rightarrow>
          (case clientVerify S ca_file x of
             None \<Rightarrow> (False, None)
           | Some x \<Rightarrow>
               (case (if cert_file = [] then Some x else useKeyPair S cert_file key_file x) of
                  None \<Rightarrow> (False, None)
                | Some x \<Rightarrow> (True, Some x))))"

definition tlsEnabled :: "'x TlsContext \<Rightarrow> bool" where
  "tlsEnabled ctx \<longleftrightarrow> ctx \<noteq> None"

section \<open>Connections\<close>

text \<open>\<open>sockets\<close> are the descriptors the process holds open.\<close>

type_synonym sockets = "int list"

definition INVALID_SOCKET_VALUE :: int where
  "INVALID_SOCKET_VALUE = -1"

definition openSocket :: "int \<Rightarrow> sockets \<Rightarrow> sockets" where
  "openSocket fd fds = (if fd = INVALID_SOCKET_VALUE then fds else fd # fds)"

definition closeSocket :: "int \<Rightarrow> sockets \<Rightarrow> sockets" where
  "closeSocket fd fds = (if fd = INVALID_SOCKET_VALUE then fds else remove1 fd fds)"

record 's TcpConnection =
  cn_fd :: int
  cn_peer :: string
  cn_ssl :: "'s option"

definition validConnection :: "'s TcpConnection \<Rightarrow> bool" where
  "validConnection c \<longleftrightarrow> cn_fd c \<noteq> INVALID_SOCKET_VALUE"

definition closeConnection :: "'s TcpConnection \<Rightarrow> sockets \<Rightarrow> 's TcpConnection \<times> sockets" where
  "closeConnection c fds = (c\<lparr>cn_fd := INVALID_SOCKET_VALUE, cn_ssl := None\<rparr>, closeSocket (cn_fd c) fds)"

text \<open>A moved-from connection holds no socket, so that closing it closes nothing; its peer is whatever the string was left as.  An
  assignment closes what the target held, unless a connection is assigned to itself.\<close>

definition moveConnection :: "string \<Rightarrow> 's TcpConnection \<Rightarrow> 's TcpConnection \<times> 's TcpConnection" where
  "moveConnection leftover other = (other, other\<lparr>cn_fd := INVALID_SOCKET_VALUE, cn_peer := leftover, cn_ssl := None\<rparr>)"

definition assignConnection ::
  "string \<Rightarrow> bool \<Rightarrow> 's TcpConnection \<Rightarrow> 's TcpConnection \<Rightarrow> sockets \<Rightarrow> 's TcpConnection \<times> 's TcpConnection \<times> sockets" where
  "assignConnection leftover same this other fds =
     (if same then (this, other, fds)
      else case closeConnection this fds of (_, fds) \<Rightarrow> case moveConnection leftover other of (this, other) \<Rightarrow> (this, other, fds))"

text \<open>\<open>None\<close> stands for a handshake that never ends.\<close>

definition handshakeTls ::
  "('x, 's) OpenSsl \<Rightarrow> 'x TlsContext \<Rightarrow> bool \<Rightarrow> string \<Rightarrow> 's TcpConnection \<Rightarrow> (bool \<times> 's TcpConnection) option" where
  "handshakeTls S ctx server sni c =
     (if \<not> validConnection c \<or> cn_ssl c \<noteq> None then Some (False, c)
      else case ctx of
        None \<Rightarrow> Some (False, c)
      | Some x \<Rightarrow>
          (case ssl_new S x of
             None \<Rightarrow> Some (False, c)
           | Some s \<Rightarrow>
               let s = ssl_set_fd S (cn_fd c) s;
                   s = (if \<not> server \<and> sni \<noteq> [] then ssl_set_tlsext_host_name S sni s else s)
               in case ssl_handshake S server s of (results, s) \<Rightarrow>
                 map_option (\<lambda>ok. if ok then (True, c\<lparr>cn_ssl := Some s\<rparr>) else (False, c)) (sslHandshake results)))"

definition tlsPeerVerified :: "('x, 's) OpenSsl \<Rightarrow> 's TcpConnection \<Rightarrow> bool" where
  "tlsPeerVerified S c =
     (case cn_ssl c of
        None \<Rightarrow> False
      | Some s \<Rightarrow>
          if ssl_get_verify_mode S s AND SSL_VERIFY_PEER = 0 then False
          else if ssl_get_peer_certificate S s = None then False
          else ssl_get_verify_result_ok S s)"

text \<open>The common name goes through a buffer of 256 characters that ends with a zero, and becomes a string again
  at the first zero.\<close>

definition tlsPeerIdentity :: "('x, 's) OpenSsl \<Rightarrow> 's TcpConnection \<Rightarrow> string" where
  "tlsPeerIdentity S c =
     (case cn_ssl c of
        None \<Rightarrow> []
      | Some s \<Rightarrow>
          (case ssl_get_peer_certificate S s of
             None \<Rightarrow> []
           | Some cn \<Rightarrow> takeWhile (\<lambda>ch. ch \<noteq> CHR 0x00) (take 255 cn)))"

text \<open>What a session reads of its connection.\<close>

definition tlsPeer :: "('x, 's) OpenSsl \<Rightarrow> 's TcpConnection \<Rightarrow> TlsPeer" where
  "tlsPeer S c = \<lparr>tp_tls = (cn_ssl c \<noteq> None), tp_verified = tlsPeerVerified S c, tp_identity = tlsPeerIdentity S c\<rparr>"

text \<open>Sending and receiving go through OpenSSL when the connection has TLS.  The arguments are what the calls of \<^verbatim>\<open>send\<close>,
  \<^verbatim>\<open>SSL_write\<close>, \<^verbatim>\<open>recv\<close> and \<^verbatim>\<open>SSL_read\<close> answer; \<open>None\<close> is a call that never ends, and for \<open>recvExact\<close> \<open>Some None\<close> is \<^verbatim>\<open>false\<close>.\<close>

definition sendAll :: "'s TcpConnection \<Rightarrow> bytes \<Rightarrow> int list \<Rightarrow> nat SslResult list \<Rightarrow> (bool \<times> bytes) option" where
  "sendAll c data takes results =
     (if \<not> validConnection c then Some (False, [])
      else if cn_ssl c \<noteq> None then sslSendAll data results []
      else Some (sendAllBytes data takes))"

definition recvExact ::
  "'s TcpConnection \<Rightarrow> nat \<Rightarrow> segments \<times> bytes SslResult list \<Rightarrow> (bytes \<times> segments \<times> bytes SslResult list) option option" where
  "recvExact c sz input =
     (case input of (segs, results) \<Rightarrow>
        if \<not> validConnection c then Some None
        else if cn_ssl c \<noteq> None then
          map_option (\<lambda>(ok, data, results). if ok then Some (data, segs, results) else None) (sslRecvAll sz results [])
        else Some (map_option (\<lambda>(data, segs). (data, segs, results)) (recvAll sz segs)))"

definition waitReadable :: "'s TcpConnection \<Rightarrow> nat \<Rightarrow> bool \<Rightarrow> bool" where
  "waitReadable c pending readable =
     (if \<not> validConnection c then False
      else if cn_ssl c \<noteq> None \<and> pending > 0 then True
      else readable)"

text \<open>\<^verbatim>\<open>connectTo\<close>: for each address that \<^verbatim>\<open>getaddrinfo\<close> found, what \<^verbatim>\<open>socket\<close> gives and whether \<^verbatim>\<open>connect\<close>
  succeeds.\<close>

fun connectLoop :: "(int \<times> bool) list \<Rightarrow> sockets \<Rightarrow> int \<times> sockets" where
  "connectLoop [] fds = (INVALID_SOCKET_VALUE, fds)"
| "connectLoop ((fd, connected) # ais) fds =
     (if fd = INVALID_SOCKET_VALUE then connectLoop ais fds
      else let fds = openSocket fd fds in
        if connected then (fd, fds) else connectLoop ais (closeSocket fd fds))"

definition connectTo ::
  "string \<Rightarrow> 16 word \<Rightarrow> (int \<times> bool) list option \<Rightarrow> sockets \<Rightarrow> 's TcpConnection option \<times> sockets" where
  "connectTo host port addresses fds =
     (case addresses of
        None \<Rightarrow> (None, fds)
      | Some ais \<Rightarrow>
          if ais = [] then (None, fds)
          else case connectLoop ais fds of (fd, fds) \<Rightarrow>
            if fd = INVALID_SOCKET_VALUE then (None, fds)
            else (Some \<lparr>cn_fd = fd, cn_peer = host @ '':'' @ toStringInt (uint port), cn_ssl = None\<rparr>, fds))"

section \<open>Listeners\<close>

text \<open>A listener is its descriptor.  \<open>ListenCalls\<close> is what the system calls answer.\<close>

record ListenCalls =
  lc_socket :: int
  lc_inet_pton :: "string \<Rightarrow> int32 option"
  lc_bind :: "int32 \<Rightarrow> 16 word \<Rightarrow> bool"
  lc_listen :: bool

definition listenAddress :: "(string \<Rightarrow> int32 option) \<Rightarrow> string \<Rightarrow> int32 option" where
  "listenAddress inet_pton address =
     (if address = [] \<or> address = ''0.0.0.0'' then Some 0
      else if address = ''127.0.0.1'' \<or> address = ''localhost'' then Some 0x7F000001
      else inet_pton address)"

definition bindAndListen :: "ListenCalls \<Rightarrow> string \<Rightarrow> 16 word \<Rightarrow> int \<Rightarrow> sockets \<Rightarrow> bool \<times> int \<times> sockets" where
  "bindAndListen L address port fd fds =
     (let fds = closeSocket fd fds; fd = lc_socket L in
      if fd = INVALID_SOCKET_VALUE then (False, fd, fds)
      else let fds = openSocket fd fds; failed = (False, INVALID_SOCKET_VALUE, closeSocket fd fds) in
        case listenAddress (lc_inet_pton L) address of
          None \<Rightarrow> failed
        | Some addr \<Rightarrow>
            if \<not> lc_bind L addr port then failed
            else if \<not> lc_listen L then failed
            else (True, fd, fds))"

definition closeListener :: "int \<Rightarrow> sockets \<Rightarrow> int \<times> sockets" where
  "closeListener fd fds = (INVALID_SOCKET_VALUE, closeSocket fd fds)"

definition isOpen :: "int \<Rightarrow> bool" where
  "isOpen fd \<longleftrightarrow> fd \<noteq> INVALID_SOCKET_VALUE"

definition boundPort :: "16 word option \<Rightarrow> int \<Rightarrow> 16 word" where
  "boundPort getsockname fd =
     (if \<not> isOpen fd then 0 else case getsockname of None \<Rightarrow> 0 | Some port \<Rightarrow> port)"

text \<open>What \<^verbatim>\<open>poll\<close> says, and what \<^verbatim>\<open>accept\<close> gives: a descriptor with the peer's address and port.\<close>

record AcceptCalls =
  ac_readable :: bool
  ac_client :: int
  ac_host :: string
  ac_port :: "16 word"

definition acceptConnection :: "AcceptCalls \<Rightarrow> int \<Rightarrow> int \<Rightarrow> sockets \<Rightarrow> 's TcpConnection option \<times> sockets" where
  "acceptConnection A timeout_ms fd fds =
     (if \<not> isOpen fd then (None, fds)
      else if timeout_ms \<ge> 0 \<and> \<not> ac_readable A then (None, fds)
      else if ac_client A = INVALID_SOCKET_VALUE then (None, fds)
      else (Some \<lparr>cn_fd = ac_client A, cn_peer = ac_host A @ '':'' @ toStringInt (uint (ac_port A)), cn_ssl = None\<rparr>,
            openSocket (ac_client A) fds))"

section \<open>Sockets are accounted for\<close>

named_theorems socket_account

lemma close_open [simp]: "closeSocket fd (openSocket fd fds) = fds"
  by (simp add: closeSocket_def openSocket_def)

lemma open_invalid [simp]: "openSocket INVALID_SOCKET_VALUE fds = fds" "closeSocket INVALID_SOCKET_VALUE fds = fds"
  by (simp_all add: closeSocket_def openSocket_def)

definition socketOf :: "int \<Rightarrow> int multiset" where
  "socketOf fd = (if fd = INVALID_SOCKET_VALUE then {#} else {#fd#})"

lemma socketOf_simps [simp]: "socketOf INVALID_SOCKET_VALUE = {#}" "fd \<noteq> INVALID_SOCKET_VALUE \<Longrightarrow> socketOf fd = {#fd#}"
  by (simp_all add: socketOf_def)

lemma mset_openSocket [socket_account]: "mset (openSocket fd fds) = socketOf fd + mset fds"
  by (simp add: openSocket_def socketOf_def)

lemma mset_closeSocket [socket_account]: "mset (closeSocket fd fds) = mset fds - socketOf fd"
  by (simp add: closeSocket_def socketOf_def)

lemma move_keeps_sockets:
  assumes "moveConnection leftover c = (to, other)"
  shows "snd (closeConnection other fds) = fds" "snd (closeConnection to fds) = snd (closeConnection c fds)"
  using assms by (auto simp: moveConnection_def closeConnection_def)

lemma assign_sockets [socket_account]:
  assumes "assignConnection leftover False this other fds = (this', other', fds')"
  shows "mset fds' = mset fds - socketOf (cn_fd this)" "snd (closeConnection other' fds') = fds'" "cn_fd this' = cn_fd other"
  using assms by (auto simp: assignConnection_def moveConnection_def closeConnection_def mset_closeSocket)

lemma connectLoop_sockets: "connectLoop ais fds = (fd, fds') \<Longrightarrow> fds' = openSocket fd fds"
  by (induction ais fds rule: connectLoop.induct) (auto simp: Let_def split: if_splits)

lemma connectTo_sockets [socket_account]:
  assumes "connectTo host port addresses fds = (c, fds')"
  shows "mset fds' = (case c of None \<Rightarrow> {#} | Some c \<Rightarrow> socketOf (cn_fd c)) + mset fds"
  using assms by (auto simp: connectTo_def mset_openSocket dest!: connectLoop_sockets split: option.splits if_splits prod.splits)

lemma bindAndListen_sockets:
  assumes "bindAndListen L address port fd fds = (ok, fd', fds')"
  shows "ok = isOpen fd'" "fds' = openSocket fd' (closeSocket fd fds)"
  using assms by (auto simp: bindAndListen_def isOpen_def Let_def split: if_splits option.splits)

lemma acceptConnection_sockets:
  assumes "acceptConnection A timeout_ms fd fds = (c, fds')"
  shows "mset fds' = (case c of None \<Rightarrow> {#} | Some c \<Rightarrow> socketOf (cn_fd c)) + mset fds"
    "c = Some conn \<Longrightarrow> validConnection conn \<and> cn_ssl conn = None \<and> isOpen fd"
  using assms by (auto simp: acceptConnection_def validConnection_def mset_openSocket split: if_splits)

section \<open>What OpenSSL promises\<close>

text \<open>\<open>mode\<close> is the verification mode and \<open>version\<close> the lowest protocol version of a context.  The setters set them and nothing else
  changes them; a connection inherits the mode of its context; and a server's handshake succeeds under
  \<^verbatim>\<open>SSL_VERIFY_FAIL_IF_NO_PEER_CERT\<close> only with a certificate that verified.\<close>

definition openssl_laws :: "('x, 's) OpenSsl \<Rightarrow> ('x \<Rightarrow> int32) \<Rightarrow> ('x \<Rightarrow> int32) \<Rightarrow> bool" where
  "openssl_laws S mode version \<longleftrightarrow>
     (\<forall>m x. mode (ssl_set_verify S m x) = m \<and> version (ssl_set_verify S m x) = version x) \<and>
     (\<forall>v x. version (ssl_set_min_proto_version S v x) = v) \<and>
     (\<forall>file x. version (snd (ssl_use_certificate_file S file x)) = version x \<and>
        version (snd (ssl_use_PrivateKey_file S file x)) = version x \<and>
        version (snd (ssl_load_verify_locations S file x)) = version x) \<and>
     (\<forall>file x. mode (snd (ssl_use_certificate_file S file x)) = mode x \<and>
        mode (snd (ssl_use_PrivateKey_file S file x)) = mode x) \<and>
     (\<forall>names x. mode (ssl_set_client_CA_list S names x) = mode x \<and> version (ssl_set_client_CA_list S names x) = version x) \<and>
     (\<forall>x s. ssl_new S x = Some s \<longrightarrow> ssl_get_verify_mode S s = mode x) \<and>
     (\<forall>fd s. ssl_get_verify_mode S (ssl_set_fd S fd s) = ssl_get_verify_mode S s) \<and>
     (\<forall>name s. ssl_get_verify_mode S (ssl_set_tlsext_host_name S name s) = ssl_get_verify_mode S s) \<and>
     (\<forall>server s results s'. ssl_handshake S server s = (results, s') \<longrightarrow>
        ssl_get_verify_mode S s' = ssl_get_verify_mode S s \<and>
        (server \<and> sslHandshake results = Some True \<and>
           ssl_get_verify_mode S s = SSL_VERIFY_PEER OR SSL_VERIFY_FAIL_IF_NO_PEER_CERT \<longrightarrow>
         ssl_get_peer_certificate S s' \<noteq> None \<and> ssl_get_verify_result_ok S s'))"

lemma verify_bits [simp]:
  "(SSL_VERIFY_PEER OR SSL_VERIFY_FAIL_IF_NO_PEER_CERT) AND SSL_VERIFY_PEER = SSL_VERIFY_PEER" "SSL_VERIFY_PEER \<noteq> 0"
  "SSL_VERIFY_NONE AND SSL_VERIFY_PEER = 0"
  by (simp_all add: SSL_VERIFY_PEER_def SSL_VERIFY_FAIL_IF_NO_PEER_CERT_def SSL_VERIFY_NONE_def)

lemma makeCtx_version: "openssl_laws S mode version \<Longrightarrow> makeCtx S server = Some x \<Longrightarrow> version x = TLS1_2_VERSION"
  by (auto simp: openssl_laws_def makeCtx_def split: option.splits)

lemma useKeyPair_kept:
  assumes "openssl_laws S mode version" "useKeyPair S cert key x = Some y"
  shows "version y = version x" "mode y = mode x"
  using assms by (auto simp: openssl_laws_def useKeyPair_def split: prod.splits if_splits) (metis snd_conv)+

lemma loadCertificate_version:
  assumes "openssl_laws S mode version" "loadCertificate S cert key ctx = (True, ctx')"
  shows "\<exists>x. ctx' = Some x \<and> version x = TLS1_2_VERSION"
proof -
  from assms(2) obtain x where "makeCtx S True = Some x" "useKeyPair S cert key x = ctx'" "ctx' \<noteq> None"
    by (cases "makeCtx S True"; cases "useKeyPair S cert key (the (makeCtx S True))") (auto simp: loadCertificate_def)
  with makeCtx_version [OF assms(1)] useKeyPair_kept(1) [OF assms(1)] show ?thesis by force
qed

lemma loadCa_version:
  assumes "openssl_laws S mode version" "loadCa S ca (Some x) = (ok, ctx')"
  shows "\<exists>y. ctx' = Some y \<and> version y = version x \<and> (ok \<longrightarrow> mode y = SSL_VERIFY_PEER)"
proof -
  obtain ok' x' where l: "ssl_load_verify_locations S ca x = (ok', x')" by fastforce
  with assms(1) have "version x' = version x" unfolding openssl_laws_def by (metis snd_conv)
  with l assms show ?thesis
    by (auto simp: openssl_laws_def loadCa_def Let_def split: option.splits if_splits)
qed

lemma requireClientCertificate_mode:
  "openssl_laws S mode version \<Longrightarrow> requireClientCertificate S (Some x) = (ok, ctx') \<Longrightarrow>
     ok \<and> (\<exists>y. ctx' = Some y \<and> version y = version x \<and> mode y = SSL_VERIFY_PEER OR SSL_VERIFY_FAIL_IF_NO_PEER_CERT)"
  by (auto simp: openssl_laws_def requireClientCertificate_def)

text \<open>A handshake as the server, under a context that demands certificates.\<close>

lemma handshakeTls_verified:
  assumes laws: "openssl_laws S mode version" and mode: "mode x = SSL_VERIFY_PEER OR SSL_VERIFY_FAIL_IF_NO_PEER_CERT"
    and "handshakeTls S (Some x) True sni c = Some (True, c')"
  shows "tlsPeerVerified S c'"
proof -
  obtain s results s' where s: "ssl_new S x = Some s" "ssl_handshake S True (ssl_set_fd S (cn_fd c) s) = (results, s')"
      "sslHandshake results = Some True" "c' = c\<lparr>cn_ssl := Some s'\<rparr>"
    using assms(3) by (auto simp: handshakeTls_def Let_def split: if_splits option.splits prod.splits)
  from laws s(1) mode have m: "ssl_get_verify_mode S (ssl_set_fd S (cn_fd c) s) = SSL_VERIFY_PEER OR SSL_VERIFY_FAIL_IF_NO_PEER_CERT"
    by (simp add: openssl_laws_def)
  with laws s have "ssl_get_verify_mode S s' = SSL_VERIFY_PEER OR SSL_VERIFY_FAIL_IF_NO_PEER_CERT"
      "ssl_get_peer_certificate S s' \<noteq> None \<and> ssl_get_verify_result_ok S s'"
    unfolding openssl_laws_def by metis+
  with s(4) show ?thesis by (simp add: tlsPeerVerified_def)
qed

text \<open>A client verifies the server exactly when it has a CA file.\<close>

lemma initClient_mode:
  assumes "openssl_laws S mode version" "initClient S ca cert key ctx = (True, ctx')"
  shows "\<exists>x. ctx' = Some x \<and> mode x = (if ca = [] then SSL_VERIFY_NONE else SSL_VERIFY_PEER)"
proof -
  have "mode y = (if ca = [] then SSL_VERIFY_NONE else SSL_VERIFY_PEER)" if "clientVerify S ca x = Some y" for x y
    using that assms(1) by (auto simp: clientVerify_def openssl_laws_def split: if_splits prod.splits)
  with assms useKeyPair_kept(2) [OF assms(1)] show ?thesis
    by (fastforce simp: initClient_def split: option.splits if_splits)
qed

text \<open>Two common names that agree up to a zero, or in their first 255 characters, are the same identity.\<close>

lemma identity_cut:
  assumes "ssl_get_peer_certificate S s = Some (cn @ CHR 0x00 # tail)" "CHR 0x00 \<notin> set cn" "length cn < 255"
  shows "tlsPeerIdentity S \<lparr>cn_fd = fd, cn_peer = peer, cn_ssl = Some s\<rparr> = cn"
  using assms by (auto simp: tlsPeerIdentity_def take_Cons' takeWhile_tail)

end
