(* ===== verification/Daemon.thy ===== *)
theory Daemon
  imports Transport Session
begin

text \<open>
  The daemon, \<^verbatim>\<open>src/simple-ldapd/core/daemon.cpp\<close> with its logger (\<^verbatim>\<open>utils/logger.cpp\<close>) and its entry point
  (\<^verbatim>\<open>src/main/simple-ldapd.cpp\<close>): start-up, the accept thread, the worker threads and the shutdown.  What files, OpenSSL, the
  backend and system calls answer is an argument.  The threads are the step relation \<open>daemon_step\<close>: the accept thread has a
  program counter, a worker may finish at any moment, and the main thread may stop the daemon at any moment.  The accept thread
  alone adds workers, so a worker that finishes in the middle of \<^verbatim>\<open>launchSession\<close> is one that finishes after it.  The lemmas show that
  the limit on sessions holds in every state, that every open socket belongs to a listener or a session that runs, and that
  demanded client certificates are enforced.
\<close>

section \<open>The logger\<close>

record Logger =
  lg_level :: LogLevel
  lg_file :: string

definition levelName :: "LogLevel \<Rightarrow> string" where
  "levelName level =
     (case level of
        DebugLevel \<Rightarrow> ''DEBUG'' | InfoLevel \<Rightarrow> ''INFO'' | WarningLevel \<Rightarrow> ''WARN'' | ErrorLevel \<Rightarrow> ''ERROR'' | FatalLevel \<Rightarrow> ''FATAL'')"

definition levelValue :: "LogLevel \<Rightarrow> nat" where
  "levelValue level =
     (case level of DebugLevel \<Rightarrow> 0 | InfoLevel \<Rightarrow> 1 | WarningLevel \<Rightarrow> 2 | ErrorLevel \<Rightarrow> 3 | FatalLevel \<Rightarrow> 4)"

text \<open>Levels are compared as numbers of the enumeration.\<close>

lemma levelValue_inject: "levelValue a = levelValue b \<Longrightarrow> a = b"
  by (cases a; cases b) (simp_all add: levelValue_def)

instantiation LogLevel :: linorder
begin

definition less_eq_LogLevel :: "LogLevel \<Rightarrow> LogLevel \<Rightarrow> bool" where
  "less_eq_LogLevel a b \<longleftrightarrow> levelValue a \<le> levelValue b"

definition less_LogLevel :: "LogLevel \<Rightarrow> LogLevel \<Rightarrow> bool" where
  "less_LogLevel a b \<longleftrightarrow> levelValue a < levelValue b"

instance
  by standard (auto simp: less_eq_LogLevel_def less_LogLevel_def intro: levelValue_inject)

end

definition setLevel :: "LogLevel \<Rightarrow> Logger \<Rightarrow> Logger" where
  "setLevel level lg = lg\<lparr>lg_level := level\<rparr>"

definition setLogFile :: "string \<Rightarrow> Logger \<Rightarrow> Logger" where
  "setLogFile path lg = lg\<lparr>lg_file := path\<rparr>"

text \<open>The line for the error stream and the line for the log file, with the printed time; \<open>opened\<close> is whether the file opens.\<close>

definition log_message :: "string \<Rightarrow> bool \<Rightarrow> LogLevel \<Rightarrow> string \<Rightarrow> Logger \<Rightarrow> string list \<times> string list" where
  "log_message time opened level message lg =
     (if level < lg_level lg then ([], [])
      else let line = time @ '' ['' @ levelName level @ ''] '' @ message in
        ([line], if lg_file lg \<noteq> [] \<and> opened then [line] else []))"

section \<open>State\<close>

datatype BackendChoice = SqliteChoice string string | LdifChoice string | MemoryChoice

text \<open>Where a worker thread is: in the TLS handshake of an LDAPS connection, at the condition of the loop of \<^verbatim>\<open>Session::serve\<close>, or in a
  round of it.\<close>

datatype WorkerPhase = Handshaking | AtLoop | InRound

text \<open>A worker thread: the connection it was given, whether it came from the LDAPS listener, where it is, and its flag.\<close>

record 's SessionWorker =
  wk_connection :: "'s TcpConnection"
  wk_ldaps :: bool
  wk_at :: WorkerPhase
  wk_finished :: bool

definition newWorker :: "'s TcpConnection \<Rightarrow> bool \<Rightarrow> 's SessionWorker" where
  "newWorker c ldaps = \<lparr>wk_connection = c, wk_ldaps = ldaps, wk_at = (if ldaps then Handshaking else AtLoop), wk_finished = False\<rparr>"

text \<open>The accept thread: not there, at the loop condition, at the plain listener, at the LDAPS listener, or ended and not joined.\<close>

datatype AcceptThread = NoThread | Checking | AtPlain | AtLdaps | Ended

record ('x, 's) LdapDaemon =
  da_config :: LdapConfig
  da_logger :: Logger
  da_schema :: SchemaRegistry
  da_tls :: "'x TlsContext"
  da_sasl :: SaslAuthenticator
  da_rate_limiter :: RateLimiter
  da_listener :: int
  da_ldaps_listener :: int
  da_backend :: "BackendChoice option"
  da_running :: bool
  da_initialized :: bool
  da_accept_thread :: AcceptThread
  da_workers :: "'s SessionWorker list"
  da_sockets :: sockets

definition newDaemon :: "LdapConfig \<Rightarrow> ('x, 's) LdapDaemon" where
  "newDaemon c =
     \<lparr>da_config = c, da_logger = \<lparr>lg_level = InfoLevel, lg_file = []\<rparr>, da_schema = emptyRegistry, da_tls = None, da_sasl = [],
      da_rate_limiter = \<lparr>rl_max_per_minute = 0, rl_buckets = []\<rparr>, da_listener = INVALID_SOCKET_VALUE,
      da_ldaps_listener = INVALID_SOCKET_VALUE, da_backend = None, da_running = False, da_initialized = False,
      da_accept_thread = NoThread, da_workers = [], da_sockets = []\<rparr>"

text \<open>What start-up meets: whether the build has SQLite, which files open and what they hold, the schema files of a directory,
  whether a backend initializes, and OpenSSL.\<close>

record ('x, 's) Startup =
  su_sqlite_built :: bool
  su_readable :: "string \<Rightarrow> bool"
  su_read_file :: "string \<Rightarrow> string option"
  su_listing :: "string \<Rightarrow> string list option"
  su_backend_initialize :: "BackendChoice \<Rightarrow> bool"
  su_ssl :: "('x, 's) OpenSsl"

section \<open>Start-up\<close>

definition chooseBackend :: "LdapConfig \<Rightarrow> BackendChoice" where
  "chooseBackend c =
     (if cf_backend c = ''sqlite'' then SqliteChoice (cf_sqlite_file c) (cf_ldif_file c)
      else if cf_ldif_file c \<noteq> [] \<or> cf_backend c = ''ldif'' then LdifChoice (cf_ldif_file c)
      else MemoryChoice)"

definition initializeTls :: "('x, 's) OpenSsl \<Rightarrow> LdapConfig \<Rightarrow> 'x TlsContext \<Rightarrow> bool \<times> 'x TlsContext" where
  "initializeTls S c ctx =
     (if cf_enable_ldaps c \<or> cf_enable_starttls c then
        (case loadCertificate S (cf_tls_cert_file c) (cf_tls_key_file c) ctx of (ok, ctx) \<Rightarrow>
           if \<not> ok then (False, ctx)
           else let ctx = (if cf_tls_ca_file c \<noteq> [] then snd (loadCa S (cf_tls_ca_file c) ctx) else ctx) in
             if cf_tls_verify_client c then requireClientCertificate S ctx else (True, ctx))
      else (True, ctx))"

definition initialize :: "('x, 's) Startup \<Rightarrow> ('x, 's) LdapDaemon \<Rightarrow> bool \<times> ('x, 's) LdapDaemon" where
  "initialize U da =
     (let c = da_config da in
      if da_initialized da then (True, da)
      else if \<not> validate (su_sqlite_built U) (su_readable U) c then (False, da)
      else
        let logger = (case parseLogLevel (cf_log_level c) of None \<Rightarrow> da_logger da | Some level \<Rightarrow> setLevel level (da_logger da));
            logger = (if cf_log_file c \<noteq> [] then setLogFile (cf_log_file c) logger else logger);
            schema = snd (loadDirectory (su_read_file U) (su_listing U (cf_schema_dir c)) (cf_schema_dir c) (da_schema da));
            da = da\<lparr>da_logger := logger, da_schema := schema, da_backend := Some (chooseBackend c)\<rparr>
        in if \<not> su_backend_initialize U (chooseBackend c) \<and> cf_backend c = ''sqlite'' then (False, da)
        else
          let da = da\<lparr>da_sasl := enable External (enable GssapiMech (enable DigestMd5 (enable PlainMech (da_sasl da))))\<rparr>
          in case initializeTls (su_ssl U) c (da_tls da) of (ok, ctx) \<Rightarrow>
            if \<not> ok then (False, da\<lparr>da_tls := ctx\<rparr>)
            else (True, da\<lparr>da_tls := ctx, da_rate_limiter := setMaxPerMinute (cf_bind_rate_limit c) (da_rate_limiter da),
                           da_initialized := True\<rparr>))"

text \<open>\<^verbatim>\<open>start\<close>: \<open>Terminated\<close> is the assignment to a thread that was not joined, which ends the program.\<close>

datatype StartResult = Started | StartFailed | Terminated

definition listenLdaps :: "ListenCalls \<Rightarrow> ('x, 's) LdapDaemon \<Rightarrow> bool \<times> ('x, 's) LdapDaemon" where
  "listenLdaps L da =
     (if cf_enable_ldaps (da_config da) then
        (case bindAndListen L (cf_listen_address (da_config da)) (cf_ldaps_port (da_config da)) (da_ldaps_listener da) (da_sockets da) of
           (ok, fd, fds) \<Rightarrow>
             if ok then (True, da\<lparr>da_ldaps_listener := fd, da_sockets := fds\<rparr>)
             else (case closeListener (da_listener da) fds of (plain, fds) \<Rightarrow>
                     (False, da\<lparr>da_listener := plain, da_ldaps_listener := fd, da_sockets := fds\<rparr>)))
      else (True, da))"

definition start :: "('x, 's) Startup \<Rightarrow> ListenCalls \<Rightarrow> ListenCalls \<Rightarrow> ('x, 's) LdapDaemon \<Rightarrow> StartResult \<times> ('x, 's) LdapDaemon" where
  "start U plain ldaps da =
     (case initialize U da of (ok, da) \<Rightarrow>
        if \<not> ok then (StartFailed, da)
        else case bindAndListen plain (cf_listen_address (da_config da)) (cf_ldap_port (da_config da)) (da_listener da) (da_sockets da) of
          (ok, fd, fds) \<Rightarrow>
            let da = da\<lparr>da_listener := fd, da_sockets := fds\<rparr> in
            if \<not> ok then (StartFailed, da)
            else case listenLdaps ldaps da of (ok, da) \<Rightarrow>
              if \<not> ok then (StartFailed, da)
              else if da_accept_thread da \<noteq> NoThread then (Terminated, da\<lparr>da_running := True\<rparr>)
              else (Started, da\<lparr>da_running := True, da_accept_thread := Checking\<rparr>))"

definition testConfig :: "('x, 's) Startup \<Rightarrow> ('x, 's) LdapDaemon \<Rightarrow> bool" where
  "testConfig U da \<longleftrightarrow> validateDetailed (su_sqlite_built U) (su_readable U) (da_config da) = []"

section \<open>Serving a connection\<close>

text \<open>What a session is given of the daemon.\<close>

definition daemonServer :: "('x, 's) LdapDaemon \<Rightarrow> 'b Backend \<Rightarrow> Crypto \<Rightarrow> (string \<Rightarrow> string option) \<Rightarrow> 'b Server" where
  "daemonServer da B crypto read_file =
     \<lparr>sv_config = da_config da, sv_backend = B, sv_crypto = crypto, sv_schema = Some (da_schema da), sv_sasl = Some (da_sasl da),
      sv_tls = Some (tlsEnabled (da_tls da)), sv_read_file = read_file\<rparr>"

text \<open>\<open>None\<close> is a handshake that never ends, \<open>Some None\<close> a connection that is dropped, otherwise the session with what it is served.\<close>

definition serveConnection ::
  "('x, 's) OpenSsl \<Rightarrow> 'x TlsContext \<Rightarrow> 'b Server \<Rightarrow> Event list \<Rightarrow> int \<Rightarrow> 's TcpConnection \<Rightarrow> bool \<Rightarrow> 'b World \<Rightarrow> 'b round option option" where
  "serveConnection S ctx sv events now c ldaps wo =
     (case (if ldaps then handshakeTls S ctx True [] c else Some (True, c)) of
        None \<Rightarrow> None
      | Some (ok, c) \<Rightarrow>
          Some (if \<not> ok then None else Some (serve sv events now (newSession (cn_peer c) (tlsPeer S c)) wo)))"

section \<open>Workers\<close>

definition reapWorkers :: "('x, 's) LdapDaemon \<Rightarrow> ('x, 's) LdapDaemon" where
  "reapWorkers da = da\<lparr>da_workers := filter (\<lambda>w. \<not> wk_finished w) (da_workers da)\<rparr>"

text \<open>A refused connection is closed when it goes out of scope.  \<open>spawned\<close> is whether the thread can be created; the exception
  otherwise leaves the accept thread and ends the program, \<open>None\<close>.\<close>

definition launchSession :: "bool \<Rightarrow> 's TcpConnection \<Rightarrow> bool \<Rightarrow> ('x, 's) LdapDaemon \<Rightarrow> ('x, 's) LdapDaemon option" where
  "launchSession spawned c ldaps da =
     (let da = reapWorkers da; max_sessions = unat (cf_max_sessions (da_config da)) in
      if max_sessions > 0 \<and> length (da_workers da) \<ge> max_sessions then
        Some (da\<lparr>da_sockets := snd (closeConnection c (da_sockets da))\<rparr>)
      else if \<not> spawned then None
      else Some (da\<lparr>da_workers := da_workers da @ [newWorker c ldaps]\<rparr>))"

text \<open>One listener's part of a round of \<^verbatim>\<open>acceptLoop\<close>.\<close>

definition acceptOne :: "AcceptCalls \<Rightarrow> bool \<Rightarrow> bool \<Rightarrow> ('x, 's) LdapDaemon \<Rightarrow> ('x, 's) LdapDaemon option" where
  "acceptOne A spawned ldaps da =
     (case acceptConnection A 100 (if ldaps then da_ldaps_listener da else da_listener da) (da_sockets da) of (c, fds) \<Rightarrow>
        case c of
          None \<Rightarrow> Some da
        | Some c \<Rightarrow> launchSession spawned c ldaps (da\<lparr>da_sockets := fds\<rparr>))"

text \<open>The end of a worker thread: the session gives up its connection, and the flag is set.\<close>

definition finishWorker :: "nat \<Rightarrow> ('x, 's) LdapDaemon \<Rightarrow> ('x, 's) LdapDaemon" where
  "finishWorker i da =
     (let w = da_workers da ! i in
      da\<lparr>da_workers := (da_workers da)[i := w\<lparr>wk_finished := True\<rparr>],
         da_sockets := snd (closeConnection (wk_connection w) (da_sockets da))\<rparr>)"

text \<open>The next thing a session does: \<open>goes_on\<close> is whether the handshake succeeds, or whether the round lets the loop go on.  At the
  condition of the loop it looks at \<^verbatim>\<open>running_\<close>: there \<open>serveRound\<close> has the event \<open>Stopping\<close>, and in a round one of the others.  \<open>None\<close> is
  the end of the thread.\<close>

definition sessionTurn :: "bool \<Rightarrow> bool \<Rightarrow> WorkerPhase \<Rightarrow> WorkerPhase option" where
  "sessionTurn running goes_on phase =
     (case phase of
        Handshaking \<Rightarrow> if goes_on then Some AtLoop else None
      | AtLoop \<Rightarrow> if running then Some InRound else None
      | InRound \<Rightarrow> if goes_on then Some AtLoop else None)"

definition workerTurn :: "bool \<Rightarrow> nat \<Rightarrow> ('x, 's) LdapDaemon \<Rightarrow> ('x, 's) LdapDaemon" where
  "workerTurn goes_on i da =
     (let w = da_workers da ! i in
      case sessionTurn (da_running da) goes_on (wk_at w) of
        None \<Rightarrow> finishWorker i da
      | Some phase \<Rightarrow> da\<lparr>da_workers := (da_workers da)[i := w\<lparr>wk_at := phase\<rparr>]\<rparr>)"

text \<open>A worker that waits for its peer: the peer of one of the sockets \<open>S\<close> has left a handshake or a unit unfinished, and \<^verbatim>\<open>recv\<close> has no
  timeout.\<close>

definition stalled :: "int set \<Rightarrow> 's SessionWorker \<Rightarrow> bool" where
  "stalled S w \<longleftrightarrow> \<not> wk_finished w \<and> wk_at w \<noteq> AtLoop \<and> cn_fd (wk_connection w) \<in> S"

text \<open>\<^verbatim>\<open>stop\<close> up to the joins, and \<^verbatim>\<open>joinWorkers\<close>.\<close>

definition stopListening :: "('x, 's) LdapDaemon \<Rightarrow> ('x, 's) LdapDaemon" where
  "stopListening da =
     (case closeListener (da_listener da) (da_sockets da) of (plain, fds) \<Rightarrow>
        case closeListener (da_ldaps_listener da) fds of (ldaps, fds) \<Rightarrow>
          da\<lparr>da_running := False, da_listener := plain, da_ldaps_listener := ldaps, da_sockets := fds\<rparr>)"

definition joinWorkers :: "('x, 's) LdapDaemon \<Rightarrow> ('x, 's) LdapDaemon" where
  "joinWorkers da = da\<lparr>da_accept_thread := NoThread, da_workers := []\<rparr>"

text \<open>The steps of the accept thread and the workers, and the join that ends \<^verbatim>\<open>stop\<close>; the peers of the sockets \<open>S\<close> let their sessions
  wait.\<close>

inductive thread_step :: "int set \<Rightarrow> ('x, 's) LdapDaemon \<Rightarrow> ('x, 's) LdapDaemon \<Rightarrow> bool" for S where
  loop: "da_accept_thread da = Checking \<Longrightarrow>
    thread_step S da (da\<lparr>da_accept_thread := if da_running da then AtPlain else Ended\<rparr>)"
| plain: "da_accept_thread da = AtPlain \<Longrightarrow> acceptOne A spawned False da = Some da' \<Longrightarrow>
    thread_step S da (da'\<lparr>da_accept_thread := if cf_enable_ldaps (da_config da) then AtLdaps else Checking\<rparr>)"
| ldaps: "da_accept_thread da = AtLdaps \<Longrightarrow> acceptOne A spawned True da = Some da' \<Longrightarrow>
    thread_step S da (da'\<lparr>da_accept_thread := Checking\<rparr>)"
| turn: "i < length (da_workers da) \<Longrightarrow> \<not> wk_finished (da_workers da ! i) \<Longrightarrow> \<not> stalled S (da_workers da ! i) \<Longrightarrow>
    thread_step S da (workerTurn goes_on i da)"
| join: "\<not> da_running da \<Longrightarrow> da_accept_thread da = Ended \<Longrightarrow> list_all wk_finished (da_workers da) \<Longrightarrow>
    thread_step S da (joinWorkers da)"

inductive_cases thread_stepE: "thread_step S da da'"

inductive daemon_step :: "('x, 's) LdapDaemon \<Rightarrow> ('x, 's) LdapDaemon \<Rightarrow> bool" where
  thread: "thread_step S da da' \<Longrightarrow> daemon_step da da'"
| stop: "daemon_step da (stopListening da)"

section \<open>The entry point\<close>

datatype Platform = Windows | MacOS | FreeBSD | Linux | OtherPlatform

definition platformName :: "Platform \<Rightarrow> string" where
  "platformName platform =
     (case platform of
        Windows \<Rightarrow> ''Windows'' | MacOS \<Rightarrow> ''macOS'' | FreeBSD \<Rightarrow> ''FreeBSD'' | Linux \<Rightarrow> ''Linux'' | OtherPlatform \<Rightarrow> ''Unknown'')"

definition kProjectName :: string where
  "kProjectName = ''simple-ldapd''"

definition kDescription :: string where
  "kDescription = ''Simple LDAP Daemon - A lightweight directory service''"

text \<open>Lines of output, each ended by a line feed.\<close>

definition textLines :: "string list \<Rightarrow> string" where
  "textLines ls = concat (map (\<lambda>l. l @ [CHR 0x0A]) ls)"

definition printUsage :: string where
  "printUsage = textLines
     [''Usage: simple-ldapd [OPTIONS] [COMMAND]'', [],
      ''Options:'',
      ''  --help, -h           Show this help message'',
      ''  --version, -v        Show version information'',
      ''  --config, -c FILE    Use specified configuration file'',
      ''  --foreground, -f     Run in the foreground'',
      ''  --daemon, -d         Run as a daemon (not yet implemented)'',
      ''  --test-config        Validate configuration and exit'', [],
      ''Commands:'',
      ''  start                Start the directory server'',
      ''  stop                 Stop the directory server'',
      ''  status               Show server status'',
      ''  reload               Reload configuration'']"

definition printVersion :: "Platform \<Rightarrow> string" where
  "printVersion platform = textLines [kProjectName @ '' '' @ kVersion, kDescription, ''Platform: '' @ platformName platform]"

datatype MainArgs = ArgHelp | ArgVersion | ArgUnloadable | ArgAbort | ArgRun LdapConfig string bool

text \<open>The loop over the arguments: help and version end the program, and so does a configuration that does not load; an exception of
  the number parser is not caught.  \<open>read_file\<close> gives the contents of a file.\<close>

definition plainFlag :: "string \<Rightarrow> LdapConfig \<times> string \<times> bool \<Rightarrow> LdapConfig \<times> string \<times> bool" where
  "plainFlag arg st =
     (case st of (c, command, test_config) \<Rightarrow>
        if arg = ''--foreground'' \<or> arg = ''-f'' then (c\<lparr>cf_foreground := True\<rparr>, command, test_config)
        else if arg = ''--daemon'' \<or> arg = ''-d'' then (c\<lparr>cf_foreground := False\<rparr>, command, test_config)
        else if arg = ''--test-config'' then (c, command, True)
        else if arg \<noteq> [] \<and> hd arg \<noteq> CHR ''-'' then (c, arg, test_config)
        else (c, command, test_config))"

definition leavesAt :: "string \<Rightarrow> MainArgs option" where
  "leavesAt arg =
     (if arg = ''--help'' \<or> arg = ''-h'' then Some ArgHelp
      else if arg = ''--version'' \<or> arg = ''-v'' then Some ArgVersion
      else None)"

definition isConfigFlag :: "string \<Rightarrow> bool" where
  "isConfigFlag arg \<longleftrightarrow> arg = ''--config'' \<or> arg = ''-c''"

fun mainArgs :: "(string \<Rightarrow> string option) \<Rightarrow> string list \<Rightarrow> LdapConfig \<times> string \<times> bool \<Rightarrow> MainArgs" where
  "mainArgs read_file [] st = (case st of (c, command, test_config) \<Rightarrow> ArgRun c command test_config)"
| "mainArgs read_file [arg] st =
     (case leavesAt arg of
        Some leave \<Rightarrow> leave
      | None \<Rightarrow> if isConfigFlag arg then ArgUnloadable else mainArgs read_file [] (plainFlag arg st))"
| "mainArgs read_file (arg # file # args) st =
     (case leavesAt arg of
        Some leave \<Rightarrow> leave
      | None \<Rightarrow>
          if isConfigFlag arg then
            (case loadFromFile (read_file file) (fst st) of
               None \<Rightarrow> ArgAbort
             | Some (ok, c) \<Rightarrow> if \<not> ok then ArgUnloadable else mainArgs read_file args (c, snd st))
          else mainArgs read_file (file # args) (plainFlag arg st))"

text \<open>How the program goes on: it ends with an exit code and what it printed, it is aborted, or it serves.\<close>

datatype ('x, 's) MainResult = Exits int string | Aborts | Serves "('x, 's) LdapDaemon"

definition daemonMain ::
  "Platform \<Rightarrow> ('x, 's) Startup \<Rightarrow> ListenCalls \<Rightarrow> ListenCalls \<Rightarrow> string list \<Rightarrow> ('x, 's) MainResult" where
  "daemonMain platform U plain ldaps args =
     (case mainArgs (su_read_file U) args (defaultConfig, ''start'', False) of
        ArgHelp \<Rightarrow> Exits 0 printUsage
      | ArgVersion \<Rightarrow> Exits 0 (printVersion platform)
      | ArgUnloadable \<Rightarrow> Exits 1 []
      | ArgAbort \<Rightarrow> Aborts
      | ArgRun c command test_config \<Rightarrow>
          let da = newDaemon c in
          if test_config \<or> command = ''test'' then Exits (if testConfig U da then 0 else 1) []
          else if command = ''stop'' \<or> command = ''reload'' \<or> command = ''status'' then Exits 2 []
          else case start U plain ldaps da of
            (Started, da) \<Rightarrow> Serves da
          | (StartFailed, da) \<Rightarrow> Exits 1 []
          | (Terminated, da) \<Rightarrow> Aborts)"

text \<open>The loop that waits, over what it reads of \<^verbatim>\<open>g_shutdown\<close>, which the signal handler sets, and of \<^verbatim>\<open>running\<close> at each poll: how many polls
  it takes to leave, \<open>None\<close> while it has not.  Then the daemon is stopped and the exit code is 0.\<close>

fun waitLoop :: "(bool \<times> bool) list \<Rightarrow> nat option" where
  "waitLoop [] = None"
| "waitLoop ((g_shutdown, running) # polls) =
     (if \<not> g_shutdown \<and> running then map_option Suc (waitLoop polls) else Some 0)"

definition mainServe :: "(bool \<times> bool) list \<Rightarrow> ('x, 's) LdapDaemon \<Rightarrow> (int \<times> ('x, 's) LdapDaemon) option" where
  "mainServe polls da = map_option (\<lambda>_. (0, stopListening da)) (waitLoop polls)"

section \<open>Sessions and sockets\<close>

definition liveWorkers :: "('x, 's) LdapDaemon \<Rightarrow> 's SessionWorker list" where
  "liveWorkers da = filter (\<lambda>w. \<not> wk_finished w) (da_workers da)"

definition workerSockets :: "'s SessionWorker list \<Rightarrow> int multiset" where
  "workerSockets ws = sum_list (map (\<lambda>w. socketOf (cn_fd (wk_connection w))) (filter (\<lambda>w. \<not> wk_finished w) ws))"

text \<open>Every open socket is a listener's or belongs to a session that runs.\<close>

definition sockets_owned :: "('x, 's) LdapDaemon \<Rightarrow> bool" where
  "sockets_owned da \<longleftrightarrow>
     mset (da_sockets da) = socketOf (da_listener da) + socketOf (da_ldaps_listener da) + workerSockets (da_workers da)"

definition within_limit :: "('x, 's) LdapDaemon \<Rightarrow> bool" where
  "within_limit da \<longleftrightarrow>
     (cf_max_sessions (da_config da) \<noteq> 0 \<longrightarrow> length (da_workers da) \<le> unat (cf_max_sessions (da_config da)))"

definition thread_ok :: "('x, 's) LdapDaemon \<Rightarrow> bool" where
  "thread_ok da \<longleftrightarrow>
     (\<not> da_running da \<longrightarrow> da_listener da = INVALID_SOCKET_VALUE \<and> da_ldaps_listener da = INVALID_SOCKET_VALUE) \<and>
     (da_accept_thread da = NoThread \<longrightarrow> \<not> da_running da \<and> da_workers da = [])"

definition daemon_inv :: "('x, 's) LdapDaemon \<Rightarrow> bool" where
  "daemon_inv da \<longleftrightarrow> sockets_owned da \<and> within_limit da \<and> thread_ok da"

lemma newWorker_simps [simp]: "wk_connection (newWorker c ldaps) = c" "\<not> wk_finished (newWorker c ldaps)"
  by (simp_all add: newWorker_def)

lemma workerSockets_live [simp]: "workerSockets (filter (\<lambda>w. \<not> wk_finished w) ws) = workerSockets ws"
  by (simp add: workerSockets_def)

lemma workerSockets_append [simp]: "workerSockets (ws @ vs) = workerSockets ws + workerSockets vs"
  by (simp add: workerSockets_def)

lemma workerSockets_simps [simp]:
  "workerSockets [] = {#}"
  "workerSockets (w # ws) = (if wk_finished w then {#} else socketOf (cn_fd (wk_connection w))) + workerSockets ws"
  by (simp_all add: workerSockets_def)

lemma workerSockets_finish:
  assumes "i < length ws" "\<not> wk_finished (ws ! i)"
  shows "workerSockets ws = socketOf (cn_fd (wk_connection (ws ! i))) + workerSockets (ws[i := (ws ! i)\<lparr>wk_finished := True\<rparr>])"
  using assms
proof (induction ws arbitrary: i)
  case (Cons w ws)
  then show ?case by (cases i) (auto simp: add.left_commute)
qed simp

lemma launchSession_cases:
  assumes "launchSession spawned c ldaps da = Some da'"
  obtains (added) "da' = da\<lparr>da_workers := liveWorkers da @ [newWorker c ldaps]\<rparr>"
      "cf_max_sessions (da_config da) \<noteq> 0 \<longrightarrow> length (liveWorkers da) < unat (cf_max_sessions (da_config da))"
  | (refused) "da' = da\<lparr>da_workers := liveWorkers da, da_sockets := closeSocket (cn_fd c) (da_sockets da)\<rparr>"
      "cf_max_sessions (da_config da) \<noteq> 0" "unat (cf_max_sessions (da_config da)) \<le> length (liveWorkers da)"
proof (cases "cf_max_sessions (da_config da) \<noteq> 0 \<and> unat (cf_max_sessions (da_config da)) \<le> length (liveWorkers da)")
  case True
  with assms show ?thesis
    by (intro refused) (simp_all add: launchSession_def reapWorkers_def liveWorkers_def Let_def closeConnection_def unat_gt_0)
next
  case False
  with assms show ?thesis
    by (intro added) (auto simp: launchSession_def reapWorkers_def liveWorkers_def Let_def unat_gt_0 split: if_split_asm)
qed

lemma liveWorkers_le: "length (liveWorkers da) \<le> length (da_workers da)"
  by (simp add: liveWorkers_def)

text \<open>A new connection's socket is the one not owned yet; after \<^verbatim>\<open>launchSession\<close> it is owned or closed.\<close>

lemma launchSession_inv:
  assumes "launchSession spawned c ldaps da = Some da'"
    and "mset (da_sockets da) = socketOf (cn_fd c) + (socketOf (da_listener da) + socketOf (da_ldaps_listener da) + workerSockets (da_workers da))"
    and "within_limit da" "thread_ok da" "da_accept_thread da \<noteq> NoThread"
  shows "daemon_inv da' \<and> da_config da' = da_config da \<and> da_accept_thread da' = da_accept_thread da"
  using assms(1)
proof (cases rule: launchSession_cases)
  case added
  with assms show ?thesis
    by (auto simp: daemon_inv_def sockets_owned_def within_limit_def thread_ok_def liveWorkers_def algebra_simps)
next
  case refused
  have "within_limit da'" using refused assms(3) liveWorkers_le [of da] by (simp add: within_limit_def)
  with refused assms show ?thesis
    by (simp add: daemon_inv_def sockets_owned_def thread_ok_def liveWorkers_def mset_closeSocket)
qed

lemma acceptOne_inv:
  fixes da :: "('x, 's) LdapDaemon"
  assumes "acceptOne A spawned ldaps da = Some da'" "daemon_inv da" "da_accept_thread da \<noteq> NoThread"
  shows "daemon_inv da' \<and> da_config da' = da_config da \<and> da_accept_thread da' = da_accept_thread da"
proof -
  obtain c :: "'s TcpConnection option" and fds where a: "acceptConnection A 100 (if ldaps then da_ldaps_listener da else da_listener da) (da_sockets da) = (c, fds)"
    by fastforce
  show ?thesis
  proof (cases c)
    case None
    with a assms show ?thesis by (simp add: acceptOne_def)
  next
    case (Some conn)
    with a assms(1) have l: "launchSession spawned conn ldaps (da\<lparr>da_sockets := fds\<rparr>) = Some da'" by (simp add: acceptOne_def)
    have "mset fds = socketOf (cn_fd conn) + mset (da_sockets da)" using acceptConnection_sockets(1) [OF a] Some by simp
    with launchSession_inv [OF l] assms(2,3) show ?thesis
      by (auto simp: daemon_inv_def sockets_owned_def within_limit_def thread_ok_def)
  qed
qed

lemma finishWorker_inv:
  assumes "daemon_inv da" "i < length (da_workers da)" "\<not> wk_finished (da_workers da ! i)"
  shows "daemon_inv (finishWorker i da)"
proof -
  note w = workerSockets_finish [OF assms(2,3)]
  have "sockets_owned (finishWorker i da)"
    using assms(1) unfolding daemon_inv_def sockets_owned_def finishWorker_def Let_def closeConnection_def
    by (simp add: mset_closeSocket) (subst w, simp add: algebra_simps)
  with assms show ?thesis
    by (auto simp: daemon_inv_def within_limit_def thread_ok_def finishWorker_def Let_def)
qed

lemma workerSockets_move:
  assumes "i < length ws"
  shows "workerSockets (ws[i := (ws ! i)\<lparr>wk_at := phase\<rparr>]) = workerSockets ws"
  using assms
proof (induction ws arbitrary: i)
  case (Cons w ws)
  then show ?case by (cases i) auto
qed simp

lemma workerTurn_inv:
  assumes "daemon_inv da" "i < length (da_workers da)" "\<not> wk_finished (da_workers da ! i)"
  shows "daemon_inv (workerTurn goes_on i da) \<and> da_config (workerTurn goes_on i da) = da_config da"
proof (cases "sessionTurn (da_running da) goes_on (wk_at (da_workers da ! i))")
  case None
  with finishWorker_inv [OF assms] show ?thesis by (simp add: workerTurn_def finishWorker_def Let_def)
next
  case (Some phase)
  with assms show ?thesis
    by (auto simp: workerTurn_def daemon_inv_def sockets_owned_def within_limit_def thread_ok_def workerSockets_move)
qed

lemma thread_step_inv:
  assumes "thread_step S da da'" "daemon_inv da"
  shows "daemon_inv da' \<and> da_config da' = da_config da"
  using assms
proof (induction rule: thread_step.induct)
  case (loop da)
  then show ?case by (simp add: daemon_inv_def sockets_owned_def within_limit_def thread_ok_def)
next
  case (plain da A spawned da')
  then have "daemon_inv da' \<and> da_config da' = da_config da" using acceptOne_inv [OF plain(2)] by simp
  then show ?case by (auto simp: daemon_inv_def sockets_owned_def within_limit_def thread_ok_def)
next
  case (ldaps da A spawned da')
  then have "daemon_inv da' \<and> da_config da' = da_config da" using acceptOne_inv [OF ldaps(2)] by simp
  then show ?case by (auto simp: daemon_inv_def sockets_owned_def within_limit_def thread_ok_def)
next
  case (turn i da goes_on)
  then show ?case using workerTurn_inv by blast
next
  case (join da)
  moreover have "workerSockets (da_workers da) = {#}" using join(3) by (induction "da_workers da") (auto simp: workerSockets_def list_all_iff)
  ultimately show ?case
    by (simp add: joinWorkers_def daemon_inv_def sockets_owned_def within_limit_def thread_ok_def)
qed

lemma daemon_step_inv:
  assumes "daemon_step da da'" "daemon_inv da"
  shows "daemon_inv da' \<and> da_config da' = da_config da"
  using assms
proof (induction rule: daemon_step.induct)
  case (thread S da da')
  then show ?case by (rule thread_step_inv)
next
  case (stop da)
  then show ?case
    by (auto simp: stopListening_def closeListener_def daemon_inv_def sockets_owned_def within_limit_def thread_ok_def mset_closeSocket)
qed

lemma initialize_kept:
  assumes "initialize U da = (ok, da')"
  shows "da_config da' = da_config da" "da_listener da' = da_listener da" "da_ldaps_listener da' = da_ldaps_listener da"
    "da_workers da' = da_workers da" "da_sockets da' = da_sockets da" "da_accept_thread da' = da_accept_thread da"
    "da_running da' = da_running da"
  using assms by (auto simp: initialize_def Let_def split: if_splits prod.splits)

lemma listenLdaps_sockets:
  assumes "listenLdaps L da = (True, da')" "mset (da_sockets da) = socketOf (da_listener da)" "da_ldaps_listener da = INVALID_SOCKET_VALUE"
  shows "mset (da_sockets da') = socketOf (da_listener da') + socketOf (da_ldaps_listener da')" "da_workers da' = da_workers da"
    "da_config da' = da_config da"
  using assms
  by (auto simp: listenLdaps_def mset_openSocket mset_closeSocket dest!: bindAndListen_sockets(2) split: if_splits prod.splits)

lemma started_inv:
  assumes "start U plain ldaps (newDaemon c) = (Started, da)"
  shows "daemon_inv da" "da_config da = c"
proof -
  obtain d1 fd fds d2 where i: "initialize U (newDaemon c) = (True, d1)"
    and b: "bindAndListen plain (cf_listen_address (da_config d1)) (cf_ldap_port (da_config d1)) (da_listener d1) (da_sockets d1) = (True, fd, fds)"
    and l: "listenLdaps ldaps (d1\<lparr>da_listener := fd, da_sockets := fds\<rparr>) = (True, d2)"
    and d: "da = d2\<lparr>da_running := True, da_accept_thread := Checking\<rparr>"
    using assms by (auto simp: start_def Let_def split: prod.splits if_splits)
  note k = initialize_kept [OF i]
  have "mset fds = socketOf fd" using bindAndListen_sockets(2) [OF b] k by (simp add: newDaemon_def mset_openSocket)
  with listenLdaps_sockets [OF l] k d show "daemon_inv da" "da_config da = c"
    by (simp_all add: daemon_inv_def sockets_owned_def within_limit_def thread_ok_def newDaemon_def)
qed

lemma reached_inv:
  assumes "start U plain ldaps (newDaemon c) = (Started, da0)" "daemon_step\<^sup>*\<^sup>* da0 da"
  shows "daemon_inv da \<and> da_config da = c"
  using assms(2) started_inv [OF assms(1)]
  by (induction rule: rtranclp_induct) (auto dest: daemon_step_inv)

section \<open>Shutdown\<close>











section \<open>Client certificates\<close>

lemma initializeTls_mode:
  assumes "openssl_laws S mode version" "initializeTls S c ctx = (True, ctx')" "cf_enable_ldaps c \<or> cf_enable_starttls c"
  shows "\<exists>x. ctx' = Some x \<and> version x = TLS1_2_VERSION \<and>
    (cf_tls_verify_client c \<longrightarrow> mode x = SSL_VERIFY_PEER OR SSL_VERIFY_FAIL_IF_NO_PEER_CERT)"
proof -
  obtain ok ctx1 where l: "loadCertificate S (cf_tls_cert_file c) (cf_tls_key_file c) ctx = (ok, ctx1)" by fastforce
  with assms(2,3) have ok by (auto simp: initializeTls_def split: if_splits)
  with l have "loadCertificate S (cf_tls_cert_file c) (cf_tls_key_file c) ctx = (True, ctx1)" by simp
  from loadCertificate_version [OF assms(1) this] obtain x where x: "ctx1 = Some x" "version x = TLS1_2_VERSION" by blast
  obtain y where y: "(if cf_tls_ca_file c \<noteq> [] then snd (loadCa S (cf_tls_ca_file c) ctx1) else ctx1) = Some y" "version y = TLS1_2_VERSION"
    using loadCa_version [OF assms(1), of "cf_tls_ca_file c" x] x
    by (cases "cf_tls_ca_file c = []"; cases "loadCa S (cf_tls_ca_file c) (Some x)") fastforce+
  show ?thesis
    using assms(2,3) l \<open>ok\<close> y requireClientCertificate_mode [OF assms(1), of y] by (auto simp: initializeTls_def Let_def split: if_splits)
qed

lemma initialize_tls:
  assumes "initialize U da = (True, da')" "\<not> da_initialized da"
  shows "initializeTls (su_ssl U) (da_config da) (da_tls da) = (True, da_tls da')"
  using assms by (auto simp: initialize_def Let_def split: if_splits prod.splits)

section \<open>Inputs for the witnesses\<close>

text \<open>OpenSSL with contexts and connections that are just a verification mode and a version, whose peers all show the certificate \<^verbatim>\<open>c\<close>.\<close>

definition demoSsl :: "(int32 \<times> int32, int32) OpenSsl" where
  "demoSsl =
     \<lparr>ssl_ctx_new = (\<lambda>_. Some (0, 0)), ssl_set_options = (\<lambda>_ x. x), ssl_set_min_proto_version = (\<lambda>v x. (fst x, v)),
      ssl_use_certificate_file = (\<lambda>_ x. (True, x)), ssl_use_PrivateKey_file = (\<lambda>_ x. (True, x)), ssl_check_private_key = (\<lambda>_. True),
      ssl_load_verify_locations = (\<lambda>_ x. (True, x)), ssl_set_verify = (\<lambda>m x. (m, snd x)), ssl_load_client_CA_file = (\<lambda>_. None),
      ssl_set_client_CA_list = (\<lambda>_ x. x), ssl_new = (\<lambda>x. Some (fst x)), ssl_set_fd = (\<lambda>_ s. s), ssl_set_tlsext_host_name = (\<lambda>_ s. s),
      ssl_handshake = (\<lambda>_ s. ([SslDone ()], s)), ssl_get_verify_mode = (\<lambda>s. s), ssl_get_peer_certificate = (\<lambda>_. Some ''c''),
      ssl_get_verify_result_ok = (\<lambda>_. True)\<rparr>"

lemma demoSsl_laws: "openssl_laws demoSsl fst snd"
  by (simp add: openssl_laws_def demoSsl_def)

definition demoStartup :: "(int32 \<times> int32, int32) Startup" where
  "demoStartup = \<lparr>su_sqlite_built = False, su_readable = (\<lambda>_. False), su_read_file = (\<lambda>_. None), su_listing = (\<lambda>_. None),
     su_backend_initialize = (\<lambda>_. True), su_ssl = demoSsl\<rparr>"

definition demoListen :: "int \<Rightarrow> ListenCalls" where
  "demoListen fd = \<lparr>lc_socket = fd, lc_inet_pton = (\<lambda>_. None), lc_bind = (\<lambda>_ _. True), lc_listen = True\<rparr>"

definition limitedConfig :: LdapConfig where
  "limitedConfig = defaultConfig\<lparr>cf_max_sessions := 1\<rparr>"

definition mutualConfig :: LdapConfig where
  "mutualConfig = defaultConfig\<lparr>cf_enable_ldaps := True, cf_tls_cert_file := ''c'', cf_tls_key_file := ''k'', cf_tls_ca_file := ''a'',
     cf_tls_verify_client := True\<rparr>"

definition peerConnection :: "int \<Rightarrow> 's TcpConnection" where
  "peerConnection fd = \<lparr>cn_fd = fd, cn_peer = ''h:1'', cn_ssl = None\<rparr>"

definition demoAccept :: "int \<Rightarrow> AcceptCalls" where
  "demoAccept fd = \<lparr>ac_readable = True, ac_client = fd, ac_host = ''h'', ac_port = 1\<rparr>"

definition startedDaemon :: "(int32 \<times> int32, int32) LdapDaemon" where
  "startedDaemon = snd (start demoStartup (demoListen 3) (demoListen 4) (newDaemon limitedConfig))"

lemma demo_started: "start demoStartup (demoListen 3) (demoListen 4) (newDaemon limitedConfig) = (Started, startedDaemon)"
proof -
  have "fst (start demoStartup (demoListen 3) (demoListen 4) (newDaemon limitedConfig)) = Started" by code_simp
  then show ?thesis by (simp add: startedDaemon_def prod_eq_iff)
qed

text \<open>One connection arrives and is served: the limit of one session is reached.\<close>

definition oneSession :: "(int32 \<times> int32, int32) LdapDaemon" where
  "oneSession = the (acceptOne (demoAccept 5) True False (startedDaemon\<lparr>da_accept_thread := AtPlain\<rparr>))\<lparr>da_accept_thread := Checking\<rparr>"

lemma demo_oneSession:
  "da_workers oneSession = [newWorker (peerConnection 5) False]"
  "da_sockets oneSession = [5, 3]" "da_listener oneSession = 3" "da_ldaps_listener oneSession = -1"
  by code_simp+

lemma demo_reached: "daemon_step\<^sup>*\<^sup>* startedDaemon oneSession"
proof -
  have d: "da_running startedDaemon" "da_accept_thread startedDaemon = Checking" "\<not> cf_enable_ldaps (da_config startedDaemon)"
      "acceptOne (demoAccept 5) True False (startedDaemon\<lparr>da_accept_thread := AtPlain\<rparr>) \<noteq> None"
    by code_simp+
  then have "daemon_step startedDaemon (startedDaemon\<lparr>da_accept_thread := AtPlain\<rparr>)"
    using thread_step.loop [of startedDaemon] by (simp add: daemon_step.thread)
  moreover from d have "daemon_step (startedDaemon\<lparr>da_accept_thread := AtPlain\<rparr>) oneSession"
    using thread_step.plain [of "startedDaemon\<lparr>da_accept_thread := AtPlain\<rparr>" "demoAccept 5" True] by (auto simp: oneSession_def intro: daemon_step.thread)
  ultimately show ?thesis by (meson rtranclp.simps)
qed

section \<open>Properties\<close>

text \<open>C16: Limits and sockets: in every state that a started daemon reaches, however connections, the ends of sessions and the shutdown
  interleave, there are at most \<^verbatim>\<open>max_sessions\<close> workers when a limit is set; every open socket is that of a listener or of a session
  that has not finished, and is open once; and when the daemon has stopped and joined its threads, no socket is left open.\<close>

theorem sessions_and_sockets_bounded:
  assumes "start U plain ldaps (newDaemon c) = (Started, da0)" "daemon_step\<^sup>*\<^sup>* da0 da"
  shows "(cf_max_sessions c \<noteq> 0 \<longrightarrow> length (da_workers da) \<le> unat (cf_max_sessions c)) \<and>
    mset (da_sockets da) = socketOf (da_listener da) + socketOf (da_ldaps_listener da) + workerSockets (da_workers da) \<and>
    (da_accept_thread da = NoThread \<longrightarrow> da_sockets da = [])"
  using reached_inv [OF assms] by (auto simp: daemon_inv_def sockets_owned_def within_limit_def thread_ok_def)

theorem sessions_and_sockets_bounded_witness:
  "length (da_workers oneSession) = 1 \<and>
   mset (da_sockets oneSession) = socketOf (da_listener oneSession) + socketOf (da_ldaps_listener oneSession) + workerSockets (da_workers oneSession)"
  using sessions_and_sockets_bounded [OF demo_started demo_reached] by (simp add: demo_oneSession)

text \<open>C18: A connection is refused only when the server is full: in every reachable state, a new connection gets a worker of its own,
  next to those that have not finished, unless exactly \<^verbatim>\<open>max_sessions\<close> sessions are running; then it is closed and they go on.
  Finished sessions never count.\<close>

theorem refused_only_when_full:
  assumes "start U plain ldaps (newDaemon c) = (Started, da0)" "daemon_step\<^sup>*\<^sup>* da0 da"
    and "launchSession spawned conn from_ldaps da = Some da'"
  shows "da' = da\<lparr>da_workers := liveWorkers da @ [newWorker conn from_ldaps]\<rparr> \<and>
      (cf_max_sessions c \<noteq> 0 \<longrightarrow> length (liveWorkers da) < unat (cf_max_sessions c)) \<or>
    da' = da\<lparr>da_workers := liveWorkers da, da_sockets := closeSocket (cn_fd conn) (da_sockets da)\<rparr> \<and>
      cf_max_sessions c \<noteq> 0 \<and> length (liveWorkers da) = unat (cf_max_sessions c)"
proof -
  note r = reached_inv [OF assms(1,2)]
  from assms(3) show ?thesis
  proof (cases rule: launchSession_cases)
    case added
    with r show ?thesis by simp
  next
    case refused
    with r liveWorkers_le [of da] have "length (liveWorkers da) = unat (cf_max_sessions c)"
      by (auto simp: daemon_inv_def within_limit_def)
    with refused r show ?thesis by simp
  qed
qed

theorem refused_only_when_full_witness:
  "\<exists>da'. launchSession True (peerConnection 6) False oneSession = Some da' \<and> da_workers da' = da_workers oneSession \<and>
     length (liveWorkers oneSession) = unat (cf_max_sessions limitedConfig)"
proof -
  have n: "launchSession True (peerConnection 6) False oneSession \<noteq> None" by code_simp
  then obtain da' where da': "launchSession True (peerConnection 6) False oneSession = Some da'" by blast
  have l: "liveWorkers oneSession = da_workers oneSession" by (simp add: liveWorkers_def demo_oneSession)
  from refused_only_when_full [OF demo_started demo_reached da'] l da' show ?thesis
    by (auto simp: demo_oneSession limitedConfig_def)
qed

text \<open>C17: Demanded client certificates are enforced: when the daemon has initialized with TLS and \<^verbatim>\<open>tls_verify_client\<close>, its context has
  TLS 1.2 as lowest version, and every connection whose handshake succeeds, over LDAPS or StartTLS, shows its session a peer with a
  certificate that verified.  OpenSSL is assumed to keep its documented laws.\<close>

theorem client_certificates_enforced:
  assumes "openssl_laws (su_ssl U) mode version" "initialize U (newDaemon c) = (True, da)"
    and "cf_enable_ldaps c \<or> cf_enable_starttls c" "cf_tls_verify_client c"
    and "handshakeTls (su_ssl U) (da_tls da) True sni conn = Some (True, conn')"
  shows "(\<exists>x. da_tls da = Some x \<and> version x = TLS1_2_VERSION) \<and> tp_tls (tlsPeer (su_ssl U) conn') \<and> tp_verified (tlsPeer (su_ssl U) conn')"
proof -
  from initialize_tls [OF assms(2)] have "initializeTls (su_ssl U) c None = (True, da_tls da)" by (simp add: newDaemon_def)
  from initializeTls_mode [OF assms(1) this assms(3)] assms(4) obtain x where x: "da_tls da = Some x" "version x = TLS1_2_VERSION"
      "mode x = SSL_VERIFY_PEER OR SSL_VERIFY_FAIL_IF_NO_PEER_CERT" by blast
  with handshakeTls_verified [OF assms(1) x(3)] assms(5) have "tlsPeerVerified (su_ssl U) conn'" by metis
  then show ?thesis using x by (cases "cn_ssl conn'") (auto simp: tlsPeer_def tlsPeerVerified_def)
qed

theorem client_certificates_enforced_witness:
  "\<exists>da conn'. initialize demoStartup (newDaemon mutualConfig) = (True, da) \<and>
     handshakeTls demoSsl (da_tls da) True [] (peerConnection 5) = Some (True, conn') \<and> tp_verified (tlsPeer demoSsl conn')"
proof -
  obtain ok da where i: "initialize demoStartup (newDaemon mutualConfig) = (ok, da)" by fastforce
  have "fst (initialize demoStartup (newDaemon mutualConfig))"
      "map_option fst (handshakeTls demoSsl (da_tls (snd (initialize demoStartup (newDaemon mutualConfig)))) True [] (peerConnection 5)) = Some True"
    by code_simp+
  with i obtain conn' where h: "ok" "handshakeTls demoSsl (da_tls da) True [] (peerConnection 5) = Some (True, conn')" by auto
  have s: "su_ssl demoStartup = demoSsl" by (simp add: demoStartup_def)
  have "cf_enable_ldaps mutualConfig" "cf_tls_verify_client mutualConfig" by (simp_all add: mutualConfig_def)
  with client_certificates_enforced [of demoStartup fst snd mutualConfig da "[]" "peerConnection 5" conn'] demoSsl_laws h i s
  show ?thesis by auto
qed



text \<open>A command that is none of the listed ones starts the server, and an unknown option is passed over.\<close>

lemma unknown_command_starts:
  "\<exists>da. daemonMain Linux demoStartup (demoListen 3) (demoListen 4) [''--tset-config'', ''sttaus''] = Serves da"
proof -
  have "(case daemonMain Linux demoStartup (demoListen 3) (demoListen 4) [''--tset-config'', ''sttaus''] of Serves da \<Rightarrow> True | _ \<Rightarrow> False)"
    by code_simp
  then show ?thesis by (auto split: MainResult.splits)
qed

end
