(* ===== verification/Usage.thy ===== *)
theory Usage
  imports Tools Daemon
begin

text \<open>
  What the command-line tools print before they do anything: the usage and version texts of \<^verbatim>\<open>src/simple-ldapd/cli/common.cpp\<close> and the
  exit code that goes with them.  The lemmas compare the texts with the argument loop: every option they list is one that the loop
  acts on.
\<close>

definition clientOptionLines :: "string list" where
  "clientOptionLines =
     [''Options:'',
      ''  -H URI         LDAP URI (ldap://host:port or ldaps://host:port)'',
      ''  -h HOST        LDAP host (OpenLDAP-compatible)'',
      ''  -p PORT        LDAP port'',
      ''  -Z             StartTLS after connect'',
      ''  --ca-file FILE Trust CA (or server cert) for TLS'',
      ''  --cert FILE    Client certificate for SASL EXTERNAL'',
      ''  --key FILE     Client private key for SASL EXTERNAL'',
      ''  -x             Simple authentication'',
      ''  -Y MECH        SASL mechanism (PLAIN, DIGEST-MD5, EXTERNAL, GSSAPI)'',
      ''  -U AUTHCID     SASL authentication identity'',
      ''  --keytab FILE  Lab GSSAPI keytab (or SIMPLE_LDAPD_KTNAME)'',
      ''  -D BIND_DN     Bind DN'',
      ''  -w PASSWORD    Bind password'',
      ''  -W             Prompt for bind password'',
      ''  -b BASE_DN     Search base DN'',
      ''  -s SCOPE       base, one, or sub (default: sub)'',
      ''  -A             Types only (attribute names, no values)'',
      ''  -l SECONDS     Search time limit (0 = unlimited)'',
      ''  -z COUNT       Search size limit (0 = unlimited)'',
      ''  -E pr=N        Paged results (RFC 2696), N entries per page'',
      ''  -a             Treat LDIF records as add (ldapmodify)'',
      ''  -f FILE        LDIF file'',
      ''  --help         Show this help'',
      ''  --version      Show version'']"

definition printClientUsage :: "string \<Rightarrow> string \<Rightarrow> string list" where
  "printClientUsage name summary =
     [''Usage: '' @ name @ '' [options] [filter [attributes...]]'', summary, []] @ clientOptionLines"

definition printPasswdUsage :: "string list" where
  "printPasswdUsage =
     [''Usage: ldappasswd [options] [user]'',
      ''Change a user password'', [],
      ''Options:'',
      ''  -H URI         LDAP URI (ldap://host:port or ldaps://host:port)'',
      ''  -h HOST        LDAP host (OpenLDAP-compatible)'',
      ''  -p PORT        LDAP port'',
      ''  -Z             StartTLS after connect'',
      ''  --ca-file FILE Trust CA (or server cert) for TLS'',
      ''  -x             Simple authentication'',
      ''  -Y MECH        SASL mechanism (PLAIN, DIGEST-MD5, EXTERNAL, GSSAPI)'',
      ''  -U AUTHCID     SASL authentication identity'',
      ''  --keytab FILE  Lab GSSAPI keytab (or SIMPLE_LDAPD_KTNAME)'',
      ''  -D BIND_DN     Bind DN'',
      ''  -w PASSWORD    Bind password'',
      ''  -W             Prompt for bind password'',
      ''  -s PASSWORD    New password'',
      ''  -a PASSWORD    Old password (optional if already bound as the user)'',
      ''  -S             Prompt for the new password'',
      ''  --help         Show this help'',
      ''  --version      Show version'']"

definition printToolVersion :: "string \<Rightarrow> string" where
  "printToolVersion name = textLines [name @ '' (simple-ldapd) '' @ kVersion]"

text \<open>Exit code and standard output of a tool.\<close>

definition toolOutput :: "string \<Rightarrow> string list \<Rightarrow> ToolEnd \<Rightarrow> int \<times> string" where
  "toolOutput name usage end' =
     (case end' of
        UsageExit code \<Rightarrow> (code, textLines usage)
      | VersionExit \<Rightarrow> (0, printToolVersion name)
      | Exit code out \<Rightarrow> (code, out))"

text \<open>The options a usage text lists, and whether the argument loop acts on one: it takes a value or changes the options.\<close>

definition listedOptions :: "string list \<Rightarrow> string list" where
  "listedOptions usage = map (\<lambda>l. takeWhile (\<lambda>ch. ch \<noteq> CHR '' '') (drop 2 l)) (filter (\<lambda>l. take 3 l = ''  -'') usage)"

definition actedOn :: "bool \<Rightarrow> string \<Rightarrow> bool" where
  "actedOn passwd opt =
     (let st = \<lparr>as_options = defaultOptions\<lparr>co_simple_auth := False\<rparr>, as_port = None, as_positional_filter = False\<rparr> in
      (case valueOption passwd opt of Some f \<Rightarrow> True | None \<Rightarrow> plainArg passwd opt st \<noteq> st))"

lemma listed_options_acted_on:
  "list_all (actedOn False) (listedOptions clientOptionLines)" "list_all (actedOn True) (listedOptions printPasswdUsage)"
  by code_simp+

text \<open>The other way round it fails: \<^verbatim>\<open>ldappasswd\<close> takes a client certificate, which its usage does not list.\<close>

lemma passwd_cert_unlisted: "actedOn True ''--cert'' \<and> ''--cert'' \<notin> set (listedOptions printPasswdUsage)"
  by code_simp

end
