(* ===== verification/Spec2Isabelle.thy ===== *)
theory Spec2Isabelle
  imports Interleaving SqliteTables EndToEnd Usage
begin

text \<open>
  A verification development for the LDAP directory server \<^verbatim>\<open>simple-ldapd\<close>.

  \<^bold>\<open>The program.\<close>  A daemon (\<^verbatim>\<open>src/src/simple-ldapd\<close>) accepts TCP connections and runs one session per
  connection.  A session frames bytes into protocol data units (\<^verbatim>\<open>utils/net.cpp\<close>), decodes each into
  an LDAP message (\<^verbatim>\<open>protocol/message.cpp\<close> over \<^verbatim>\<open>protocol/ber.cpp\<close> and \<^verbatim>\<open>protocol/filter.cpp\<close>), and hands
  it to a handler (\<^verbatim>\<open>core/session.cpp\<close>).  Handlers authenticate (\<^verbatim>\<open>auth/bind.cpp\<close>, \<^verbatim>\<open>auth/sasl.cpp\<close>,
  \<^verbatim>\<open>auth/password.cpp\<close>, \<^verbatim>\<open>auth/gssapi.cpp\<close>, limited by \<^verbatim>\<open>security/rate_limiter.cpp\<close>), ask the access rules
  (\<^verbatim>\<open>security/acl.cpp\<close>, from \<^verbatim>\<open>config/config.cpp\<close>), check the schema (\<^verbatim>\<open>schema/registry.cpp\<close>) and read or
  change the directory through the abstract class \<^verbatim>\<open>Backend\<close>, implemented by \<^verbatim>\<open>backend/memory.cpp\<close>,
  \<^verbatim>\<open>backend/ldif.cpp\<close> and \<^verbatim>\<open>backend/sqlite.cpp\<close>.  The daemon (\<^verbatim>\<open>core/daemon.cpp\<close>, started by \<^verbatim>\<open>src/main/simple-ldapd.cpp\<close>) builds
  these parts from the configuration and owns the listeners and the worker threads.  Seven tools (\<^verbatim>\<open>src/main/ldap*.cpp\<close>) are
  clients over \<^verbatim>\<open>cli/common.cpp\<close> and \<^verbatim>\<open>cli/client.cpp\<close>.

  \<^bold>\<open>Theories.\<close>
  \<^item> \<open>LdapPrelude\<close>: bytes, characters, string searches, and \<^verbatim>\<open>std::map\<close> as a sorted association list
    (\<open>smap\<close>), with the lemma collections that the components share.  \<open>CppStd\<close>: the parts of the C++
    library the code calls (line splitting, \<^verbatim>\<open>strtol\<close>, \<^verbatim>\<open>stoi\<close>, \<^verbatim>\<open>to_string\<close>).
  \<^item> \<open>Dn\<close> (\<^verbatim>\<open>utils/dn.cpp\<close>): names compared up to ASCII case; \<open>ci_map\<close> reads a sorted map as a partial map
    from folded names.
  \<^item> \<open>Entry\<close> (\<^verbatim>\<open>backend/modify.cpp\<close>): entries and attribute modifications, shown to refine operations on
    that partial map.
  \<^item> \<open>Ber\<close>, \<open>SearchFilters\<close>, \<open>Message\<close>: the codecs, with a calculus of encodings (\<open>parses\<close>, \<open>decodes\<close>)
    that gives the round trip of every message.  Integers keep their width: lengths below
    \<open>2\<^sup>3\<^sup>2\<close>, message numbers and sizes as 32-bit words.
  \<^item> \<open>Net\<close>: the loops around \<^verbatim>\<open>recv\<close>, \<^verbatim>\<open>send\<close> and OpenSSL and the framing.  The locale \<open>byte_stream\<close> is what
    framing relies on; sockets that deliver segments are shown to be one.  \<open>Transport\<close> (\<^verbatim>\<open>security/tls.cpp\<close> and the rest of
    \<^verbatim>\<open>utils/net.cpp\<close>): the TLS context over the record \<open>OpenSsl\<close>, connections (moved ones included) and listeners, with the list of open sockets.
  \<^item> \<open>MemoryBackend\<close>: the interface \<open>Backend\<close>, the locale \<open>directory\<close> (the contract every client relies on:
    a state represents a partial map from folded names to entries) and the in-memory backend,
    interpreted as \<open>memory\<close>.  \<open>Ldif\<close>: the LDIF reader and writer of the clients and the file backend, the in-memory
    one with a file, interpreted as \<open>ldif\<close>; both readers are inverse to the writer on what the format can carry.
  \<^item> \<open>Sqlite\<close>: the SQLite backend over an engine, a record of the statements it prepares; the locale \<open>sql_database\<close> is what the
    backend relies on (tables, transactions, cascades, failing statements).  \<open>SqliteTables\<close>: an engine of two tables,
    interpreted as \<open>tables\<close>, and the refinement of the in-memory backend.
  \<^item> \<open>Config\<close>, \<open>Acl\<close>, \<open>Password\<close>, \<open>Bind\<close>, \<open>RateLimiter\<close>, \<open>Gssapi\<close>, \<open>Sasl\<close>, \<open>Schema\<close>: one theory per
    source file, in the order of the code.  Hash functions and random bytes are the record
    \<open>Crypto\<close>; the hypotheses on it are \<open>crypto_ok\<close>, \<open>hash_works\<close> and \<open>md5_works\<close>, met by \<open>demoCrypto\<close>.
  \<^item> \<open>Session\<close>: the handlers and the rounds of \<^verbatim>\<open>serve\<close>.  \<open>Server\<close> is what sessions share and never change,
    \<open>World\<close> what they share and change (directory, rate limiter, random source), \<open>Session\<close> the
    members of one session.  A handler returns its answer and the changed state; a search returns
    the messages it sends.
  \<^item> \<open>SessionSafety\<close>, \<open>SessionAccess\<close>, \<open>SessionSystem\<close>: lemmas and properties of sessions, over any
    \<open>directory\<close>; the last one is the server as a transition system (\<open>system_step\<close>, \<open>reachable\<close>) with
    the locale \<open>system_invariant\<close> that lifts invariants of a round to all reachable states.
  \<^item> \<open>Interleaving\<close>: the handlers that write as programs of atomic backend calls, shown equal to the handlers when run alone, and any
    number of them interleaved; \<open>safe\<close> programs keep an invariant between their steps, and a law on the entries that handlers write
    (passwords with a scheme, the schema) becomes an invariant of the directory.
  \<^item> \<open>Daemon\<close>: logger (its levels are an instance of \<open>linorder\<close>), start-up, accept thread, workers, shutdown and the entry point with its texts;
    \<open>thread_step\<close> has the steps of the accept thread and of the sessions, which look at \<^verbatim>\<open>running_\<close> before every round and may wait for a
    peer inside one; \<open>daemon_step\<close> adds the call of \<^verbatim>\<open>stop\<close>.
  \<^item> \<open>ClientArgs\<close>, \<open>Client\<close>, \<open>Tools\<close>: options, the client class and the main functions of the tools, over a connection that is a
    record of its operations.  \<open>ClientSafety\<close>: the locales \<open>conn_invariant\<close> and \<open>client_run\<close>, which carry a property of connections
    through every tool, interpreted on connections that log what they send.  \<open>EndToEnd\<close>: the client against a session of the server.
    \<open>Usage\<close>: the usage and version texts, with the options they list compared with those the argument loop acts on.

  \<^bold>\<open>What is shown.\<close>  No write without the right to write, refusals without effect on the in-memory directory, and the frame of
  every update (\<open>write_needs_right\<close>, \<open>refusal_changes_nothing\<close>); who is bound after a bind and what
  SASL success proves; what searches disclose, and that paging is complete; that stored passwords
  carry a scheme, stored entries conform to the schema and the tree stays connected, with the two renames that break this; exact specifications
  of schema validation, access decisions (\<open>permitted\<close>, over folded names), simple bind and attribute modification; round trips of
  all codecs, tickets and passwords; bounds of the framing and the rate limiter.  The in-memory
  backend refines a partial map, for every sequence of updates, and the SQLite backend refines the in-memory one, up to the
  spelling of names, whichever of its writing statements fail, as long as its queries answer.  For the daemon: the session limit and the ownership of every open socket in all reachable states, when a
  connection is refused, that a shutdown ends with every worker joined and every socket closed unless a peer lets a session wait, and that demanded client certificates are enforced.  For the clients: with TLS asked for nothing but
  the StartTLS request is sent in the clear, and every call to change or compare entries gets the answer of the server's handler.

  \<^bold>\<open>Loops, fuel and undefined behaviour.\<close>  Every loop of the code is a recursive function with a
  termination proof, except the two loops of \<^verbatim>\<open>ldapsearch\<close>, which end when the server lets them: they are partial functions into
  \<open>option\<close>.  Nothing is cut off by fuel.  The only fuel is that of the client
  \<open>followPages\<close> in the statement about paging, and one more than the number of entries is enough.
  Where the code would read outside a vector or overflow an \<^verbatim>\<open>int\<close> of a search the model returns \<open>None\<close> and the round is \<open>Undefined\<close>.
  An exception of \<^verbatim>\<open>stoi\<close> or \<^verbatim>\<open>stoul\<close> is \<open>None\<close>.

  \<^bold>\<open>Assumptions of the model.\<close>  Clocks, files, directory listings, the segments of a connection, the
  results of system calls, of OpenSSL and failing sends are arguments; what OpenSSL promises is \<open>openssl_laws\<close>.  The mutex of the backend and of the rate
  limiter makes each of their operations atomic.  The transition system of \<open>SessionSystem\<close> takes a whole round of a session as one
  step; \<open>Interleaving\<close> takes one backend call as a step, with access tests and the checks before a password change as
  one step each.  Soundness, passwords with a scheme and conformity to the schema hold at the finer grain too; the connected tree and the effect of every successful
  modification hold only at the first, and \<open>concurrent_modify_lost\<close> and \<open>child_of_deleted\<close> are the runs that break them.

  \<^bold>\<open>Not modelled.\<close>  Messages on standard error, the Windows variants of the system calls, and the stubs for builds without OpenSSL or
  SQLite.  Signal handlers only set a flag, which the wait loop of \<^verbatim>\<open>main\<close> takes as an argument.  Memory and threads are those of the C++
  abstract machine without data races; the race between \<^verbatim>\<open>stop\<close> and the accept thread on a listener's descriptor is outside the model,
  and so is the time a thread spends blocked in \<^verbatim>\<open>recv\<close>; that it may be blocked there is a set of sockets in \<open>thread_step\<close>.
\<close>

section \<open>Sessions over SQLite\<close>

text \<open>A rename is two updates of the backend.  With SQLite the second can fail after the first is committed: the client is told that the
  rename failed, and the entry has the new naming attribute under its old name.\<close>

definition sqliteServer :: "TableDb SqliteState Server" where
  "sqliteServer = \<lparr>sv_config = defaultConfig\<lparr>cf_root_dn := ''cn=r''\<rparr>, sv_backend = sqliteBackend tableEngine, sv_crypto = demoCrypto,
     sv_schema = None, sv_sasl = None, sv_tls = None, sv_read_file = (\<lambda>_. None)\<rparr>"

definition failingStore :: "TableDb SqliteState" where
  "failingStore = \<lparr>sl_path = ''x.db'', sl_seed = [], sl_seed_file = None,
     sl_db = Some \<lparr>td_tables = \<lparr>tb_entries = [''ou=x''], tb_attributes = [(''ou=x'', ''ou'', ''x'', 0)]\<rparr>, td_saved = None,
       td_faults = [Fine, Fine, Fine, Fine, Fine, Fails]\<rparr>\<rparr>"

lemma rename_half_done:
  "let request = makeModifyDnRequest 8 \<lparr>dd_dn = ''ou=x'', dd_new_rdn = ''cn=y'', dd_delete_old_rdn = False, dd_new_superior = []\<rparr>;
       (response, wo) = handleModifyDn sqliteServer request rootSession \<lparr>wo_store = failingStore, wo_limiter = None, wo_rng = 0\<rparr> in
   msg_result response = OperationsError \<and>
   be_lookup (sqliteBackend tableEngine) (wo_store wo) ''ou=x'' =
     Some \<lparr>de_dn = ''ou=x'', de_attributes = [(''cn'', [''y'']), (''ou'', [''x''])]\<rparr>"
  by code_simp

end
